(* ===== verification/Prelude.thy ===== *)
theory Prelude
  imports Main "HOL-Library.Product_Lexorder" "HOL-Library.List_Lexorder" "HOL-Library.Char_ord"
begin

text \<open>
  What the components share: the collections their automation is gathered in, tables of rows
  with a key column (a lookup, an update of the rows with a key, an insert that refuses a key
  it already holds), the choice of the first row in an order, SQL's order on nullable columns,
  and the lifting of a one-step invariant to a run.
\<close>

named_theorems view_simps \<open>what one table operation leaves of another table's rows\<close>
named_theorems op_defs \<open>the bodies of the store's operations\<close>

section \<open>Tables\<close>

text \<open>
  A table is the list of its rows in insertion order. \<open>UPDATE ... WHERE key = k\<close> maps over
  the rows, \<open>SELECT ... WHERE key = k\<close> finds the first one; a primary key makes it the only
  one.
\<close>

definition row_at :: "('r \<Rightarrow> 'k) \<Rightarrow> 'k \<Rightarrow> 'r list \<Rightarrow> 'r option" where
  "row_at key k rows = find (\<lambda>r. key r = k) rows"

definition update_at :: "('r \<Rightarrow> 'k) \<Rightarrow> 'k \<Rightarrow> ('r \<Rightarrow> 'r) \<Rightarrow> 'r list \<Rightarrow> 'r list" where
  "update_at key k f rows = map (\<lambda>r. if key r = k then f r else r) rows"

definition insert_row :: "('r \<Rightarrow> 'k) \<Rightarrow> 'r \<Rightarrow> 'r list \<Rightarrow> 'r list option" where
  "insert_row key r rows =
     (if row_at key (key r) rows = None then Some (rows @ [r]) else None)"

text \<open>The contract of a table with a primary key, for the clients that only use the key.\<close>

locale keyed_table =
  fixes look :: "'k \<Rightarrow> 't \<Rightarrow> 'r option"
    and upd :: "'k \<Rightarrow> ('r \<Rightarrow> 'r) \<Rightarrow> 't \<Rightarrow> 't"
    and ins :: "'r \<Rightarrow> 't \<Rightarrow> 't option"
    and keyof :: "'r \<Rightarrow> 'k"
  assumes look_upd: "(\<And>r. keyof (f r) = keyof r) \<Longrightarrow>
      look j (upd k f t) = (if j = k then map_option f (look j t) else look j t)"
    and look_ins: "ins r t = Some t' \<Longrightarrow>
      look j t' = (if j = keyof r then Some r else look j t)"
    and ins_fresh: "ins r t = None \<longleftrightarrow> look (keyof r) t \<noteq> None"
    and look_key: "look k t = Some r \<Longrightarrow> keyof r = k"
begin

lemma look_upd_same: "(\<And>r. keyof (f r) = keyof r) \<Longrightarrow> look k t = Some r \<Longrightarrow>
    look k (upd k f t) = Some (f r)"
  by (simp add: look_upd)

lemma look_upd_other: "(\<And>r. keyof (f r) = keyof r) \<Longrightarrow> j \<noteq> k \<Longrightarrow>
    look j (upd k f t) = look j t"
  by (simp add: look_upd)

lemma ins_keeps: "ins r t = Some t' \<Longrightarrow> look j t = Some r' \<Longrightarrow> look j t' = Some r'"
  using ins_fresh [of r t] by (auto simp: look_ins)

lemma upd_dom: "(\<And>r. keyof (f r) = keyof r) \<Longrightarrow>
    (look j (upd k f t) = None) = (look j t = None)"
  by (simp add: look_upd)

end

lemma row_at_update: "(\<And>r. key (f r) = key r) \<Longrightarrow>
    row_at key j (update_at key k f rows) =
      (if j = k then map_option f (row_at key j rows) else row_at key j rows)"
  by (induction rows) (auto simp: row_at_def update_at_def)

lemma row_at_key: "row_at key k rows = Some r \<Longrightarrow> key r = k"
  by (auto simp: row_at_def find_Some_iff)

lemma row_at_mem: "row_at key k rows = Some r \<Longrightarrow> r \<in> set rows"
  by (auto simp: row_at_def find_Some_iff)

lemma row_at_None: "row_at key k rows = None \<longleftrightarrow> k \<notin> key ` set rows"
  by (auto simp: row_at_def find_None_iff)

lemma row_at_append: "row_at key k (xs @ ys) =
    (case row_at key k xs of None \<Rightarrow> row_at key k ys | Some r \<Rightarrow> Some r)"
  by (induction xs) (auto simp: row_at_def)

lemma row_at_distinct:
  "distinct (map key rows) \<Longrightarrow> r \<in> set rows \<Longrightarrow> row_at key (key r) rows = Some r"
  by (induction rows) (auto simp: row_at_def rev_image_eqI)

lemma update_at_keys: "(\<And>r. key (f r) = key r) \<Longrightarrow>
    map key (update_at key k f rows) = map key rows"
  by (induction rows) (auto simp: update_at_def)

lemma row_at_single: "row_at key k [r] = (if key r = k then Some r else None)"
  by (simp add: row_at_def)

lemma keyed_rows:
  fixes key :: "'r \<Rightarrow> 'k"
  shows "keyed_table (row_at key) (update_at key) (insert_row key) key"
proof
  fix f :: "'r \<Rightarrow> 'r" and j k :: 'k and t :: "'r list"
  assume "\<And>r. key (f r) = key r"
  then show "row_at key j (update_at key k f t) =
      (if j = k then map_option f (row_at key j t) else row_at key j t)"
    by (rule row_at_update)
next
  fix r :: 'r and t t' :: "'r list" and j :: 'k
  assume "insert_row key r t = Some t'"
  then show "row_at key j t' = (if j = key r then Some r else row_at key j t)"
    by (auto simp: insert_row_def row_at_append row_at_single split: option.splits if_splits)
next
  fix r :: 'r and t :: "'r list"
  show "(insert_row key r t = None) = (row_at key (key r) t \<noteq> None)"
    by (simp add: insert_row_def)
next
  fix k :: 'k and r :: 'r and t :: "'r list"
  assume "row_at key k t = Some r"
  then show "key r = k" by (rule row_at_key)
qed

section \<open>The first row in an order\<close>

text \<open>\<open>ORDER BY key LIMIT 1\<close>: the least row, the earlier one among equals.\<close>

fun first_by :: "('a \<Rightarrow> 'k::linorder) \<Rightarrow> 'a list \<Rightarrow> 'a option" where
  "first_by key [] = None"
| "first_by key (x # xs) =
     (case first_by key xs of
        None \<Rightarrow> Some x
      | Some y \<Rightarrow> if key x \<le> key y then Some x else Some y)"

lemma first_by_None [simp]: "first_by key xs = None \<longleftrightarrow> xs = []"
  by (cases xs) (auto split: option.splits)

lemma first_by_mem: "first_by key xs = Some x \<Longrightarrow> x \<in> set xs"
  by (induction xs arbitrary: x) (auto split: option.splits if_splits)

lemma first_by_least: "first_by key xs = Some x \<Longrightarrow> y \<in> set xs \<Longrightarrow> key x \<le> key y"
proof (induction xs arbitrary: x)
  case Nil
  then show ?case by simp
next
  case (Cons z zs)
  show ?case
  proof (cases "first_by key zs")
    case None
    with Cons.prems show ?thesis by simp
  next
    case (Some w)
    have w: "y \<in> set zs \<Longrightarrow> key w \<le> key y"
      using Cons.IH [OF Some] by blast
    with Cons.prems Some show ?thesis
      by (auto split: if_splits)
  qed
qed

section \<open>Nullable columns\<close>

text \<open>PostgreSQL's default ascending order puts \<open>NULL\<close> after every value.\<close>

datatype 'a nullable = Val 'a | Null

fun sql_value :: "'a option \<Rightarrow> 'a nullable" where
  "sql_value None = Null"
| "sql_value (Some x) = Val x"

instantiation nullable :: (linorder) linorder
begin

fun less_eq_nullable :: "'a nullable \<Rightarrow> 'a nullable \<Rightarrow> bool" where
  "less_eq_nullable (Val x) (Val y) = (x \<le> y)"
| "less_eq_nullable (Val x) Null = True"
| "less_eq_nullable Null (Val y) = False"
| "less_eq_nullable Null Null = True"

definition less_nullable :: "'a nullable \<Rightarrow> 'a nullable \<Rightarrow> bool" where
  "less_nullable x y \<longleftrightarrow> x \<le> y \<and> \<not> y \<le> x"

instance
proof
  fix x y z :: "'a nullable"
  show "(x < y) = (x \<le> y \<and> \<not> y \<le> x)" by (simp add: less_nullable_def)
  show "x \<le> x" by (cases x) auto
  show "x \<le> y \<Longrightarrow> y \<le> z \<Longrightarrow> x \<le> z" by (cases x; cases y; cases z) auto
  show "x \<le> y \<Longrightarrow> y \<le> x \<Longrightarrow> x = y" by (cases x; cases y) auto
  show "x \<le> y \<or> y \<le> x" by (cases x; cases y) auto
qed

end

section \<open>Invariants of runs\<close>

text \<open>
  A transition system with a predicate that one step keeps; the runs are the lists of labels.
\<close>

locale step_invariant =
  fixes step :: "'l \<Rightarrow> 's \<Rightarrow> 's \<Rightarrow> bool"
    and inv :: "'s \<Rightarrow> bool"
  assumes keeps: "step l s t \<Longrightarrow> inv s \<Longrightarrow> inv t"

inductive run :: "('l \<Rightarrow> 's \<Rightarrow> 's \<Rightarrow> bool) \<Rightarrow> 's \<Rightarrow> 'l list \<Rightarrow> 's \<Rightarrow> bool"
  for step :: "'l \<Rightarrow> 's \<Rightarrow> 's \<Rightarrow> bool" where
  run_nil: "run step s [] s"
| run_cons: "step l s t \<Longrightarrow> run step t ls u \<Longrightarrow> run step s (l # ls) u"

inductive_cases run_nilE: "run step s [] t"
inductive_cases run_consE: "run step s (l # ls) t"

lemma run_snoc: "run step s ls t \<Longrightarrow> step l t u \<Longrightarrow> run step s (ls @ [l]) u"
  by (induction rule: run.induct) (auto intro: run.intros)

lemma run_append: "run step s ls t \<Longrightarrow> run step t ms u \<Longrightarrow> run step s (ls @ ms) u"
  by (induction rule: run.induct) (auto intro: run.intros)

context step_invariant
begin

lemma run_keeps: "run step s ls t \<Longrightarrow> inv s \<Longrightarrow> inv t"
  by (induction rule: run.induct) (auto intro: keeps)

end

end
