(* ===== verification/Json.thy ===== *)
theory Json
  imports Prelude
begin

text \<open>
  The JSON values the program passes around, their compact encoding (\<open>json.Marshal\<close>), the raw
  messages of \<open>encoding/json\<close> and the equality of PostgreSQL's \<open>jsonb\<close>.
\<close>

section \<open>Values\<close>

text \<open>
  A number is a decimal literal without exponent: \<open>JNum m s\<close> is \<open>m\<close> with its last \<open>s\<close>
  digits after the point, so \<open>2\<close> is \<open>JNum 2 0\<close> and \<open>2.0\<close> is \<open>JNum 20 1\<close>. An object is the
  list of its fields; decoding leaves each key once (the last occurrence wins).
\<close>

datatype json =
    JNull
  | JBool bool
  | JNum int nat
  | JStr string
  | JArr "json list"
  | JObj "(string \<times> json) list"

abbreviation jnat :: "nat \<Rightarrow> json" where
  "jnat n \<equiv> JNum (int n) 0"

text \<open>A pointer to a string (\<open>*string\<close>) encodes as the string or as \<open>null\<close>.\<close>

fun jopt :: "string option \<Rightarrow> json" where
  "jopt None = JNull"
| "jopt (Some s) = JStr s"

text \<open>\<open>payload ->> key\<close> for the two kinds of value the queries read: texts and integers.\<close>

fun field :: "string \<Rightarrow> json \<Rightarrow> json option" where
  "field k (JObj kvs) = map_of kvs k"
| "field k _ = None"

definition text_field :: "string \<Rightarrow> json \<Rightarrow> string option" where
  "text_field k j = (case field k j of Some (JStr s) \<Rightarrow> Some s | _ \<Rightarrow> None)"

definition int_field :: "string \<Rightarrow> json \<Rightarrow> int option" where
  "int_field k j = (case field k j of Some (JNum n 0) \<Rightarrow> Some n | _ \<Rightarrow> None)"

section \<open>Encoding\<close>

fun digits :: "nat \<Rightarrow> string" where
  "digits n = (if n < 10 then [char_of (48 + n)] else digits (n div 10) @ [char_of (48 + n mod 10)])"

declare digits.simps [simp del]

definition encode_num :: "int \<Rightarrow> nat \<Rightarrow> string" where
  "encode_num m s =
     (let ds = digits (nat \<bar>m\<bar>);
          padded = replicate (Suc s - length ds) (CHR ''0'') @ ds;
          whole = take (length padded - s) padded;
          frac = drop (length padded - s) padded
      in (if m < 0 then ''-'' else []) @ whole @ (if s = 0 then [] else ''.'' @ frac))"

text \<open>
  \<open>json.Marshal\<close> writes two bytes for the escapes \<open>encoding/json\<close> has a letter for, six
  (\<open>\u00xx\<close>) for the other control characters and for the HTML characters, the byte itself
  otherwise.
\<close>

definition hex_digit :: "nat \<Rightarrow> char" where
  "hex_digit n = (if n < 10 then char_of (48 + n) else char_of (87 + n))"

definition escape_char :: "char \<Rightarrow> string" where
  "escape_char c =
     (let n = (of_char c :: nat); bs = char_of (92::nat) in
      if n = 34 \<or> n = 92 then [bs, c]
      else if n = 8 then [bs, CHR ''b'']
      else if n = 12 then [bs, CHR ''f'']
      else if n = 10 then [bs, CHR ''n'']
      else if n = 13 then [bs, CHR ''r'']
      else if n = 9 then [bs, CHR ''t'']
      else if n < 32 \<or> n = 38 \<or> n = 60 \<or> n = 62
        then [bs, CHR ''u'', CHR ''0'', CHR ''0'', hex_digit (n div 16), hex_digit (n mod 16)]
      else [c])"

definition encode_str :: "string \<Rightarrow> string" where
  "encode_str s = [char_of (34::nat)] @ concat (map escape_char s) @ [char_of (34::nat)]"

fun marshal :: "json \<Rightarrow> string"
  and marshal_items :: "json list \<Rightarrow> string"
  and marshal_fields :: "(string \<times> json) list \<Rightarrow> string" where
  "marshal JNull = ''null''"
| "marshal (JBool b) = (if b then ''true'' else ''false'')"
| "marshal (JNum m s) = encode_num m s"
| "marshal (JStr s) = encode_str s"
| "marshal (JArr xs) = ''['' @ marshal_items xs @ '']''"
| "marshal (JObj kvs) = ''{'' @ marshal_fields kvs @ ''}''"
| "marshal_items [] = []"
| "marshal_items [x] = marshal x"
| "marshal_items (x # y # xs) = marshal x @ '','' @ marshal_items (y # xs)"
| "marshal_fields [] = []"
| "marshal_fields [(k, v)] = encode_str k @ '':'' @ marshal v"
| "marshal_fields ((k, v) # f # fs) = encode_str k @ '':'' @ marshal v @ '','' @ marshal_fields (f # fs)"

lemma digits_nonempty [simp]: "digits n \<noteq> []"
  by (subst digits.simps) simp

lemma encode_num_nonempty: "encode_num m s \<noteq> []"
  by (auto simp: encode_num_def Let_def)

lemma marshal_nonempty [simp]: "marshal j \<noteq> []"
  by (cases j) (auto simp: encode_num_nonempty encode_str_def)

section \<open>Raw messages\<close>

text \<open>
  A \<open>json.RawMessage\<close> is represented by what the program and the database look at: its length in
  bytes, the value \<open>encoding/json\<close> reads in it (\<open>None\<close> when the bytes are not one valid document),
  and whether PostgreSQL reads the bytes too. It is the stricter reader: \<open>encoding/json\<close> replaces
  ill-formed UTF-8 and lone surrogates, PostgreSQL refuses them, as it refuses numbers out of the
  range of \<open>numeric\<close> and documents nested too deep for it.
\<close>

datatype raw = Raw (raw_len: nat) (raw_val: "json option") (raw_clean: bool)

definition raw_nil :: raw where
  "raw_nil = Raw 0 None True"

definition raw_of :: "json \<Rightarrow> raw" where
  "raw_of j = Raw (length (marshal j)) (Some j) True"

text \<open>A nullable \<open>jsonb\<close> column scanned into a raw message: \<open>NULL\<close> is the nil message.\<close>

fun raw_column :: "json option \<Rightarrow> raw" where
  "raw_column None = raw_nil"
| "raw_column (Some j) = raw_of j"

definition json_valid :: "raw \<Rightarrow> bool" where
  "json_valid r \<longleftrightarrow> raw_len r > 0 \<and> raw_val r \<noteq> None"

lemma raw_of_simps [simp]:
  "raw_val (raw_of j) = Some j" "raw_len (raw_of j) = length (marshal j)"
  "raw_len (raw_of j) > 0" "json_valid (raw_of j)" "raw_clean (raw_of j)"
  by (simp_all add: raw_of_def json_valid_def)

lemma raw_nil_simps [simp]: "raw_len raw_nil = 0" "raw_val raw_nil = None" "\<not> json_valid raw_nil"
  by (simp_all add: raw_nil_def json_valid_def)

section \<open>What PostgreSQL stores\<close>

text \<open>
  No text of the database holds the character NUL: a parameter of type \<open>text\<close> with a zero byte is
  refused, and so is a document with the escape \<open>\u0000\<close> in a string or a key when it becomes a
  \<open>jsonb\<close> value.
\<close>

definition nul_free :: "string \<Rightarrow> bool" where
  "nul_free s = list_all (\<lambda>c. c \<noteq> CHR 0x00) s"

fun json_nul_free :: "json \<Rightarrow> bool"
  and items_nul_free :: "json list \<Rightarrow> bool"
  and fields_nul_free :: "(string \<times> json) list \<Rightarrow> bool" where
  "json_nul_free (JStr s) = nul_free s"
| "json_nul_free (JArr xs) = items_nul_free xs"
| "json_nul_free (JObj kvs) = fields_nul_free kvs"
| "json_nul_free _ = True"
| "items_nul_free [] = True"
| "items_nul_free (x # xs) = (json_nul_free x \<and> items_nul_free xs)"
| "fields_nul_free [] = True"
| "fields_nul_free ((k, v) # fs) = (nul_free k \<and> json_nul_free v \<and> fields_nul_free fs)"

text \<open>The value of \<open>jsonb\<close> a raw message becomes, \<open>None\<close> when PostgreSQL refuses it.\<close>

definition to_jsonb :: "raw \<Rightarrow> json option" where
  "to_jsonb r =
     (case raw_val r of
        None \<Rightarrow> None
      | Some v \<Rightarrow> if raw_clean r \<and> json_nul_free v then Some v else None)"

lemma to_jsonb_val: "to_jsonb r = Some v \<Longrightarrow> raw_val r = Some v"
  by (auto simp: to_jsonb_def split: option.splits if_splits)

section \<open>Equality of jsonb\<close>

text \<open>
  \<open>jsonb\<close> compares numbers by value, objects as maps, everything else by structure. The normal
  form strips the zeros after the point and sorts the fields by key.
\<close>

fun strip_zeros :: "int \<Rightarrow> nat \<Rightarrow> int \<times> nat" where
  "strip_zeros m 0 = (m, 0)"
| "strip_zeros m (Suc s) = (if m mod 10 = 0 then strip_zeros (m div 10) s else (m, Suc s))"

fun norm :: "json \<Rightarrow> json"
  and norm_items :: "json list \<Rightarrow> json list"
  and norm_fields :: "(string \<times> json) list \<Rightarrow> (string \<times> json) list" where
  "norm JNull = JNull"
| "norm (JBool b) = JBool b"
| "norm (JNum m s) = (let (m', s') = strip_zeros m s in JNum m' s')"
| "norm (JStr s) = JStr s"
| "norm (JArr xs) = JArr (norm_items xs)"
| "norm (JObj kvs) = JObj (sort_key fst (norm_fields kvs))"
| "norm_items [] = []"
| "norm_items (x # xs) = norm x # norm_items xs"
| "norm_fields [] = []"
| "norm_fields ((k, v) # fs) = (k, norm v) # norm_fields fs"

definition jsonb_eq :: "json \<Rightarrow> json \<Rightarrow> bool" where
  "jsonb_eq a b \<longleftrightarrow> norm a = norm b"

lemma jsonb_eq_refl [simp]: "jsonb_eq a a"
  by (simp add: jsonb_eq_def)

lemma jsonb_eq_sym: "jsonb_eq a b \<Longrightarrow> jsonb_eq b a"
  by (simp add: jsonb_eq_def)

lemma jsonb_eq_trans: "jsonb_eq a b \<Longrightarrow> jsonb_eq b c \<Longrightarrow> jsonb_eq a c"
  by (simp add: jsonb_eq_def)

end
