(* ===== verification/Task_Model.thy ===== *)
theory Task_Model
  imports Json
begin

text \<open>
  The data of \<open>internal/task/model.go\<close>: the statuses, the rows of the tables \<open>tasks\<close>,
  \<open>task_steps\<close> and \<open>task_events\<close>, and the definition a task is created from. Pointers and
  nullable columns are options, \<open>timestamptz\<close> values are microseconds since an epoch.
\<close>

type_synonym time = int

abbreviation (input) microseconds_per_second :: int where
  "microseconds_per_second \<equiv> 1000000"

section \<open>Statuses\<close>

datatype task_status =
    StatusScheduled
  | StatusRunnable
  | StatusRunning
  | StatusRetryWait
  | StatusWaitingApproval
  | StatusSucceeded
  | StatusFailed
  | StatusCancelled
  | StatusTimedOut

datatype step_status =
    StepPending
  | StepRunning
  | StepWaitingApproval
  | StepSucceeded
  | StepFailed

definition step_type_approval :: string where
  "step_type_approval = ''approval''"

datatype event_type =
    TASK_CREATED
  | TASK_SCHEDULED
  | TASK_RUNNABLE
  | TASK_CLAIMED
  | TASK_RECOVERED
  | LEASE_EXPIRED
  | STEP_STARTED
  | STEP_SUCCEEDED
  | STEP_FAILED
  | TASK_SUCCEEDED
  | TASK_FAILED
  | TASK_RETRY_WAIT
  | TASK_RETRY_READY
  | TASK_WAITING_APPROVAL
  | TASK_APPROVED
  | TASK_REJECTED
  | TASK_CANCELLED
  | TASK_TIMED_OUT

section \<open>Definitions and rows\<close>

record step_definition =
  sd_type :: string
  sd_input :: raw
  sd_timeout_seconds :: int
  sd_max_attempts :: int

record task_definition =
  td_tenant_id :: "string option"
  td_run_at :: "time option"
  td_timeout_seconds :: int
  td_steps :: "step_definition list"

record task =
  t_id :: string
  t_tenant_id :: "string option"
  t_status :: task_status
  t_created_at :: time
  t_updated_at :: time
  t_run_at :: time
  t_retry_at :: "time option"
  t_worker_id :: "string option"
  t_lease_version :: nat
  t_lease_expires_at :: "time option"
  t_cancel_requested :: bool
  t_current_step :: nat
  t_checkpoint :: json
  t_timeout_seconds :: nat
  t_first_started_at :: "time option"
  t_deadline_at :: "time option"

record step =
  s_id :: string
  s_task_id :: string
  s_index :: nat
  s_type :: string
  s_status :: step_status
  s_attempt :: nat
  s_max_attempts :: nat
  s_idempotency_key :: string
  s_input :: json
  s_resolved_input :: "json option"
  s_output :: "json option"
  s_error :: "string option"
  s_approval_decision :: "string option"
  s_timeout_seconds :: nat
  s_started_at :: "time option"
  s_finished_at :: "time option"

record event =
  e_id :: nat
  e_task_id :: string
  e_type :: event_type
  e_payload :: json
  e_created_at :: time

text \<open>
  The columns the trigger \<open>reject_step_definition_change\<close> of the schema compares: what the
  definition of a step is made of.
\<close>

definition step_definition_columns ::
  "step \<Rightarrow> string \<times> string \<times> nat \<times> string \<times> nat \<times> string \<times> json \<times> nat" where
  "step_definition_columns s =
     (s_id s, s_task_id s, s_index s, s_type s, s_max_attempts s, s_idempotency_key s,
      s_input s, s_timeout_seconds s)"

end
