(* ===== verification/Resolve.thy ===== *)
theory Resolve
  imports Json
begin

text \<open>
  \<open>internal/task/resolve.go\<close>: the references \<open>{"$ref": ...}\<close> a configured input may hold,
  their check when a task is created and their replacement when a step first starts. A Go
  value of type \<open>any\<close> is a \<open>json\<close>, whose \<open>JNull\<close> is Go's \<open>nil\<close>. The loops over an object stop
  at the first error in the order of the list; Go's order over a map is not fixed, so which of
  several errors is reported is not either, only whether there is one.
\<close>

datatype ref_error =
    RefDecode
  | RefExtraFields
  | RefNotString
  | RefUnknown string
  | RefFirstStepPrevious
  | RefPreviousUnavailable
  | RefCheckpointUnavailable

definition reference_key :: string where
  "reference_key = ''$ref''"

definition decode_json :: "raw \<Rightarrow> ref_error + json" where
  "decode_json r = (case raw_val r of None \<Rightarrow> Inl RefDecode | Some v \<Rightarrow> Inr v)"

definition decode_optional_json :: "raw \<Rightarrow> ref_error + json" where
  "decode_optional_json r =
     (if raw_len r = 0 \<or> (raw_len r = 4 \<and> raw_val r = Some JNull) then Inr JNull
      else decode_json r)"

section \<open>The check at creation\<close>

fun validate_reference :: "json \<Rightarrow> nat \<Rightarrow> bool \<Rightarrow> ref_error + unit" where
  "validate_reference reference fields allow_previous =
     (if fields \<noteq> 1 then Inl RefExtraFields
      else case reference of
        JStr name \<Rightarrow>
          (if name = ''previous_output'' then
             (if \<not> allow_previous then Inl RefFirstStepPrevious else Inr ())
           else if name = ''checkpoint'' then Inr ()
           else Inl (RefUnknown name))
      | _ \<Rightarrow> Inl RefNotString)"

fun validate_references :: "json \<Rightarrow> bool \<Rightarrow> ref_error + unit"
  and validate_items :: "json list \<Rightarrow> bool \<Rightarrow> ref_error + unit"
  and validate_fields :: "(string \<times> json) list \<Rightarrow> bool \<Rightarrow> ref_error + unit" where
  "validate_references (JArr xs) allow_previous = validate_items xs allow_previous"
| "validate_references (JObj kvs) allow_previous =
     (case map_of kvs reference_key of
        Some reference \<Rightarrow> validate_reference reference (length kvs) allow_previous
      | None \<Rightarrow> validate_fields kvs allow_previous)"
| "validate_references _ allow_previous = Inr ()"
| "validate_items [] allow_previous = Inr ()"
| "validate_items (x # xs) allow_previous =
     (case validate_references x allow_previous of
        Inl e \<Rightarrow> Inl e
      | Inr _ \<Rightarrow> validate_items xs allow_previous)"
| "validate_fields [] allow_previous = Inr ()"
| "validate_fields ((k, v) # kvs) allow_previous =
     (case validate_references v allow_previous of
        Inl e \<Rightarrow> Inl e
      | Inr _ \<Rightarrow> validate_fields kvs allow_previous)"

definition validate_input_references :: "raw \<Rightarrow> bool \<Rightarrow> ref_error + unit" where
  "validate_input_references configured allow_previous =
     (case decode_json configured of
        Inl e \<Rightarrow> Inl e
      | Inr v \<Rightarrow> validate_references v allow_previous)"

section \<open>The replacement at the first start\<close>

fun resolve_reference :: "json \<Rightarrow> nat \<Rightarrow> json \<Rightarrow> json \<Rightarrow> ref_error + json" where
  "resolve_reference reference fields previous_output checkpoint =
     (if fields \<noteq> 1 then Inl RefExtraFields
      else case reference of
        JStr name \<Rightarrow>
          (if name = ''previous_output'' then
             (if previous_output = JNull then Inl RefPreviousUnavailable else Inr previous_output)
           else if name = ''checkpoint'' then
             (if checkpoint = JNull then Inl RefCheckpointUnavailable else Inr checkpoint)
           else Inl (RefUnknown name))
      | _ \<Rightarrow> Inl RefNotString)"

fun resolve_value :: "json \<Rightarrow> json \<Rightarrow> json \<Rightarrow> ref_error + json"
  and resolve_items :: "json list \<Rightarrow> json \<Rightarrow> json \<Rightarrow> ref_error + json list"
  and resolve_fields :: "(string \<times> json) list \<Rightarrow> json \<Rightarrow> json \<Rightarrow> ref_error + (string \<times> json) list" where
  "resolve_value (JArr xs) previous_output checkpoint =
     (case resolve_items xs previous_output checkpoint of
        Inl e \<Rightarrow> Inl e
      | Inr ys \<Rightarrow> Inr (JArr ys))"
| "resolve_value (JObj kvs) previous_output checkpoint =
     (case map_of kvs reference_key of
        Some reference \<Rightarrow> resolve_reference reference (length kvs) previous_output checkpoint
      | None \<Rightarrow>
         (case resolve_fields kvs previous_output checkpoint of
            Inl e \<Rightarrow> Inl e
          | Inr fs \<Rightarrow> Inr (JObj fs)))"
| "resolve_value v previous_output checkpoint = Inr v"
| "resolve_items [] previous_output checkpoint = Inr []"
| "resolve_items (x # xs) previous_output checkpoint =
     (case resolve_value x previous_output checkpoint of
        Inl e \<Rightarrow> Inl e
      | Inr y \<Rightarrow>
         (case resolve_items xs previous_output checkpoint of
            Inl e \<Rightarrow> Inl e
          | Inr ys \<Rightarrow> Inr (y # ys)))"
| "resolve_fields [] previous_output checkpoint = Inr []"
| "resolve_fields ((k, v) # kvs) previous_output checkpoint =
     (case resolve_value v previous_output checkpoint of
        Inl e \<Rightarrow> Inl e
      | Inr y \<Rightarrow>
         (case resolve_fields kvs previous_output checkpoint of
            Inl e \<Rightarrow> Inl e
          | Inr fs \<Rightarrow> Inr ((k, y) # fs)))"

definition resolve_input :: "raw \<Rightarrow> raw \<Rightarrow> raw \<Rightarrow> ref_error + raw" where
  "resolve_input configured previous_output checkpoint =
     (case decode_json configured of
        Inl e \<Rightarrow> Inl e
      | Inr configured_value \<Rightarrow>
     (case decode_optional_json previous_output of
        Inl e \<Rightarrow> Inl e
      | Inr previous_value \<Rightarrow>
     (case decode_optional_json checkpoint of
        Inl e \<Rightarrow> Inl e
      | Inr checkpoint_value \<Rightarrow>
     (case resolve_value configured_value previous_value checkpoint_value of
        Inl e \<Rightarrow> Inl e
      | Inr resolved \<Rightarrow> Inr (raw_of resolved)))))"

section \<open>References an input holds\<close>

text \<open>
  Whether an input uses a reference of the given name, and whether it is free of references:
  the vocabulary in which the two traversals are compared.
\<close>

fun uses_ref :: "string \<Rightarrow> json \<Rightarrow> bool"
  and items_use_ref :: "string \<Rightarrow> json list \<Rightarrow> bool"
  and fields_use_ref :: "string \<Rightarrow> (string \<times> json) list \<Rightarrow> bool" where
  "uses_ref name (JArr xs) = items_use_ref name xs"
| "uses_ref name (JObj kvs) =
     (case map_of kvs reference_key of
        Some reference \<Rightarrow> reference = JStr name
      | None \<Rightarrow> fields_use_ref name kvs)"
| "uses_ref name _ = False"
| "items_use_ref name [] = False"
| "items_use_ref name (x # xs) = (uses_ref name x \<or> items_use_ref name xs)"
| "fields_use_ref name [] = False"
| "fields_use_ref name ((k, v) # kvs) = (uses_ref name v \<or> fields_use_ref name kvs)"

fun ref_free :: "json \<Rightarrow> bool"
  and items_ref_free :: "json list \<Rightarrow> bool"
  and fields_ref_free :: "(string \<times> json) list \<Rightarrow> bool" where
  "ref_free (JArr xs) = items_ref_free xs"
| "ref_free (JObj kvs) = (map_of kvs reference_key = None \<and> fields_ref_free kvs)"
| "ref_free _ = True"
| "items_ref_free [] = True"
| "items_ref_free (x # xs) = (ref_free x \<and> items_ref_free xs)"
| "fields_ref_free [] = True"
| "fields_ref_free ((k, v) # kvs) = (ref_free v \<and> fields_ref_free kvs)"

lemma resolve_fields_keys:
  "resolve_fields kvs p c = Inr fs \<Longrightarrow> map fst fs = map fst kvs"
  by (induction kvs arbitrary: fs) (auto split: sum.splits)

lemma map_of_None_keys: "map_of kvs k = None \<longleftrightarrow> k \<notin> set (map fst kvs)"
  by (simp add: map_of_eq_None_iff)

text \<open>A resolved input is accepted by the check exactly when the resolution succeeds.\<close>

lemma resolve_value_iff:
  "(\<exists>r. resolve_value v p c = Inr r) \<longleftrightarrow>
     validate_references v True = Inr () \<and>
     (uses_ref ''previous_output'' v \<longrightarrow> p \<noteq> JNull) \<and> (uses_ref ''checkpoint'' v \<longrightarrow> c \<noteq> JNull)"
  "(\<exists>r. resolve_items xs p c = Inr r) \<longleftrightarrow>
     validate_items xs True = Inr () \<and>
     (items_use_ref ''previous_output'' xs \<longrightarrow> p \<noteq> JNull) \<and> (items_use_ref ''checkpoint'' xs \<longrightarrow> c \<noteq> JNull)"
  "(\<exists>r. resolve_fields kvs p c = Inr r) \<longleftrightarrow>
     validate_fields kvs True = Inr () \<and>
     (fields_use_ref ''previous_output'' kvs \<longrightarrow> p \<noteq> JNull) \<and> (fields_use_ref ''checkpoint'' kvs \<longrightarrow> c \<noteq> JNull)"
proof (induction v p c and xs p c and kvs p c rule: resolve_value_resolve_items_resolve_fields.induct)
  case (2 kvs p c)
  then show ?case
    by (cases "map_of kvs reference_key") (auto split: sum.splits json.splits)
qed (auto split: sum.splits)

lemma validate_allow_previous:
  "validate_references v False = Inr () \<longleftrightarrow>
     validate_references v True = Inr () \<and> \<not> uses_ref ''previous_output'' v"
  "validate_items xs False = Inr () \<longleftrightarrow>
     validate_items xs True = Inr () \<and> \<not> items_use_ref ''previous_output'' xs"
  "validate_fields kvs False = Inr () \<longleftrightarrow>
     validate_fields kvs True = Inr () \<and> \<not> fields_use_ref ''previous_output'' kvs"
proof (induction v and xs and kvs rule: ref_free_items_ref_free_fields_ref_free.induct)
  case (2 kvs)
  then show ?case
    by (cases "map_of kvs reference_key") (auto split: sum.splits json.splits)
qed (auto split: sum.splits)

lemma resolve_ref_free:
  "ref_free v \<Longrightarrow> resolve_value v p c = Inr v"
  "items_ref_free xs \<Longrightarrow> resolve_items xs p c = Inr xs"
  "fields_ref_free kvs \<Longrightarrow> resolve_fields kvs p c = Inr kvs"
  by (induction v and xs and kvs rule: ref_free_items_ref_free_fields_ref_free.induct) auto

lemma resolve_gives_ref_free:
  "resolve_value v p c = Inr r \<Longrightarrow> ref_free p \<Longrightarrow> ref_free c \<Longrightarrow> ref_free r"
  "resolve_items xs p c = Inr rs \<Longrightarrow> ref_free p \<Longrightarrow> ref_free c \<Longrightarrow> items_ref_free rs"
  "resolve_fields kvs p c = Inr fs \<Longrightarrow> ref_free p \<Longrightarrow> ref_free c \<Longrightarrow> fields_ref_free fs"
proof (induction v p c and xs p c and kvs p c arbitrary: r and rs and fs
    rule: resolve_value_resolve_items_resolve_fields.induct)
  case (2 kvs p c)
  show ?case
  proof (cases "map_of kvs reference_key")
    case None
    with 2 show ?thesis
      by (auto split: sum.splits dest: resolve_fields_keys simp: map_of_None_keys simp del: set_map)
  next
    case (Some reference)
    with 2 show ?thesis by (auto split: if_splits json.splits)
  qed
qed (auto split: sum.splits)

lemma decode_optional_column [simp]:
  "decode_optional_json (raw_column None) = Inr JNull"
  "decode_optional_json (raw_column (Some j)) = Inr j"
  "decode_optional_json (raw_of j) = Inr j"
  by (auto simp: decode_optional_json_def decode_json_def)

lemma decode_json_of [simp]: "decode_json (raw_of j) = Inr j"
  by (simp add: decode_json_def)

text \<open>On columns of the database the resolution is the traversal of the decoded values.\<close>

lemma resolve_input_columns:
  "resolve_input (raw_of configured) (raw_column previous) (raw_of checkpoint) =
     (case resolve_value configured (case previous of None \<Rightarrow> JNull | Some p \<Rightarrow> p) checkpoint of
        Inl e \<Rightarrow> Inl e | Inr r \<Rightarrow> Inr (raw_of r))"
  by (cases previous) (simp_all add: resolve_input_def del: raw_column.simps)

end
