(* ===== verification/Store_Core.thy ===== *)
theory Store_Core
  imports Task_Model Resolve
begin

text \<open>
  The database and the parts of \<open>internal/store/store.go\<close> every operation uses: the tables,
  their queries and updates, the locked task, the ownership checks, and what the environment
  of a transaction decides (clock readings, rows locked by others, failures of the connection).
\<close>

section \<open>Errors\<close>

text \<open>
  The sentinel errors of the package, and the others an operation returns: a failed statement
  or connection, an input that does not resolve, a value the schema refuses, an outcome that is
  not JSON, an empty worker id, a failed random source. \<open>ErrPanic\<close> is a panic of the Go runtime.
\<close>

datatype err =
    ErrNotFound
  | ErrNoTask
  | ErrLeaseLost
  | ErrConflict
  | ErrCancelled
  | ErrDeadlineExceeded
  | ErrDatabase
  | ErrConstraint
  | ErrResolve ref_error
  | ErrInvalidOutput
  | ErrInvalidCheckpoint
  | ErrWorkerRequired
  | ErrRandom
  | ErrPanic

section \<open>The database\<close>

record db =
  tasks :: "task list"
  steps :: "step list"
  events :: "event list"
  next_event :: nat

definition empty_db :: db where
  "empty_db = \<lparr>tasks = [], steps = [], events = [], next_event = 1\<rparr>"

interpretation task_rows: keyed_table "row_at t_id" "update_at t_id" "insert_row t_id" t_id
  by (rule keyed_rows)

definition find_task :: "string \<Rightarrow> db \<Rightarrow> task option" where
  "find_task tid d = row_at t_id tid (tasks d)"

definition steps_of :: "string \<Rightarrow> db \<Rightarrow> step list" where
  "steps_of tid d = filter (\<lambda>s. s_task_id s = tid) (steps d)"

definition events_of :: "string \<Rightarrow> db \<Rightarrow> event list" where
  "events_of tid d = filter (\<lambda>e. e_task_id e = tid) (events d)"

text \<open>\<open>SELECT ... FROM task_steps WHERE task_id = tid AND id = sid\<close>, and by index.\<close>

definition find_step :: "string \<Rightarrow> string \<Rightarrow> db \<Rightarrow> step option" where
  "find_step tid sid d = find (\<lambda>s. s_id s = sid) (steps_of tid d)"

definition step_at :: "string \<Rightarrow> nat \<Rightarrow> db \<Rightarrow> step option" where
  "step_at tid i d = find (\<lambda>s. s_index s = i) (steps_of tid d)"

definition step_count :: "string \<Rightarrow> db \<Rightarrow> nat" where
  "step_count tid d = length (steps_of tid d)"

definition unfinished_predecessors :: "string \<Rightarrow> nat \<Rightarrow> db \<Rightarrow> bool" where
  "unfinished_predecessors tid i d =
     list_ex (\<lambda>s. s_index s < i \<and> s_status s \<noteq> StepSucceeded) (steps_of tid d)"

text \<open>\<open>UPDATE tasks ... WHERE id = tid\<close> and \<open>UPDATE task_steps ... WHERE task_id = tid AND id = sid\<close>.\<close>

definition update_task :: "string \<Rightarrow> (task \<Rightarrow> task) \<Rightarrow> db \<Rightarrow> db" where
  "update_task tid f d = d\<lparr>tasks := update_at t_id tid f (tasks d)\<rparr>"

definition update_step :: "string \<Rightarrow> string \<Rightarrow> (step \<Rightarrow> step) \<Rightarrow> db \<Rightarrow> db" where
  "update_step tid sid f d =
     d\<lparr>steps := map (\<lambda>s. if s_task_id s = tid \<and> s_id s = sid then f s else s) (steps d)\<rparr>"

text \<open>\<open>INSERT INTO task_events\<close>: the serial column numbers the events in insertion order.\<close>

definition insert_event :: "time \<Rightarrow> string \<Rightarrow> event_type \<Rightarrow> json \<Rightarrow> db \<Rightarrow> db" where
  "insert_event now tid ty payload d =
     d\<lparr>events := events d @
         [\<lparr>e_id = next_event d, e_task_id = tid, e_type = ty, e_payload = payload,
           e_created_at = now\<rparr>],
       next_event := Suc (next_event d)\<rparr>"

section \<open>The environment of a transaction\<close>

text \<open>
  \<open>clk e k\<close> is the \<open>k\<close>-th reading of the database's clock the operation makes, in program
  order; \<open>row_locked e\<close> are the task rows another transaction has locked (\<open>SKIP LOCKED\<close>);
  \<open>later e\<close> is what other clients commit between the operation's COMMIT and the query that
  confirms it or reads its result, \<open>later_fails e\<close> that this query fails. A \<open>fault\<close> is a
  statement that fails (BEGIN, a lock or statement timeout, a cancelled context), a COMMIT that
  is refused, or a COMMIT whose response is lost after it took effect.
\<close>

datatype fault = NoFault | StatementFails | CommitRejected | CommitLost

record env =
  clk :: "nat \<Rightarrow> time"
  row_locked :: "string \<Rightarrow> bool"
  fault :: fault
  later :: "db \<Rightarrow> db"
  later_fails :: bool

text \<open>
  What the body of a transaction ends in: a return without COMMIT, which the deferred
  \<open>tx.Rollback\<close> undoes, or a COMMIT of the database it built with the value returned after it.
\<close>

datatype 'a txn = Rollback "err + 'a" | Commit db "err + 'a"

fun run_tx :: "env \<Rightarrow> db \<Rightarrow> 'a txn \<Rightarrow> db \<times> (err + 'a)" where
  "run_tx e d (Rollback r) = (d, if fault e = StatementFails then Inl ErrDatabase else r)"
| "run_tx e d (Commit d' r) =
     (case fault e of
        NoFault \<Rightarrow> (d', r)
      | StatementFails \<Rightarrow> (d, Inl ErrDatabase)
      | CommitRejected \<Rightarrow> (d, Inl ErrDatabase)
      | CommitLost \<Rightarrow> (d', Inl ErrDatabase))"

text \<open>
  \<open>commitWithFactCheck\<close>: after a COMMIT that did not report success the persisted fact is read
  again, from the database as it then is; the operation succeeds when the fact is there.
\<close>

fun commit_with_fact_check ::
  "env \<Rightarrow> db \<Rightarrow> (db \<Rightarrow> bool) \<Rightarrow> 'a txn \<Rightarrow> db \<times> (err + 'a)" where
  "commit_with_fact_check e d confirm (Rollback r) =
     (d, if fault e = StatementFails then Inl ErrDatabase else r)"
| "commit_with_fact_check e d confirm (Commit d' r) =
     (case fault e of
        NoFault \<Rightarrow> (d', r)
      | StatementFails \<Rightarrow> (d, Inl ErrDatabase)
      | CommitRejected \<Rightarrow> (d, if \<not> later_fails e \<and> confirm (later e d) then r else Inl ErrDatabase)
      | CommitLost \<Rightarrow> (d', if \<not> later_fails e \<and> confirm (later e d') then r else Inl ErrDatabase))"

section \<open>Locking a task\<close>

record lease_token =
  lt_task_id :: string
  lt_worker_id :: string
  lt_lease_version :: nat

record locked_task =
  lk_status :: task_status
  lk_worker_id :: "string option"
  lk_lease_version :: nat
  lk_lease_expires_at :: "time option"
  lk_cancel_requested :: bool
  lk_deadline_at :: "time option"
  lk_database_now :: time
  lk_current_step :: nat
  lk_checkpoint :: json

definition lock_task :: "time \<Rightarrow> db \<Rightarrow> string \<Rightarrow> err + locked_task" where
  "lock_task now d tid =
     (case find_task tid d of
        None \<Rightarrow> Inl ErrNotFound
      | Some t \<Rightarrow> Inr
          \<lparr>lk_status = t_status t, lk_worker_id = t_worker_id t,
           lk_lease_version = t_lease_version t, lk_lease_expires_at = t_lease_expires_at t,
           lk_cancel_requested = t_cancel_requested t, lk_deadline_at = t_deadline_at t,
           lk_database_now = now, lk_current_step = t_current_step t,
           lk_checkpoint = t_checkpoint t\<rparr>)"

definition owns_active_lease :: "locked_task \<Rightarrow> lease_token \<Rightarrow> bool" where
  "owns_active_lease locked lease =
     (lk_status locked = StatusRunning \<and>
      lk_worker_id locked = Some (lt_worker_id lease) \<and>
      lk_lease_version locked = lt_lease_version lease \<and>
      (case lk_lease_expires_at locked of
         None \<Rightarrow> False
       | Some expires \<Rightarrow> lk_database_now locked < expires))"

definition deadline_passed :: "locked_task \<Rightarrow> bool" where
  "deadline_passed locked =
     (case lk_deadline_at locked of
        None \<Rightarrow> False
      | Some deadline \<Rightarrow> deadline \<le> lk_database_now locked)"

definition validate_ownership :: "locked_task \<Rightarrow> lease_token \<Rightarrow> err + unit" where
  "validate_ownership locked lease =
     (if \<not> owns_active_lease locked lease then Inl ErrLeaseLost
      else if lk_cancel_requested locked then Inl ErrCancelled
      else if deadline_passed locked then Inl ErrDeadlineExceeded
      else Inr ())"

definition lock_owned_task :: "time \<Rightarrow> db \<Rightarrow> lease_token \<Rightarrow> err + locked_task" where
  "lock_owned_task now d lease =
     (case lock_task now d (lt_task_id lease) of
        Inl x \<Rightarrow> Inl x
      | Inr locked \<Rightarrow>
         (case validate_ownership locked lease of
            Inl x \<Rightarrow> Inl x
          | Inr _ \<Rightarrow> Inr locked))"

fun is_terminal_status :: "task_status \<Rightarrow> bool" where
  "is_terminal_status StatusSucceeded = True"
| "is_terminal_status StatusFailed = True"
| "is_terminal_status StatusCancelled = True"
| "is_terminal_status StatusTimedOut = True"
| "is_terminal_status _ = False"

section \<open>The store\<close>

record store =
  st_lease_duration :: int

text \<open>\<open>New\<close>: durations are nanoseconds; a non-positive lease duration is 30 seconds.\<close>

definition new_store :: "int \<Rightarrow> store" where
  "new_store lease_duration =
     \<lparr>st_lease_duration = (if lease_duration \<le> 0 then 30 * 1000000000 else lease_duration)\<rparr>"

definition lease_microseconds :: "store \<Rightarrow> int" where
  "lease_microseconds st = st_lease_duration st div 1000"

definition max_json_bytes :: nat where
  "max_json_bytes = 1048576"

section \<open>What an update leaves alone\<close>

lemma find_task_update [view_simps]: "(\<And>t. t_id (f t) = t_id t) \<Longrightarrow>
    find_task j (update_task i f d) =
      (if j = i then map_option f (find_task j d) else find_task j d)"
  by (simp add: find_task_def update_task_def task_rows.look_upd)

lemma find_task_simps [view_simps]:
  "find_task j (update_step i sid g d) = find_task j d"
  "find_task j (insert_event now i ty p d) = find_task j d"
  by (simp_all add: find_task_def update_step_def insert_event_def)

lemma steps_of_simps [view_simps]:
  "steps_of j (update_task i f d) = steps_of j d"
  "steps_of j (insert_event now i ty p d) = steps_of j d"
  by (simp_all add: steps_of_def update_task_def insert_event_def)

definition set_step :: "string \<Rightarrow> (step \<Rightarrow> step) \<Rightarrow> step list \<Rightarrow> step list" where
  "set_step sid g ss = map (\<lambda>s. if s_id s = sid then g s else s) ss"

lemma filter_map_update: "(\<And>s. k (g s) = k s) \<Longrightarrow>
    filter (\<lambda>s. k s = j) (map (\<lambda>s. if k s = i \<and> P s then g s else s) xs) =
      (if j = i then map (\<lambda>s. if P s then g s else s) (filter (\<lambda>s. k s = j) xs)
       else filter (\<lambda>s. k s = j) xs)"
  by (induction xs) auto

lemma steps_of_update [view_simps]:
  assumes "\<And>s. s_task_id (g s) = s_task_id s"
  shows "steps_of j (update_step i sid g d) =
    (if j = i then set_step sid g (steps_of j d) else steps_of j d)"
  using filter_map_update [of s_task_id g j i "\<lambda>s. s_id s = sid", OF assms]
  unfolding steps_of_def update_step_def set_step_def by simp

lemma length_set_step [simp]: "length (set_step sid g ss) = length ss"
  by (simp add: set_step_def)

lemma map_set_step: "(\<And>s. k (g s) = k s) \<Longrightarrow> map k (set_step sid g ss) = map k ss"
  by (simp add: set_step_def)

lemma events_of_simps [view_simps]:
  "events_of j (update_task i f d) = events_of j d"
  "events_of j (update_step i sid g d) = events_of j d"
  by (simp_all add: events_of_def update_task_def update_step_def)

lemma events_of_insert [view_simps]:
  "events_of j (insert_event now i ty p d) =
     (if j = i then events_of j d @
        [\<lparr>e_id = next_event d, e_task_id = i, e_type = ty, e_payload = p, e_created_at = now\<rparr>]
      else events_of j d)"
  by (simp add: events_of_def insert_event_def)

lemma find_task_id: "find_task tid d = Some t \<Longrightarrow> t_id t = tid"
  unfolding find_task_def by (rule row_at_key)

lemma steps_of_task: "s \<in> set (steps_of tid d) \<Longrightarrow> s_task_id s = tid"
  by (simp add: steps_of_def)

lemma find_step_mem: "find_step tid sid d = Some s \<Longrightarrow> s \<in> set (steps_of tid d) \<and> s_id s = sid"
  by (auto simp: find_step_def find_Some_iff)

lemma step_at_mem: "step_at tid i d = Some s \<Longrightarrow> s \<in> set (steps_of tid d) \<and> s_index s = i"
  by (auto simp: step_at_def find_Some_iff)

section \<open>Ownership\<close>

lemma lock_task_Inr: "lock_task now d tid = Inr lk \<longleftrightarrow>
    (\<exists>t. find_task tid d = Some t \<and>
       lk = \<lparr>lk_status = t_status t, lk_worker_id = t_worker_id t,
             lk_lease_version = t_lease_version t, lk_lease_expires_at = t_lease_expires_at t,
             lk_cancel_requested = t_cancel_requested t, lk_deadline_at = t_deadline_at t,
             lk_database_now = now, lk_current_step = t_current_step t,
             lk_checkpoint = t_checkpoint t\<rparr>)"
  by (auto simp: lock_task_def split: option.splits)

text \<open>The same conditions on the row: the lease a token names is live at a time.\<close>

definition live_lease :: "time \<Rightarrow> task \<Rightarrow> lease_token \<Rightarrow> bool" where
  "live_lease now t lease \<longleftrightarrow>
     t_status t = StatusRunning \<and> t_worker_id t = Some (lt_worker_id lease) \<and>
     t_lease_version t = lt_lease_version lease \<and>
     (\<exists>expires. t_lease_expires_at t = Some expires \<and> now < expires)"

definition overdue :: "time \<Rightarrow> task \<Rightarrow> bool" where
  "overdue now t \<longleftrightarrow> (\<exists>deadline. t_deadline_at t = Some deadline \<and> deadline \<le> now)"

lemma lock_owned_Inr: "lock_owned_task now d lease = Inr lk \<longleftrightarrow>
    (\<exists>t. find_task (lt_task_id lease) d = Some t \<and> live_lease now t lease \<and>
       \<not> t_cancel_requested t \<and> \<not> overdue now t \<and>
       lock_task now d (lt_task_id lease) = Inr lk)"
  by (auto simp: lock_owned_task_def lock_task_def validate_ownership_def owns_active_lease_def
      live_lease_def overdue_def deadline_passed_def split: option.splits if_splits)

lemma owns_active_lease_row:
  "lock_task now d tid = Inr lk \<Longrightarrow> find_task tid d = Some t \<Longrightarrow>
    owns_active_lease lk lease = live_lease now t lease"
  by (auto simp: lock_task_Inr owns_active_lease_def live_lease_def split: option.splits)

text \<open>Two tokens that own the same row at the same time are the same token.\<close>

lemma live_lease_unique:
  "live_lease now t a \<Longrightarrow> live_lease now' t b \<Longrightarrow> lt_task_id a = lt_task_id b \<Longrightarrow> a = b"
  by (cases a; cases b) (auto simp: live_lease_def)

section \<open>Transactions\<close>

lemma run_tx_cases: "run_tx e d x = (d', r) \<Longrightarrow>
    d' = d \<or> (\<exists>r'. x = Commit d' r')"
  by (cases x) (auto split: fault.splits)

lemma fact_check_cases: "commit_with_fact_check e d c x = (d', r) \<Longrightarrow>
    d' = d \<or> (\<exists>r'. x = Commit d' r')"
  by (cases x) (auto split: fault.splits)

end
