(* ===== verification/Store_Create.thy ===== *)
theory Store_Create
  imports Store_Core
begin

text \<open>
  \<open>CreateTask\<close>, \<open>LoadTask\<close> and \<open>LoadEvents\<close> of \<open>internal/store/store.go\<close>. The ids come from
  \<open>id.New\<close>: the \<open>k\<close>-th call's result is \<open>new_id k\<close>, an error when the random source fails.
\<close>

section \<open>LoadTask and LoadEvents\<close>

text \<open>
  \<open>LoadTask\<close> reads the task row and then the steps in two statements without a transaction, so
  the second may see a later database than the first. The loaded task is the row together with
  its steps in order.
\<close>

record loaded_task =
  ld_task :: task
  ld_steps :: "step list"

definition load_task :: "db \<Rightarrow> db \<Rightarrow> string \<Rightarrow> err + loaded_task" where
  "load_task d d' tid =
     (case find_task tid d of
        None \<Rightarrow> Inl ErrNotFound
      | Some t \<Rightarrow> Inr \<lparr>ld_task = t, ld_steps = sort_key s_index (steps_of tid d')\<rparr>)"

definition load_events :: "db \<Rightarrow> string \<Rightarrow> event list" where
  "load_events d tid = sort_key e_id (events_of tid d)"

section \<open>CreateTask\<close>

text \<open>The \<open>integer\<close> columns hold 32-bit values; the checks of the schema require them positive.\<close>

definition positive_int4 :: "int \<Rightarrow> bool" where
  "positive_int4 n \<longleftrightarrow> 0 < n \<and> n \<le> 2147483647"

definition insert_task :: "task \<Rightarrow> db \<Rightarrow> err + db" where
  "insert_task t d =
     (case insert_row t_id t (tasks d) of
        None \<Rightarrow> Inl ErrConstraint
      | Some ts \<Rightarrow> Inr (d\<lparr>tasks := ts\<rparr>))"

text \<open>
  \<open>INSERT INTO task_steps\<close> under the constraints of the table: the primary key, the unique and
  non-empty idempotency key, the unique index within the task.
\<close>

definition insert_step :: "step \<Rightarrow> db \<Rightarrow> err + db" where
  "insert_step s d =
     (if list_ex (\<lambda>r. s_id r = s_id s) (steps d)
        \<or> list_ex (\<lambda>r. s_idempotency_key r = s_idempotency_key s) (steps d)
        \<or> s_idempotency_key s = []
        \<or> list_ex (\<lambda>r. s_index r = s_index s) (steps_of (s_task_id s) d)
      then Inl ErrConstraint
      else Inr (d\<lparr>steps := steps d @ [s]\<rparr>))"

definition new_step :: "string \<Rightarrow> string \<Rightarrow> nat \<Rightarrow> step_definition \<Rightarrow> json \<Rightarrow> step" where
  "new_step tid sid i sd input =
     \<lparr>s_id = sid, s_task_id = tid, s_index = i, s_type = sd_type sd, s_status = StepPending,
      s_attempt = 0, s_max_attempts = nat (sd_max_attempts sd),
      s_idempotency_key = tid @ '':'' @ sid, s_input = input, s_resolved_input = None,
      s_output = None, s_error = None, s_approval_decision = None,
      s_timeout_seconds = nat (sd_timeout_seconds sd), s_started_at = None, s_finished_at = None\<rparr>"

fun insert_steps ::
  "(nat \<Rightarrow> err + string) \<Rightarrow> string \<Rightarrow> nat \<Rightarrow> step_definition list \<Rightarrow> db \<Rightarrow> err + db" where
  "insert_steps new_id tid i [] d = Inr d"
| "insert_steps new_id tid i (sd # sds) d =
     (case new_id (Suc i) of
        Inl x \<Rightarrow> Inl x
      | Inr sid \<Rightarrow>
     (case to_jsonb (sd_input sd) of
        None \<Rightarrow> Inl ErrConstraint
      | Some input \<Rightarrow>
     (if \<not> positive_int4 (sd_max_attempts sd) \<or> \<not> positive_int4 (sd_timeout_seconds sd)
         \<or> \<not> nul_free (sd_type sd)
      then Inl ErrConstraint
      else case insert_step (new_step tid sid i sd input) d of
        Inl x \<Rightarrow> Inl x
      | Inr d' \<Rightarrow> insert_steps new_id tid (Suc i) sds d')))"

definition new_task :: "env \<Rightarrow> string \<Rightarrow> task_definition \<Rightarrow> task" where
  "new_task e tid td =
     \<lparr>t_id = tid, t_tenant_id = td_tenant_id td,
      t_status = (case td_run_at td of
          Some r \<Rightarrow> if clk e 0 < r then StatusScheduled else StatusRunnable
        | None \<Rightarrow> StatusRunnable),
      t_created_at = clk e 1, t_updated_at = clk e 2,
      t_run_at = (case td_run_at td of Some r \<Rightarrow> r | None \<Rightarrow> clk e 0),
      t_retry_at = None, t_worker_id = None, t_lease_version = 0, t_lease_expires_at = None,
      t_cancel_requested = False, t_current_step = 0, t_checkpoint = JObj [],
      t_timeout_seconds = nat (td_timeout_seconds td),
      t_first_started_at = None, t_deadline_at = None\<rparr>"

text \<open>A time encodes as an RFC 3339 text; the number of microseconds stands for it.\<close>

abbreviation (input) jtime :: "time \<Rightarrow> json" where
  "jtime x \<equiv> JNum x 0"

text \<open>A nullable column of type \<open>text\<close>.\<close>

definition nullable_text :: "string option \<Rightarrow> bool" where
  "nullable_text x = (case x of None \<Rightarrow> True | Some s \<Rightarrow> nul_free s)"

definition create_body :: "env \<Rightarrow> string \<Rightarrow> (nat \<Rightarrow> err + string) \<Rightarrow> task_definition \<Rightarrow> db \<Rightarrow> string txn" where
  "create_body e tid new_id td d =
     (if \<not> positive_int4 (td_timeout_seconds td) \<or> \<not> nullable_text (td_tenant_id td)
      then Rollback (Inl ErrConstraint)
      else case insert_task (new_task e tid td) d of
        Inl x \<Rightarrow> Rollback (Inl x)
      | Inr d1 \<Rightarrow>
     (case insert_steps new_id tid 0 (td_steps td) d1 of
        Inl x \<Rightarrow> Rollback (Inl x)
      | Inr d2 \<Rightarrow>
          (let d3 = insert_event (clk e 3) tid TASK_CREATED
                      (JObj [(''step_count'', jnat (length (td_steps td)))]) d2;
               d4 = (if t_status (new_task e tid td) = StatusScheduled
                     then insert_event (clk e 4) tid TASK_SCHEDULED
                            (JObj [(''run_at'', jtime (t_run_at (new_task e tid td)))]) d3
                     else d3)
           in Commit d4 (Inr tid))))"

text \<open>
  After its COMMIT \<open>CreateTask\<close> returns what \<open>LoadTask\<close> reads then: the task is created even
  where this read fails and an error is returned.
\<close>

definition create_task ::
  "env \<Rightarrow> (nat \<Rightarrow> err + string) \<Rightarrow> task_definition \<Rightarrow> db \<Rightarrow> db \<times> (err + loaded_task)" where
  "create_task e new_id td d =
     (case new_id 0 of
        Inl x \<Rightarrow> (d, Inl x)
      | Inr tid \<Rightarrow>
     (case run_tx e d (create_body e tid new_id td d) of
        (d', Inl x) \<Rightarrow> (d', Inl x)
      | (d', Inr _) \<Rightarrow>
          (d', if later_fails e then Inl ErrDatabase else load_task (later e d') (later e d') tid)))"

section \<open>What a creation adds\<close>

lemma insert_task_Inr: "insert_task t d = Inr d' \<longleftrightarrow>
    find_task (t_id t) d = None \<and> d' = d\<lparr>tasks := tasks d @ [t]\<rparr>"
  by (auto simp: insert_task_def insert_row_def find_task_def split: option.splits if_splits)

lemma insert_step_Inr: "insert_step s d = Inr d' \<Longrightarrow>
    d' = d\<lparr>steps := steps d @ [s]\<rparr> \<and> s_id s \<notin> s_id ` set (steps d) \<and>
    s_idempotency_key s \<notin> s_idempotency_key ` set (steps d)"
  by (auto simp: insert_step_def list_ex_iff split: if_splits)

text \<open>The rows a run of inserts appends.\<close>

fun step_rows :: "(nat \<Rightarrow> err + string) \<Rightarrow> string \<Rightarrow> nat \<Rightarrow> step_definition list \<Rightarrow> step list" where
  "step_rows new_id tid i [] = []"
| "step_rows new_id tid i (sd # sds) =
     (case new_id (Suc i) of
        Inl x \<Rightarrow> []
      | Inr sid \<Rightarrow> new_step tid sid i sd (case raw_val (sd_input sd) of None \<Rightarrow> JNull | Some v \<Rightarrow> v)
          # step_rows new_id tid (Suc i) sds)"

lemma insert_steps_Inr: "insert_steps new_id tid i sds d = Inr d' \<Longrightarrow>
    d' = d\<lparr>steps := steps d @ step_rows new_id tid i sds\<rparr> \<and>
    length (step_rows new_id tid i sds) = length sds \<and>
    (\<forall>sd \<in> set sds. positive_int4 (sd_max_attempts sd) \<and> positive_int4 (sd_timeout_seconds sd) \<and>
      to_jsonb (sd_input sd) \<noteq> None \<and> nul_free (sd_type sd))"
proof (induction sds arbitrary: i d)
  case Nil
  then show ?case by simp
next
  case (Cons sd sds)
  from Cons.prems obtain sid input d1 where
      parts: "new_id (Suc i) = Inr sid" "to_jsonb (sd_input sd) = Some input"
        "positive_int4 (sd_max_attempts sd)" "positive_int4 (sd_timeout_seconds sd)" "nul_free (sd_type sd)"
        "insert_step (new_step tid sid i sd input) d = Inr d1"
        "insert_steps new_id tid (Suc i) sds d1 = Inr d'"
    by (auto split: sum.splits option.splits if_splits)
  from Cons.IH [OF parts(7)] insert_step_Inr [OF parts(6)] to_jsonb_val [OF parts(2)] parts show ?case by simp
qed

lemma insert_steps_distinct: "insert_steps new_id tid i sds d = Inr d' \<Longrightarrow>
    (distinct (map s_id (steps d)) \<longrightarrow> distinct (map s_id (steps d'))) \<and>
    (distinct (map s_idempotency_key (steps d)) \<longrightarrow> distinct (map s_idempotency_key (steps d')))"
proof (induction sds arbitrary: i d)
  case Nil
  then show ?case by simp
next
  case (Cons sd sds)
  from Cons.prems obtain sid input d1 where
      ins: "insert_step (new_step tid sid i sd input) d = Inr d1"
        "insert_steps new_id tid (Suc i) sds d1 = Inr d'"
    by (auto split: sum.splits option.splits if_splits)
  from Cons.IH [OF ins(2)] insert_step_Inr [OF ins(1)] show ?case by auto
qed

lemma step_rows_task: "s \<in> set (step_rows new_id tid i sds) \<Longrightarrow>
    s_task_id s = tid \<and> s_status s = StepPending \<and> s_attempt s = 0 \<and> s_resolved_input s = None \<and>
    s_output s = None \<and> s_approval_decision s = None \<and>
    s_idempotency_key s = tid @ '':'' @ s_id s"
  by (induction sds arbitrary: i) (auto simp: new_step_def split: sum.splits)

lemma step_rows_index: "length (step_rows new_id tid i sds) = length sds \<Longrightarrow>
    map s_index (step_rows new_id tid i sds) = [i..<i + length sds]"
proof (induction sds arbitrary: i)
  case Nil
  then show ?case by simp
next
  case (Cons sd sds)
  from Cons.prems obtain sid where "new_id (Suc i) = Inr sid"
    by (cases "new_id (Suc i)") auto
  with Cons show ?case
    by (simp add: new_step_def upt_conv_Cons del: upt_Suc)
qed

lemma step_rows_max: "\<forall>sd \<in> set sds. positive_int4 (sd_max_attempts sd) \<and> positive_int4 (sd_timeout_seconds sd)
    \<Longrightarrow> s \<in> set (step_rows new_id tid i sds) \<Longrightarrow>
    0 < s_max_attempts s \<and> s_max_attempts s \<le> 2147483647 \<and>
    0 < s_timeout_seconds s \<and> s_timeout_seconds s \<le> 2147483647"
  by (induction sds arbitrary: i) (auto simp: new_step_def positive_int4_def split: sum.splits)

lemma create_body_Commit: "create_body e tid new_id td d = Commit d' r \<Longrightarrow>
    find_task tid d = None \<and> positive_int4 (td_timeout_seconds td) \<and> nullable_text (td_tenant_id td) \<and> r = Inr tid \<and>
    (\<exists>d2. insert_steps new_id tid 0 (td_steps td) (d\<lparr>tasks := tasks d @ [new_task e tid td]\<rparr>) = Inr d2 \<and>
      tasks d' = tasks d @ [new_task e tid td] \<and>
      steps d' = steps d @ step_rows new_id tid 0 (td_steps td) \<and>
      (\<exists>evs. events d' = events d @ evs \<and>
        (\<forall>ev \<in> set evs. e_task_id ev = tid \<and> e_type ev \<in> {TASK_CREATED, TASK_SCHEDULED})))"
  by (auto simp: create_body_def insert_task_Inr new_task_def Let_def insert_event_def
      dest!: insert_steps_Inr split: if_splits sum.splits)

lemma create_task_cases: "create_task e new_id td d = (d', r) \<Longrightarrow>
    d' = d \<or> (\<exists>tid r'. new_id 0 = Inr tid \<and> create_body e tid new_id td d = Commit d' r')"
  by (auto simp: create_task_def split: sum.splits prod.splits dest: run_tx_cases)

end
