(* ===== verification/Store_Claim.thy ===== *)
theory Store_Claim
  imports Store_Core
begin

text \<open>
  Taking a task and keeping it: \<open>ClaimTask\<close>, \<open>recoverExpiredTask\<close> and \<open>RenewLease\<close> of
  \<open>internal/store/store.go\<close>.
\<close>

section \<open>Recovery of an expired lease\<close>

text \<open>
  The outcome of \<open>recoverExpiredTask\<close>: the claim goes on, or \<open>errRecoveryExhausted\<close> ends it with
  the changes committed. \<open>clk e 1\<close> to \<open>clk e 5\<close> are its readings.
\<close>

datatype recovery = Recovered db | RecoveryExhausted db

definition recover_expired_task ::
  "env \<Rightarrow> string \<Rightarrow> nat \<Rightarrow> string option \<Rightarrow> nat \<Rightarrow> db \<Rightarrow> recovery" where
  "recover_expired_task e tid current_step previous_worker previous_version d =
     (let d1 = insert_event (clk e 1) tid LEASE_EXPIRED
                 (JObj [(''worker_id'', jopt previous_worker), (''lease_version'', jnat previous_version)]) d
      in case step_at tid current_step d1 of
        None \<Rightarrow>
          RecoveryExhausted
            (insert_event (clk e 3) tid TASK_SUCCEEDED (JObj [])
              (update_task tid (\<lambda>t. t\<lparr>t_status := StatusSucceeded, t_worker_id := None,
                 t_lease_expires_at := None, t_updated_at := clk e 2\<rparr>) d1))
      | Some s \<Rightarrow>
          (if s_status s \<noteq> StepRunning then Recovered d1
           else
             (let d2 = update_step tid (s_id s) (\<lambda>s. s\<lparr>s_status := StepFailed,
                         s_error := Some ''worker_lost'', s_finished_at := Some (clk e 2)\<rparr>) d1;
                  payload = JObj [(''step_id'', JStr (s_id s)), (''step_index'', jnat current_step),
                    (''attempt'', jnat (s_attempt s)), (''error'', JStr ''worker_lost''),
                    (''worker_id'', jopt previous_worker), (''lease_version'', jnat previous_version)];
                  d3 = insert_event (clk e 3) tid STEP_FAILED payload d2
              in if s_attempt s < s_max_attempts s then Recovered d3
                 else RecoveryExhausted
                   (insert_event (clk e 5) tid TASK_FAILED payload
                     (update_task tid (\<lambda>t. t\<lparr>t_status := StatusFailed, t_worker_id := None,
                        t_lease_expires_at := None, t_updated_at := clk e 4\<rparr>) d3)))))"

section \<open>ClaimTask\<close>

text \<open>
  The candidates: runnable tasks whose time has come and running tasks whose lease has expired,
  not cancelled and not past their deadline, in the order of creation; rows another transaction
  has locked are skipped.
\<close>

definition claimable :: "time \<Rightarrow> task \<Rightarrow> bool" where
  "claimable now t \<longleftrightarrow>
     ((t_status t = StatusRunnable \<and> t_run_at t \<le> now) \<or>
      (t_status t = StatusRunning \<and>
        (case t_lease_expires_at t of None \<Rightarrow> False | Some x \<Rightarrow> x \<le> now))) \<and>
     \<not> t_cancel_requested t \<and>
     (case t_deadline_at t of None \<Rightarrow> True | Some x \<Rightarrow> now < x)"

definition claim_candidate :: "env \<Rightarrow> db \<Rightarrow> task option" where
  "claim_candidate e d =
     first_by (\<lambda>t. (t_created_at t, t_id t))
       (filter (\<lambda>t. claimable (clk e 0) t \<and> \<not> row_locked e (t_id t)) (tasks d))"

record claim =
  cl_token :: lease_token
  cl_lease_expires_at :: time
  cl_deadline_at :: time

text \<open>
  The row a claim writes: \<open>clk e 6\<close> is the statement's time, \<open>clk e 7\<close> and \<open>clk e 8\<close> the clock
  while it runs.
\<close>

definition assign_lease :: "store \<Rightarrow> env \<Rightarrow> string \<Rightarrow> task \<Rightarrow> task" where
  "assign_lease st e worker t =
     t\<lparr>t_status := StatusRunning,
       t_worker_id := Some worker,
       t_lease_version := Suc (t_lease_version t),
       t_lease_expires_at := Some (clk e 7 + lease_microseconds st),
       t_first_started_at := Some (case t_first_started_at t of Some x \<Rightarrow> x | None \<Rightarrow> clk e 6),
       t_deadline_at := Some (case t_deadline_at t of Some x \<Rightarrow> x
         | None \<Rightarrow> clk e 6 + int (t_timeout_seconds t) * 1000000),
       t_updated_at := clk e 8\<rparr>"

definition claim_of :: "string \<Rightarrow> task \<Rightarrow> claim" where
  "claim_of worker t =
     \<lparr>cl_token = \<lparr>lt_task_id = t_id t, lt_worker_id = worker, lt_lease_version = t_lease_version t\<rparr>,
      cl_lease_expires_at = (case t_lease_expires_at t of Some x \<Rightarrow> x | None \<Rightarrow> 0),
      cl_deadline_at = (case t_deadline_at t of Some x \<Rightarrow> x | None \<Rightarrow> 0)\<rparr>"

definition finish_claim :: "store \<Rightarrow> env \<Rightarrow> string \<Rightarrow> task \<Rightarrow> db \<Rightarrow> claim txn" where
  "finish_claim st e worker t d =
     (let d1 = update_task (t_id t) (assign_lease st e worker) d;
          version = Suc (t_lease_version t);
          d2 = (if t_status t = StatusRunning
                then insert_event (clk e 9) (t_id t) TASK_RECOVERED
                  (JObj [(''previous_worker_id'', jopt (t_worker_id t)),
                    (''previous_lease_version'', jnat (t_lease_version t)),
                    (''worker_id'', JStr worker), (''lease_version'', jnat version)]) d1
                else d1);
          d3 = insert_event (clk e 10) (t_id t) TASK_CLAIMED
                 (JObj [(''worker_id'', JStr worker), (''lease_version'', jnat version)]) d2
      in Commit d3 (Inr (claim_of worker (assign_lease st e worker t))))"

definition claim_body :: "store \<Rightarrow> env \<Rightarrow> string \<Rightarrow> db \<Rightarrow> claim txn" where
  "claim_body st e worker d =
     (case claim_candidate e d of
        None \<Rightarrow> Rollback (Inl ErrNoTask)
      | Some t \<Rightarrow>
          (if t_status t = StatusRunning then
             (case recover_expired_task e (t_id t) (t_current_step t) (t_worker_id t) (t_lease_version t) d of
                RecoveryExhausted d' \<Rightarrow> Commit d' (Inl ErrNoTask)
              | Recovered d' \<Rightarrow> finish_claim st e worker t d')
           else finish_claim st e worker t d))"

definition claim_task :: "store \<Rightarrow> env \<Rightarrow> string \<Rightarrow> db \<Rightarrow> db \<times> (err + claim)" where
  "claim_task st e worker d =
     (if worker = [] then (d, Inl ErrWorkerRequired)
      else run_tx e d (claim_body st e worker d))"

section \<open>RenewLease\<close>

definition renew_body :: "store \<Rightarrow> env \<Rightarrow> lease_token \<Rightarrow> db \<Rightarrow> unit txn" where
  "renew_body st e lease d =
     (case lock_owned_task (clk e 0) d lease of
        Inl x \<Rightarrow> Rollback (Inl x)
      | Inr locked \<Rightarrow>
          Commit (update_task (lt_task_id lease)
            (\<lambda>t. t\<lparr>t_lease_expires_at := Some (clk e 1 + lease_microseconds st),
                  t_updated_at := clk e 2\<rparr>) d) (Inr ()))"

definition renew_lease :: "store \<Rightarrow> env \<Rightarrow> lease_token \<Rightarrow> db \<Rightarrow> db \<times> (err + unit)" where
  "renew_lease st e lease d = run_tx e d (renew_body st e lease d)"

end
