(* ===== verification/Store_Steps.thy ===== *)
theory Store_Steps
  imports Store_Core
begin

text \<open>
  Executing the current step: \<open>StartStep\<close>, \<open>FinishStep\<close> and their fact checks
  \<open>stepStartPersisted\<close> and \<open>stepFinishPersisted\<close> of \<open>internal/store/store.go\<close>.
\<close>

record step_attempt =
  at_step_id :: string
  at_task_id :: string
  at_step_index :: nat
  at_step_type :: string
  at_attempt :: nat
  at_max_attempts :: nat
  at_idempotency_key :: string
  at_resolved_input :: json
  at_timeout_seconds :: nat

datatype failure_class = NoClass | FailurePermanent | FailureTemporary

record step_outcome =
  so_output :: raw
  so_checkpoint :: raw
  so_error :: string
  so_failure_class :: failure_class

section \<open>StartStep\<close>

text \<open>
  The input an attempt runs with: the persisted one, or the configured one resolved against the
  output of the step before (read when it succeeded) and the checkpoint. Shared with
  \<open>WaitForApproval\<close>, which has the same lines.
\<close>

definition resolved_input_of :: "string \<Rightarrow> step \<Rightarrow> json \<Rightarrow> db \<Rightarrow> err + json" where
  "resolved_input_of tid s checkpoint d =
     (case s_resolved_input s of
        Some r \<Rightarrow> Inr r
      | None \<Rightarrow>
          (let previous =
             (if s_index s > 0 then
                (case find (\<lambda>p. s_index p = s_index s - 1 \<and> s_status p = StepSucceeded) (steps_of tid d) of
                   None \<Rightarrow> Inl ErrDatabase
                 | Some p \<Rightarrow> Inr (s_output p))
              else Inr None)
           in case previous of
             Inl x \<Rightarrow> Inl x
           | Inr previous_output \<Rightarrow>
               (case resolve_input (raw_of (s_input s)) (raw_column previous_output) (raw_of checkpoint) of
                  Inl x \<Rightarrow> Inl (ErrResolve x)
                | Inr r \<Rightarrow>
                    (case raw_val r of None \<Rightarrow> Inl ErrDatabase | Some v \<Rightarrow> Inr v))))"

definition start_step_row :: "time \<Rightarrow> json \<Rightarrow> step \<Rightarrow> step" where
  "start_step_row now resolved s =
     s\<lparr>s_status := StepRunning, s_attempt := Suc (s_attempt s), s_resolved_input := Some resolved,
       s_error := None, s_started_at := Some now, s_finished_at := None\<rparr>"

definition attempt_of :: "step \<Rightarrow> json \<Rightarrow> step_attempt" where
  "attempt_of s resolved =
     \<lparr>at_step_id = s_id s, at_task_id = s_task_id s, at_step_index = s_index s,
      at_step_type = s_type s, at_attempt = Suc (s_attempt s), at_max_attempts = s_max_attempts s,
      at_idempotency_key = s_idempotency_key s, at_resolved_input = resolved,
      at_timeout_seconds = s_timeout_seconds s\<rparr>"

definition start_body :: "env \<Rightarrow> lease_token \<Rightarrow> string \<Rightarrow> db \<Rightarrow> step_attempt txn" where
  "start_body e lease sid d =
     (case lock_owned_task (clk e 0) d lease of
        Inl x \<Rightarrow> Rollback (Inl x)
      | Inr locked \<Rightarrow>
     (case find_step (lt_task_id lease) sid d of
        None \<Rightarrow> Rollback (Inl ErrConflict)
      | Some s \<Rightarrow>
     (if s_type s = step_type_approval then Rollback (Inl ErrConflict)
      else if s_index s \<noteq> lk_current_step locked
        \<or> (s_status s \<noteq> StepPending \<and> s_status s \<noteq> StepFailed)
        \<or> s_attempt s \<ge> s_max_attempts s then Rollback (Inl ErrConflict)
      else if unfinished_predecessors (lt_task_id lease) (s_index s) d then Rollback (Inl ErrConflict)
      else case resolved_input_of (lt_task_id lease) s (lk_checkpoint locked) d of
        Inl x \<Rightarrow> Rollback (Inl x)
      | Inr resolved \<Rightarrow>
          (let d1 = update_step (lt_task_id lease) sid (start_step_row (clk e 1) resolved) d;
               d2 = insert_event (clk e 2) (lt_task_id lease) STEP_STARTED
                      (JObj [(''step_id'', JStr sid), (''step_index'', jnat (s_index s)),
                        (''attempt'', jnat (Suc (s_attempt s))), (''worker_id'', JStr (lt_worker_id lease)),
                        (''lease_version'', jnat (lt_lease_version lease))]) d1
           in Commit d2 (Inr (attempt_of s resolved))))))"

text \<open>\<open>stepStartPersisted\<close> and, for it and the others, the event an \<open>EXISTS\<close> looks for.\<close>

definition event_recorded :: "db \<Rightarrow> string \<Rightarrow> event_type \<Rightarrow> string \<Rightarrow> nat \<Rightarrow> bool" where
  "event_recorded d tid ty sid attempt =
     list_ex (\<lambda>ev. e_type ev = ty \<and> text_field ''step_id'' (e_payload ev) = Some sid \<and>
       int_field ''attempt'' (e_payload ev) = Some (int attempt)) (events_of tid d)"

definition step_start_persisted :: "step_attempt \<Rightarrow> db \<Rightarrow> bool" where
  "step_start_persisted a d =
     list_ex (\<lambda>s. s_id s = at_step_id a \<and> s_status s = StepRunning \<and> s_attempt s = at_attempt a \<and>
        (case s_resolved_input s of None \<Rightarrow> False | Some r \<Rightarrow> jsonb_eq r (at_resolved_input a)) \<and>
        event_recorded d (at_task_id a) STEP_STARTED (at_step_id a) (at_attempt a))
       (steps_of (at_task_id a) d)"

definition start_step :: "env \<Rightarrow> lease_token \<Rightarrow> string \<Rightarrow> db \<Rightarrow> db \<times> (err + step_attempt)" where
  "start_step e lease sid d =
     (let body = start_body e lease sid d;
          confirm = (case body of Commit _ (Inr a) \<Rightarrow> step_start_persisted a | _ \<Rightarrow> (\<lambda>_. False))
      in commit_with_fact_check e d confirm body)"

section \<open>FinishStep\<close>

text \<open>
  The retry delay in seconds, \<open>1 << min(attempt-1, 6)\<close> capped at 60. A negative shift count
  panics.
\<close>

definition retry_delay :: "nat \<Rightarrow> int option" where
  "retry_delay attempt =
     (let shift = min (int attempt - 1) 6 in
      if shift < 0 then None
      else let delay = 1 * 2 ^ nat shift in Some (if delay > 60 then 60 else delay))"

text \<open>The outcome after the size limits: \<open>len\<close> over 1 MiB turns it into an error.\<close>

definition limit_outcome :: "step_outcome \<Rightarrow> step_outcome" where
  "limit_outcome out =
     (let out1 = (if raw_len (so_output out) > max_json_bytes
                  then out\<lparr>so_error := ''output_too_large'', so_output := raw_nil\<rparr> else out)
      in if raw_len (so_checkpoint out1) > max_json_bytes
         then out1\<lparr>so_error := ''checkpoint_too_large'', so_output := raw_nil, so_checkpoint := raw_nil\<rparr>
         else out1)"

definition finish_payload :: "lease_token \<Rightarrow> step_attempt \<Rightarrow> string \<Rightarrow> json" where
  "finish_payload lease a step_error =
     JObj [(''step_id'', JStr (at_step_id a)), (''step_index'', jnat (at_step_index a)),
       (''attempt'', jnat (at_attempt a)), (''worker_id'', JStr (lt_worker_id lease)),
       (''lease_version'', jnat (lt_lease_version lease)), (''error'', JStr step_error)]"

text \<open>\<open>insertFinishEvents\<close>, with the readings \<open>clk e 4\<close> and \<open>clk e 5\<close>.\<close>

definition insert_finish_events ::
  "env \<Rightarrow> lease_token \<Rightarrow> step_attempt \<Rightarrow> event_type \<Rightarrow> string \<Rightarrow> bool \<Rightarrow> db \<Rightarrow> db" where
  "insert_finish_events e lease a step_event step_error task_terminal d =
     (let payload = finish_payload lease a step_error;
          d1 = insert_event (clk e 4) (lt_task_id lease) step_event payload d
      in if task_terminal
         then insert_event (clk e 5) (lt_task_id lease)
           (if step_event = STEP_FAILED then TASK_FAILED else TASK_SUCCEEDED) payload d1
         else d1)"

definition fail_step_row :: "time \<Rightarrow> string \<Rightarrow> step \<Rightarrow> step" where
  "fail_step_row now reason s =
     s\<lparr>s_status := StepFailed, s_output := None, s_error := Some reason, s_finished_at := Some now\<rparr>"

definition finish_failed :: "env \<Rightarrow> lease_token \<Rightarrow> step_attempt \<Rightarrow> step_outcome \<Rightarrow> db \<Rightarrow> unit txn" where
  "finish_failed e lease a out d =
     (let tid = lt_task_id lease;
          d1 = update_step tid (at_step_id a) (fail_step_row (clk e 1) (so_error out)) d;
          retrying = (so_failure_class out = FailureTemporary \<and> at_attempt a < at_max_attempts a)
      in if retrying then
           (case retry_delay (at_attempt a) of
              None \<Rightarrow> Rollback (Inl ErrPanic)
            | Some delay \<Rightarrow>
                (let d2 = update_task tid (\<lambda>t. t\<lparr>t_status := StatusRetryWait,
                            t_retry_at := Some (clk e 2 + delay * 1000000), t_worker_id := None,
                            t_lease_expires_at := None, t_updated_at := clk e 3\<rparr>) d1;
                     d3 = insert_finish_events e lease a STEP_FAILED (so_error out) False d2;
                     d4 = insert_event (clk e 6) tid TASK_RETRY_WAIT
                            (JObj [(''step_id'', JStr (at_step_id a)), (''attempt'', jnat (at_attempt a))]) d3
                 in Commit d4 (Inr ())))
         else
           (let d2 = update_task tid (\<lambda>t. t\<lparr>t_status := StatusFailed, t_retry_at := None,
                       t_worker_id := None, t_lease_expires_at := None, t_updated_at := clk e 3\<rparr>) d1
            in Commit (insert_finish_events e lease a STEP_FAILED (so_error out) True d2) (Inr ())))"

text \<open>\<open>COALESCE($3, checkpoint)\<close> with \<open>nullableJSON\<close>: an empty message keeps the checkpoint.\<close>

definition coalesce_checkpoint :: "raw \<Rightarrow> json \<Rightarrow> json" where
  "coalesce_checkpoint r c =
     (if raw_len r = 0 then c else case raw_val r of None \<Rightarrow> c | Some v \<Rightarrow> v)"

definition finish_succeeded ::
  "env \<Rightarrow> lease_token \<Rightarrow> step_attempt \<Rightarrow> step_outcome \<Rightarrow> nat \<Rightarrow> db \<Rightarrow> unit txn" where
  "finish_succeeded e lease a out step_index d =
     (if raw_len (so_output out) = 0 \<or> \<not> json_valid (so_output out) then Rollback (Inl ErrInvalidOutput)
      else if raw_len (so_checkpoint out) > 0 \<and> \<not> json_valid (so_checkpoint out)
        then Rollback (Inl ErrInvalidCheckpoint)
      else
        (let tid = lt_task_id lease;
             d1 = update_step tid (at_step_id a) (\<lambda>s. s\<lparr>s_status := StepSucceeded,
                    s_output := raw_val (so_output out), s_error := None,
                    s_finished_at := Some (clk e 1)\<rparr>) d;
             next_step = step_index + 1;
             terminal = (next_step = step_count tid d1);
             d2 = (if terminal then
                 update_task tid (\<lambda>t. t\<lparr>t_status := StatusSucceeded, t_current_step := next_step,
                   t_checkpoint := coalesce_checkpoint (so_checkpoint out) (t_checkpoint t),
                   t_worker_id := None, t_lease_expires_at := None, t_updated_at := clk e 3\<rparr>) d1
               else
                 update_task tid (\<lambda>t. t\<lparr>t_current_step := next_step,
                   t_checkpoint := coalesce_checkpoint (so_checkpoint out) (t_checkpoint t),
                   t_updated_at := clk e 3\<rparr>) d1)
         in Commit (insert_finish_events e lease a STEP_SUCCEEDED [] terminal d2) (Inr ())))"

definition finish_body :: "env \<Rightarrow> lease_token \<Rightarrow> step_attempt \<Rightarrow> step_outcome \<Rightarrow> db \<Rightarrow> unit txn" where
  "finish_body e lease a outcome d =
     (case lock_task (clk e 0) d (lt_task_id lease) of
        Inl x \<Rightarrow> Rollback (Inl x)
      | Inr locked \<Rightarrow>
     (case validate_ownership locked lease of
        Inl x \<Rightarrow> Rollback (Inl x)
      | Inr _ \<Rightarrow>
     (case find_step (lt_task_id lease) (at_step_id a) d of
        None \<Rightarrow> Rollback (Inl ErrConflict)
      | Some s \<Rightarrow>
     (if s_status s \<noteq> StepRunning \<or> s_attempt s \<noteq> at_attempt a \<or> s_index s \<noteq> lk_current_step locked
      then Rollback (Inl ErrConflict)
      else
        (let a' = a\<lparr>at_max_attempts := s_max_attempts s\<rparr>;
             out = limit_outcome outcome
         in if so_error out \<noteq> [] then finish_failed e lease a' out d
            else finish_succeeded e lease a' out (s_index s) d)))))"

text \<open>\<open>stepFinishPersisted\<close>: the attempt and outcome are those after the updates above.\<close>

definition step_finish_persisted :: "step_attempt \<Rightarrow> step_outcome \<Rightarrow> db \<Rightarrow> bool" where
  "step_finish_persisted a out d =
     (let failed = (so_error out \<noteq> []);
          step_status = (if failed then StepFailed else StepSucceeded);
          event_type = (if failed then STEP_FAILED else STEP_SUCCEEDED);
          task_status =
            (if failed then
               (if so_failure_class out = FailureTemporary \<and> at_attempt a < at_max_attempts a
                then StatusRetryWait else StatusFailed)
             else StatusRunning)
      in case find_task (at_task_id a) d of
           None \<Rightarrow> False
         | Some t \<Rightarrow>
             list_ex (\<lambda>s. s_id s = at_step_id a \<and> s_status s = step_status \<and> s_attempt s = at_attempt a \<and>
               ((step_status = StepSucceeded \<and>
                   (case (s_output s, raw_val (so_output out)) of
                      (Some o1, Some o2) \<Rightarrow> jsonb_eq o1 o2 | _ \<Rightarrow> False) \<and>
                   s_index s < t_current_step t) \<or>
                (step_status = StepFailed \<and> s_error s = Some (so_error out) \<and> t_status t = task_status)) \<and>
               event_recorded d (at_task_id a) event_type (at_step_id a) (at_attempt a))
              (steps_of (at_task_id a) d))"

definition finish_step ::
  "env \<Rightarrow> lease_token \<Rightarrow> step_attempt \<Rightarrow> step_outcome \<Rightarrow> db \<Rightarrow> db \<times> (err + unit)" where
  "finish_step e lease a outcome d =
     (let persisted_max = (case find_step (lt_task_id lease) (at_step_id a) d of
            None \<Rightarrow> at_max_attempts a | Some s \<Rightarrow> s_max_attempts s)
      in commit_with_fact_check e d
        (step_finish_persisted (a\<lparr>at_max_attempts := persisted_max\<rparr>) (limit_outcome outcome))
        (finish_body e lease a outcome d))"

end
