(* ===== verification/Store_Approval.thy ===== *)
theory Store_Approval
  imports Store_Steps
begin

text \<open>
  Approval steps: \<open>WaitForApproval\<close> and \<open>DecideApproval\<close> of \<open>internal/store/store.go\<close>, with
  the queries that confirm them after a lost commit response.
\<close>

section \<open>WaitForApproval\<close>

definition wait_step_row :: "time \<Rightarrow> json \<Rightarrow> step \<Rightarrow> step" where
  "wait_step_row now resolved s =
     s\<lparr>s_status := StepWaitingApproval, s_resolved_input := Some resolved, s_error := None,
       s_started_at := Some now, s_finished_at := None\<rparr>"

definition wait_body :: "env \<Rightarrow> lease_token \<Rightarrow> string \<Rightarrow> db \<Rightarrow> unit txn" where
  "wait_body e lease sid d =
     (case lock_owned_task (clk e 0) d lease of
        Inl x \<Rightarrow> Rollback (Inl x)
      | Inr locked \<Rightarrow>
     (case find_step (lt_task_id lease) sid d of
        None \<Rightarrow> Rollback (Inl ErrConflict)
      | Some s \<Rightarrow>
     (if s_type s \<noteq> step_type_approval \<or> s_index s \<noteq> lk_current_step locked
        \<or> s_status s \<noteq> StepPending \<or> s_attempt s \<noteq> 0 then Rollback (Inl ErrConflict)
      else if unfinished_predecessors (lt_task_id lease) (s_index s) d then Rollback (Inl ErrConflict)
      else case resolved_input_of (lt_task_id lease) s (lk_checkpoint locked) d of
        Inl x \<Rightarrow> Rollback (Inl x)
      | Inr resolved \<Rightarrow>
          (let d1 = update_step (lt_task_id lease) sid (wait_step_row (clk e 1) resolved) d;
               d2 = update_task (lt_task_id lease) (\<lambda>t. t\<lparr>t_status := StatusWaitingApproval,
                      t_worker_id := None, t_lease_expires_at := None, t_retry_at := None,
                      t_updated_at := clk e 2\<rparr>) d1;
               d3 = insert_event (clk e 3) (lt_task_id lease) TASK_WAITING_APPROVAL
                      (JObj [(''step_id'', JStr sid), (''step_index'', jnat (s_index s))]) d2
           in Commit d3 (Inr ())))))"

definition approval_wait_persisted :: "string \<Rightarrow> string \<Rightarrow> db \<Rightarrow> bool" where
  "approval_wait_persisted tid sid d =
     (case find_task tid d of
        None \<Rightarrow> False
      | Some t \<Rightarrow>
          t_status t = StatusWaitingApproval \<and>
          list_ex (\<lambda>s. s_id s = sid \<and> s_status s = StepWaitingApproval) (steps_of tid d) \<and>
          list_ex (\<lambda>ev. e_type ev = TASK_WAITING_APPROVAL \<and>
            text_field ''step_id'' (e_payload ev) = Some sid) (events_of tid d))"

definition wait_for_approval :: "env \<Rightarrow> lease_token \<Rightarrow> string \<Rightarrow> db \<Rightarrow> db \<times> (err + unit)" where
  "wait_for_approval e lease sid d =
     commit_with_fact_check e d (approval_wait_persisted (lt_task_id lease) sid) (wait_body e lease sid d)"

section \<open>DecideApproval\<close>

record approval_result =
  ar_decision :: string
  ar_task_status :: task_status

definition decision_payload :: "string \<Rightarrow> nat \<Rightarrow> string \<Rightarrow> json" where
  "decision_payload sid i decision =
     JObj [(''step_id'', JStr sid), (''step_index'', jnat i), (''decision'', JStr decision)]"

definition approve_body :: "env \<Rightarrow> string \<Rightarrow> string \<Rightarrow> nat \<Rightarrow> db \<Rightarrow> approval_result txn" where
  "approve_body e tid sid step_index d =
     (let next_step = step_index + 1;
          status = (if next_step = step_count tid d then StatusSucceeded else StatusRunnable);
          payload = decision_payload sid step_index ''approved'';
          d1 = update_step tid sid (\<lambda>s. s\<lparr>s_approval_decision := Some ''approved'',
                 s_status := StepSucceeded, s_error := None, s_finished_at := Some (clk e 1)\<rparr>) d;
          d2 = update_task tid (\<lambda>t. t\<lparr>t_status := status, t_current_step := next_step,
                 t_worker_id := None, t_lease_expires_at := None, t_retry_at := None,
                 t_updated_at := clk e 2\<rparr>) d1;
          d3 = insert_event (clk e 3) tid TASK_APPROVED payload d2;
          d4 = (if status = StatusSucceeded
                then insert_event (clk e 4) tid TASK_SUCCEEDED payload d3 else d3)
      in Commit d4 (Inr \<lparr>ar_decision = ''approved'', ar_task_status = status\<rparr>))"

definition reject_body :: "env \<Rightarrow> string \<Rightarrow> string \<Rightarrow> nat \<Rightarrow> db \<Rightarrow> approval_result txn" where
  "reject_body e tid sid step_index d =
     (let payload = decision_payload sid step_index ''rejected'';
          d1 = update_step tid sid (\<lambda>s. s\<lparr>s_approval_decision := Some ''rejected'',
                 s_status := StepFailed, s_error := Some ''approval_rejected'',
                 s_finished_at := Some (clk e 1)\<rparr>) d;
          d2 = update_task tid (\<lambda>t. t\<lparr>t_status := StatusFailed, t_worker_id := None,
                 t_lease_expires_at := None, t_retry_at := None, t_updated_at := clk e 2\<rparr>) d1;
          d3 = insert_event (clk e 3) tid TASK_REJECTED payload d2;
          d4 = insert_event (clk e 4) tid TASK_FAILED payload d3
      in Commit d4 (Inr \<lparr>ar_decision = ''rejected'', ar_task_status = StatusFailed\<rparr>))"

definition decide_body :: "env \<Rightarrow> string \<Rightarrow> string \<Rightarrow> string \<Rightarrow> db \<Rightarrow> approval_result txn" where
  "decide_body e tid sid decision d =
     (case lock_task (clk e 0) d tid of
        Inl x \<Rightarrow> Rollback (Inl x)
      | Inr locked \<Rightarrow>
     (case find_step tid sid d of
        None \<Rightarrow> Rollback (Inl ErrNotFound)
      | Some s \<Rightarrow>
     (case s_approval_decision s of
        Some persisted \<Rightarrow>
          (if persisted \<noteq> decision then Rollback (Inl ErrConflict)
           else Rollback (Inr \<lparr>ar_decision = persisted, ar_task_status = lk_status locked\<rparr>))
      | None \<Rightarrow>
          (if lk_status locked \<noteq> StatusWaitingApproval \<or> s_type s \<noteq> step_type_approval
             \<or> s_status s \<noteq> StepWaitingApproval \<or> s_index s \<noteq> lk_current_step locked
           then Rollback (Inl ErrConflict)
           else if lk_cancel_requested locked \<or> deadline_passed locked
           then Rollback (Inl ErrConflict)
           else if decision = ''approved'' then approve_body e tid sid (s_index s) d
           else reject_body e tid sid (s_index s) d))))"

definition decision_persisted :: "string \<Rightarrow> string \<Rightarrow> string \<Rightarrow> db \<Rightarrow> bool" where
  "decision_persisted tid sid decision d =
     (let step_status = (if decision = ''rejected'' then StepFailed else StepSucceeded);
          event_type = (if decision = ''rejected'' then TASK_REJECTED else TASK_APPROVED)
      in case find_task tid d of
           None \<Rightarrow> False
         | Some t \<Rightarrow>
             list_ex (\<lambda>s. s_id s = sid \<and> s_approval_decision s = Some decision \<and>
               s_status s = step_status \<and>
               ((decision = ''approved'' \<and> s_index s < t_current_step t) \<or>
                (decision = ''rejected'' \<and> t_status t = StatusFailed \<and> t_current_step t = s_index s)))
              (steps_of tid d) \<and>
             list_ex (\<lambda>ev. e_type ev = event_type \<and> text_field ''step_id'' (e_payload ev) = Some sid \<and>
               text_field ''decision'' (e_payload ev) = Some decision) (events_of tid d))"

definition decide_approval ::
  "env \<Rightarrow> string \<Rightarrow> string \<Rightarrow> string \<Rightarrow> db \<Rightarrow> db \<times> (err + approval_result)" where
  "decide_approval e tid sid decision d =
     (if decision \<noteq> ''approved'' \<and> decision \<noteq> ''rejected'' then (d, Inl ErrConflict)
      else commit_with_fact_check e d (decision_persisted tid sid decision) (decide_body e tid sid decision d))"

end
