(* ===== verification/Store_Control.thy ===== *)
theory Store_Control
  imports Store_Core
begin

text \<open>
  The control transitions of \<open>internal/store/store.go\<close>: cancellation and timeout by the owner,
  \<open>CancelTask\<close>, and the scheduler's \<open>ProcessDueControl\<close> and \<open>WakeDueRetry\<close>.
\<close>

section \<open>finishControlledTask\<close>

record control_outcome =
  co_status :: task_status
  co_reason :: string
  co_event_type :: event_type

definition cancelled_outcome :: control_outcome where
  "cancelled_outcome =
     \<lparr>co_status = StatusCancelled, co_reason = ''user_cancelled'', co_event_type = TASK_CANCELLED\<rparr>"

definition timed_out_outcome :: control_outcome where
  "timed_out_outcome =
     \<lparr>co_status = StatusTimedOut, co_reason = ''task_timeout'', co_event_type = TASK_TIMED_OUT\<rparr>"

text \<open>The step a control transition ends, with the event it writes when there is one.\<close>

definition finish_controlled_step :: "env \<Rightarrow> string \<Rightarrow> nat \<Rightarrow> string \<Rightarrow> db \<Rightarrow> db" where
  "finish_controlled_step e tid current_step reason d =
     (case step_at tid current_step d of
        None \<Rightarrow> d
      | Some s \<Rightarrow>
          (if s_status s = StepSucceeded then d
           else insert_event (clk e 3) tid STEP_FAILED
             (JObj [(''step_id'', JStr (s_id s)), (''step_index'', jnat current_step),
               (''attempt'', jnat (s_attempt s)), (''error'', JStr reason)])
             (update_step tid (s_id s) (\<lambda>s. s\<lparr>s_status := StepFailed, s_output := None,
                s_error := Some reason, s_finished_at := Some (clk e 2)\<rparr>) d)))"

definition finish_controlled_task :: "env \<Rightarrow> string \<Rightarrow> nat \<Rightarrow> control_outcome \<Rightarrow> db \<Rightarrow> db" where
  "finish_controlled_task e tid current_step outcome d =
     (let d1 = finish_controlled_step e tid current_step (co_reason outcome) d;
          d2 = update_task tid (\<lambda>t. t\<lparr>t_status := co_status outcome, t_retry_at := None,
                 t_worker_id := None, t_lease_expires_at := None, t_updated_at := clk e 4\<rparr>) d1
      in insert_event (clk e 5) tid (co_event_type outcome)
           (JObj [(''step_index'', jnat current_step), (''error'', JStr (co_reason outcome))]) d2)"

section \<open>The owner's transitions\<close>

definition timeout_owned_body :: "env \<Rightarrow> lease_token \<Rightarrow> db \<Rightarrow> unit txn" where
  "timeout_owned_body e lease d =
     (case lock_task (clk e 0) d (lt_task_id lease) of
        Inl x \<Rightarrow> Rollback (Inl x)
      | Inr locked \<Rightarrow>
          (if lk_status locked = StatusTimedOut then Rollback (Inr ())
           else if \<not> owns_active_lease locked lease then Rollback (Inl ErrLeaseLost)
           else if lk_cancel_requested locked then Rollback (Inl ErrCancelled)
           else if \<not> deadline_passed locked then Rollback (Inl ErrConflict)
           else Commit (finish_controlled_task e (lt_task_id lease) (lk_current_step locked)
                  timed_out_outcome d) (Inr ())))"

definition timeout_owned_task :: "env \<Rightarrow> lease_token \<Rightarrow> db \<Rightarrow> db \<times> (err + unit)" where
  "timeout_owned_task e lease d = run_tx e d (timeout_owned_body e lease d)"

definition cancel_owned_body :: "env \<Rightarrow> lease_token \<Rightarrow> db \<Rightarrow> unit txn" where
  "cancel_owned_body e lease d =
     (case lock_task (clk e 0) d (lt_task_id lease) of
        Inl x \<Rightarrow> Rollback (Inl x)
      | Inr locked \<Rightarrow>
          (if lk_status locked = StatusCancelled then Rollback (Inr ())
           else if \<not> owns_active_lease locked lease then Rollback (Inl ErrLeaseLost)
           else if \<not> lk_cancel_requested locked then Rollback (Inl ErrConflict)
           else Commit (finish_controlled_task e (lt_task_id lease) (lk_current_step locked)
                  cancelled_outcome d) (Inr ())))"

definition cancel_owned_task :: "env \<Rightarrow> lease_token \<Rightarrow> db \<Rightarrow> db \<times> (err + unit)" where
  "cancel_owned_task e lease d = run_tx e d (cancel_owned_body e lease d)"

text \<open>\<open>CancellationRequested\<close>: a read, without a transaction.\<close>

definition cancellation_requested :: "env \<Rightarrow> lease_token \<Rightarrow> db \<Rightarrow> err + bool" where
  "cancellation_requested e lease d =
     (if fault e \<noteq> NoFault then Inl ErrDatabase
      else case lock_task (clk e 0) d (lt_task_id lease) of
        Inl x \<Rightarrow> Inl x
      | Inr locked \<Rightarrow>
          (if \<not> owns_active_lease locked lease then Inl ErrLeaseLost
           else Inr (lk_cancel_requested locked)))"

section \<open>CancelTask\<close>

datatype cancel_result = CancelledSynchronously | CancellationRequested

definition cancel_body :: "env \<Rightarrow> string \<Rightarrow> db \<Rightarrow> cancel_result txn" where
  "cancel_body e tid d =
     (case lock_task (clk e 0) d tid of
        Inl x \<Rightarrow> Rollback (Inl x)
      | Inr locked \<Rightarrow>
          (if lk_status locked = StatusCancelled then Rollback (Inr CancelledSynchronously)
           else if is_terminal_status (lk_status locked) then Rollback (Inl ErrConflict)
           else if lk_status locked = StatusRunning then
             Commit (update_task tid (\<lambda>t. t\<lparr>t_cancel_requested := True, t_updated_at := clk e 1\<rparr>) d)
               (Inr CancellationRequested)
           else Commit (finish_controlled_task e tid (lk_current_step locked) cancelled_outcome d)
               (Inr CancelledSynchronously)))"

definition cancel_task :: "env \<Rightarrow> string \<Rightarrow> db \<Rightarrow> db \<times> (err + cancel_result)" where
  "cancel_task e tid d = run_tx e d (cancel_body e tid d)"

section \<open>The scheduler's transitions\<close>

definition wake_scheduled_task :: "env \<Rightarrow> string \<Rightarrow> time \<Rightarrow> db \<Rightarrow> err + db" where
  "wake_scheduled_task e tid run_at d =
     (case find_task tid d of
        None \<Rightarrow> Inl ErrConflict
      | Some t \<Rightarrow>
          (if t_status t \<noteq> StatusScheduled then Inl ErrConflict
           else Inr (insert_event (clk e 3) tid TASK_RUNNABLE
             (JObj [(''run_at'', JNum run_at 0), (''source'', JStr ''scheduled'')])
             (update_task tid (\<lambda>t. t\<lparr>t_status := StatusRunnable, t_updated_at := clk e 2\<rparr>) d))))"

definition wake_retry_task :: "env \<Rightarrow> string \<Rightarrow> db \<Rightarrow> db" where
  "wake_retry_task e tid d =
     insert_event (clk e 3) tid TASK_RETRY_READY (JObj [])
       (update_task tid (\<lambda>t. t\<lparr>t_status := StatusRunnable, t_retry_at := None,
          t_updated_at := clk e 2\<rparr>) d)"

definition at_or_before :: "time option \<Rightarrow> time \<Rightarrow> bool" where
  "at_or_before x now = (case x of None \<Rightarrow> False | Some y \<Rightarrow> y \<le> now)"

definition due :: "time \<Rightarrow> task \<Rightarrow> bool" where
  "due now t \<longleftrightarrow>
     \<not> is_terminal_status (t_status t) \<and>
     (t_cancel_requested t \<or> at_or_before (t_deadline_at t) now
      \<or> (t_status t = StatusRetryWait \<and> at_or_before (t_retry_at t) now)
      \<or> (t_status t = StatusScheduled \<and> t_run_at t \<le> now))"

definition due_priority :: "time \<Rightarrow> task \<Rightarrow> nat" where
  "due_priority now t =
     (if t_cancel_requested t then 0 else if at_or_before (t_deadline_at t) now then 1 else 2)"

definition due_order :: "time \<Rightarrow> task \<Rightarrow> nat \<times> time nullable \<times> string" where
  "due_order now t =
     (due_priority now t,
      (if t_status t = StatusRetryWait then sql_value (t_retry_at t) else Val (t_run_at t)),
      t_id t)"

definition due_candidate :: "env \<Rightarrow> db \<Rightarrow> task option" where
  "due_candidate e d =
     first_by (due_order (clk e 0))
       (filter (\<lambda>t. due (clk e 0) t \<and> \<not> row_locked e (t_id t)) (tasks d))"

text \<open>\<open>clk e 0\<close> is the reading of the selection, \<open>clk e 1\<close> the one after the row is locked.\<close>

definition process_due_body :: "env \<Rightarrow> db \<Rightarrow> bool txn" where
  "process_due_body e d =
     (case due_candidate e d of
        None \<Rightarrow> Rollback (Inr False)
      | Some t \<Rightarrow>
          (if t_cancel_requested t then
             Commit (finish_controlled_task e (t_id t) (t_current_step t) cancelled_outcome d) (Inr True)
           else if at_or_before (t_deadline_at t) (clk e 1) then
             Commit (finish_controlled_task e (t_id t) (t_current_step t) timed_out_outcome d) (Inr True)
           else if t_status t = StatusRetryWait \<and> at_or_before (t_retry_at t) (clk e 1) then
             Commit (wake_retry_task e (t_id t) d) (Inr True)
           else if t_status t = StatusScheduled \<and> t_run_at t \<le> clk e 1 then
             (case wake_scheduled_task e (t_id t) (t_run_at t) d of
                Inl x \<Rightarrow> Rollback (Inl x)
              | Inr d' \<Rightarrow> Commit d' (Inr True))
           else Rollback (Inr False)))"

definition process_due_control :: "env \<Rightarrow> db \<Rightarrow> db \<times> (err + bool)" where
  "process_due_control e d = run_tx e d (process_due_body e d)"

definition retry_due :: "time \<Rightarrow> task \<Rightarrow> bool" where
  "retry_due now t \<longleftrightarrow>
     t_status t = StatusRetryWait \<and> at_or_before (t_retry_at t) now \<and> \<not> t_cancel_requested t \<and>
     \<not> at_or_before (t_deadline_at t) now"

definition wake_due_body :: "env \<Rightarrow> db \<Rightarrow> bool txn" where
  "wake_due_body e d =
     (case first_by (\<lambda>t. (sql_value (t_retry_at t), t_id t))
         (filter (\<lambda>t. retry_due (clk e 0) t \<and> \<not> row_locked e (t_id t)) (tasks d)) of
        None \<Rightarrow> Rollback (Inr False)
      | Some t \<Rightarrow> Commit (wake_retry_task e (t_id t) d) (Inr True))"

definition wake_due_retry :: "env \<Rightarrow> db \<Rightarrow> db \<times> (err + bool)" where
  "wake_due_retry e d = run_tx e d (wake_due_body e d)"

end
