(* ===== verification/Task_Moves.thy ===== *)
theory Task_Moves
  imports Store_Create Store_Claim Store_Approval Store_Control
begin

text \<open>
  The state machine of one task: its row, its steps and its log of events. Every committed
  transaction of the store makes one of these moves on one task (theory Store_Refines); they are
  the transition table of \<open>docs/mvp-technical-design.md\<close>, section 49.2, on the rows the code
  writes. The well-formedness of a task is stated here and every move keeps it.
\<close>

section \<open>The view of a task\<close>

type_synonym view = "task \<times> step list \<times> (event_type \<times> json) list"

definition log_of :: "string \<Rightarrow> db \<Rightarrow> (event_type \<times> json) list" where
  "log_of tid d = map (\<lambda>ev. (e_type ev, e_payload ev)) (events_of tid d)"

definition view_of :: "string \<Rightarrow> db \<Rightarrow> view option" where
  "view_of tid d = map_option (\<lambda>t. (t, steps_of tid d, log_of tid d)) (find_task tid d)"

definition current_of :: "task \<Rightarrow> step list \<Rightarrow> step option" where
  "current_of t ss = find (\<lambda>s. s_index s = t_current_step t) ss"

text \<open>Leaving RUNNING clears the owner and the lease; the version stays.\<close>

definition leave_running :: "task_status \<Rightarrow> time option \<Rightarrow> time \<Rightarrow> task \<Rightarrow> task" where
  "leave_running status retry_at now t =
     t\<lparr>t_status := status, t_retry_at := retry_at, t_worker_id := None,
       t_lease_expires_at := None, t_updated_at := now\<rparr>"

definition lose_step :: "time \<Rightarrow> step \<Rightarrow> step" where
  "lose_step now s = s\<lparr>s_status := StepFailed, s_error := Some ''worker_lost'', s_finished_at := Some now\<rparr>"

definition succeed_step :: "time \<Rightarrow> json \<Rightarrow> step \<Rightarrow> step" where
  "succeed_step now output s =
     s\<lparr>s_status := StepSucceeded, s_output := Some output, s_error := None, s_finished_at := Some now\<rparr>"

definition approve_step :: "time \<Rightarrow> step \<Rightarrow> step" where
  "approve_step now s =
     s\<lparr>s_approval_decision := Some ''approved'', s_status := StepSucceeded, s_error := None,
       s_finished_at := Some now\<rparr>"

definition reject_step :: "time \<Rightarrow> step \<Rightarrow> step" where
  "reject_step now s =
     s\<lparr>s_approval_decision := Some ''rejected'', s_status := StepFailed,
       s_error := Some ''approval_rejected'', s_finished_at := Some now\<rparr>"

section \<open>The moves\<close>

inductive task_move :: "store \<Rightarrow> env \<Rightarrow> view \<Rightarrow> view \<Rightarrow> bool" for st e where
  mv_claim: "t_status t = StatusRunnable \<Longrightarrow> claimable (clk e 0) t \<Longrightarrow>
    task_move st e (t, ss, log) (assign_lease st e w t, ss, log @ [(TASK_CLAIMED, p)])"
| mv_takeover: "t_status t = StatusRunning \<Longrightarrow> claimable (clk e 0) t \<Longrightarrow>
    current_of t ss = Some s \<Longrightarrow> s_status s \<noteq> StepRunning \<Longrightarrow>
    task_move st e (t, ss, log)
      (assign_lease st e w t, ss,
       log @ [(LEASE_EXPIRED, p), (TASK_RECOVERED, q), (TASK_CLAIMED, r)])"
| mv_takeover_lost: "t_status t = StatusRunning \<Longrightarrow> claimable (clk e 0) t \<Longrightarrow>
    current_of t ss = Some s \<Longrightarrow> s_status s = StepRunning \<Longrightarrow> s_attempt s < s_max_attempts s \<Longrightarrow>
    task_move st e (t, ss, log)
      (assign_lease st e w t, set_step (s_id s) (lose_step u) ss,
       log @ [(LEASE_EXPIRED, p), (STEP_FAILED, x), (TASK_RECOVERED, q), (TASK_CLAIMED, r)])"
| mv_exhausted: "t_status t = StatusRunning \<Longrightarrow> claimable (clk e 0) t \<Longrightarrow>
    current_of t ss = Some s \<Longrightarrow> s_status s = StepRunning \<Longrightarrow> \<not> s_attempt s < s_max_attempts s \<Longrightarrow>
    task_move st e (t, ss, log)
      (leave_running StatusFailed (t_retry_at t) u t, set_step (s_id s) (lose_step v) ss,
       log @ [(LEASE_EXPIRED, p), (STEP_FAILED, x), (TASK_FAILED, q)])"
| mv_converge: "t_status t = StatusRunning \<Longrightarrow> claimable (clk e 0) t \<Longrightarrow>
    current_of t ss = None \<Longrightarrow>
    task_move st e (t, ss, log)
      (leave_running StatusSucceeded (t_retry_at t) u t, ss,
       log @ [(LEASE_EXPIRED, p), (TASK_SUCCEEDED, q)])"
| mv_renew: "live_lease (clk e 0) t lease \<Longrightarrow> \<not> t_cancel_requested t \<Longrightarrow> \<not> overdue (clk e 0) t \<Longrightarrow>
    task_move st e (t, ss, log)
      (t\<lparr>t_lease_expires_at := Some (clk e 1 + lease_microseconds st), t_updated_at := u\<rparr>, ss, log)"
| mv_start: "live_lease (clk e 0) t lease \<Longrightarrow> \<not> t_cancel_requested t \<Longrightarrow> \<not> overdue (clk e 0) t \<Longrightarrow>
    s \<in> set ss \<Longrightarrow> s_index s = t_current_step t \<Longrightarrow> s_type s \<noteq> step_type_approval \<Longrightarrow>
    s_status s = StepPending \<or> s_status s = StepFailed \<Longrightarrow> s_attempt s < s_max_attempts s \<Longrightarrow>
    s_resolved_input s = None \<or> s_resolved_input s = Some resolved \<Longrightarrow>
    text_field ''step_id'' p = Some (s_id s) \<Longrightarrow>
    int_field ''attempt'' p = Some (int (Suc (s_attempt s))) \<Longrightarrow>
    task_move st e (t, ss, log)
      (t, set_step (s_id s) (start_step_row u resolved) ss, log @ [(STEP_STARTED, p)])"
| mv_wait: "live_lease (clk e 0) t lease \<Longrightarrow> \<not> t_cancel_requested t \<Longrightarrow> \<not> overdue (clk e 0) t \<Longrightarrow>
    s \<in> set ss \<Longrightarrow> s_index s = t_current_step t \<Longrightarrow> s_type s = step_type_approval \<Longrightarrow>
    s_status s = StepPending \<Longrightarrow> s_attempt s = 0 \<Longrightarrow>
    s_resolved_input s = None \<or> s_resolved_input s = Some resolved \<Longrightarrow>
    task_move st e (t, ss, log)
      (leave_running StatusWaitingApproval None v t, set_step (s_id s) (wait_step_row u resolved) ss,
       log @ [(TASK_WAITING_APPROVAL, p)])"
| mv_approve: "t_status t = StatusWaitingApproval \<Longrightarrow> \<not> t_cancel_requested t \<Longrightarrow>
    \<not> overdue (clk e 0) t \<Longrightarrow> s \<in> set ss \<Longrightarrow> s_index s = t_current_step t \<Longrightarrow>
    s_type s = step_type_approval \<Longrightarrow> s_status s = StepWaitingApproval \<Longrightarrow>
    s_approval_decision s = None \<Longrightarrow>
    status = (if Suc (s_index s) = length ss then StatusSucceeded else StatusRunnable) \<Longrightarrow>
    task_move st e (t, ss, log)
      ((leave_running status None v t)\<lparr>t_current_step := Suc (s_index s)\<rparr>,
       set_step (s_id s) (approve_step u) ss,
       log @ (TASK_APPROVED, p) # (if status = StatusSucceeded then [(TASK_SUCCEEDED, p)] else []))"
| mv_reject: "t_status t = StatusWaitingApproval \<Longrightarrow> \<not> t_cancel_requested t \<Longrightarrow>
    \<not> overdue (clk e 0) t \<Longrightarrow> s \<in> set ss \<Longrightarrow> s_index s = t_current_step t \<Longrightarrow>
    s_type s = step_type_approval \<Longrightarrow> s_status s = StepWaitingApproval \<Longrightarrow>
    s_approval_decision s = None \<Longrightarrow>
    task_move st e (t, ss, log)
      (leave_running StatusFailed None v t, set_step (s_id s) (reject_step u) ss,
       log @ [(TASK_REJECTED, p), (TASK_FAILED, p)])"
| mv_retry: "live_lease (clk e 0) t lease \<Longrightarrow> \<not> t_cancel_requested t \<Longrightarrow> \<not> overdue (clk e 0) t \<Longrightarrow>
    s \<in> set ss \<Longrightarrow> s_index s = t_current_step t \<Longrightarrow> s_status s = StepRunning \<Longrightarrow>
    s_attempt s < s_max_attempts s \<Longrightarrow> retry_delay (s_attempt s) = Some delay \<Longrightarrow>
    task_move st e (t, ss, log)
      (leave_running StatusRetryWait (Some (clk e 2 + delay * 1000000)) v t,
       set_step (s_id s) (fail_step_row u reason) ss,
       log @ [(STEP_FAILED, p), (TASK_RETRY_WAIT, q)])"
| mv_fail: "live_lease (clk e 0) t lease \<Longrightarrow> \<not> t_cancel_requested t \<Longrightarrow> \<not> overdue (clk e 0) t \<Longrightarrow>
    s \<in> set ss \<Longrightarrow> s_index s = t_current_step t \<Longrightarrow> s_status s = StepRunning \<Longrightarrow>
    task_move st e (t, ss, log)
      (leave_running StatusFailed None v t, set_step (s_id s) (fail_step_row u reason) ss,
       log @ [(STEP_FAILED, p), (TASK_FAILED, p)])"
| mv_succeed: "live_lease (clk e 0) t lease \<Longrightarrow> \<not> t_cancel_requested t \<Longrightarrow> \<not> overdue (clk e 0) t \<Longrightarrow>
    s \<in> set ss \<Longrightarrow> s_index s = t_current_step t \<Longrightarrow> s_status s = StepRunning \<Longrightarrow>
    Suc (s_index s) \<noteq> length ss \<Longrightarrow>
    task_move st e (t, ss, log)
      (t\<lparr>t_current_step := Suc (s_index s), t_checkpoint := c, t_updated_at := v\<rparr>,
       set_step (s_id s) (succeed_step u outv) ss, log @ [(STEP_SUCCEEDED, p)])"
| mv_complete: "live_lease (clk e 0) t lease \<Longrightarrow> \<not> t_cancel_requested t \<Longrightarrow> \<not> overdue (clk e 0) t \<Longrightarrow>
    s \<in> set ss \<Longrightarrow> s_index s = t_current_step t \<Longrightarrow> s_status s = StepRunning \<Longrightarrow>
    Suc (s_index s) = length ss \<Longrightarrow>
    task_move st e (t, ss, log)
      ((leave_running StatusSucceeded (t_retry_at t) v t)
         \<lparr>t_current_step := Suc (s_index s), t_checkpoint := c\<rparr>,
       set_step (s_id s) (succeed_step u outv) ss,
       log @ [(STEP_SUCCEEDED, p), (TASK_SUCCEEDED, p)])"
| mv_control: "\<not> is_terminal_status (t_status t) \<Longrightarrow>
    (outcome = cancelled_outcome \<and> (t_cancel_requested t \<or> t_status t \<noteq> StatusRunning)) \<or>
    (outcome = timed_out_outcome \<and> \<not> t_cancel_requested t \<and> overdue (clk e k) t) \<Longrightarrow>
    current_of t ss = Some s \<Longrightarrow> s_status s \<noteq> StepSucceeded \<Longrightarrow>
    task_move st e (t, ss, log)
      (leave_running (co_status outcome) None v t,
       set_step (s_id s) (fail_step_row u (co_reason outcome)) ss,
       log @ [(STEP_FAILED, p), (co_event_type outcome, q)])"
| mv_control_bare: "\<not> is_terminal_status (t_status t) \<Longrightarrow>
    (outcome = cancelled_outcome \<and> (t_cancel_requested t \<or> t_status t \<noteq> StatusRunning)) \<or>
    (outcome = timed_out_outcome \<and> \<not> t_cancel_requested t \<and> overdue (clk e k) t) \<Longrightarrow>
    (\<forall>s. current_of t ss = Some s \<longrightarrow> s_status s = StepSucceeded) \<Longrightarrow>
    task_move st e (t, ss, log)
      (leave_running (co_status outcome) None v t, ss, log @ [(co_event_type outcome, q)])"
| mv_request_cancel: "t_status t = StatusRunning \<Longrightarrow>
    task_move st e (t, ss, log) (t\<lparr>t_cancel_requested := True, t_updated_at := u\<rparr>, ss, log)"
| mv_wake_scheduled: "t_status t = StatusScheduled \<Longrightarrow> \<not> t_cancel_requested t \<Longrightarrow>
    t_run_at t \<le> clk e k \<Longrightarrow> \<not> overdue (clk e k) t \<Longrightarrow>
    task_move st e (t, ss, log)
      (t\<lparr>t_status := StatusRunnable, t_updated_at := u\<rparr>, ss, log @ [(TASK_RUNNABLE, p)])"
| mv_wake_retry: "t_status t = StatusRetryWait \<Longrightarrow> \<not> t_cancel_requested t \<Longrightarrow>
    at_or_before (t_retry_at t) (clk e k) \<Longrightarrow> \<not> overdue (clk e k) t \<Longrightarrow>
    task_move st e (t, ss, log)
      (t\<lparr>t_status := StatusRunnable, t_retry_at := None, t_updated_at := u\<rparr>, ss,
       log @ [(TASK_RETRY_READY, p)])"

end
