(* ===== verification/Task_Invariant.thy ===== *)
theory Task_Invariant
  imports Task_Moves
begin

text \<open>
  The well-formedness of a task: how its steps, its row and its log agree. Every move of the
  state machine keeps it (\<open>move_task_inv\<close>).
\<close>

section \<open>Well-formed tasks\<close>

fun current_ok :: "task_status \<Rightarrow> step \<Rightarrow> bool" where
  "current_ok StatusScheduled s = (s_status s = StepPending)"
| "current_ok StatusRunnable s =
     (s_status s = StepPending \<or>
      s_status s = StepFailed \<and> s_attempt s < s_max_attempts s \<and> s_type s \<noteq> step_type_approval)"
| "current_ok StatusRunning s =
     (s_status s = StepPending \<or> s_status s = StepRunning \<or>
      s_status s = StepFailed \<and> s_attempt s < s_max_attempts s \<and> s_type s \<noteq> step_type_approval)"
| "current_ok StatusRetryWait s =
     (s_status s = StepFailed \<and> s_attempt s < s_max_attempts s \<and> s_type s \<noteq> step_type_approval)"
| "current_ok StatusWaitingApproval s = (s_status s = StepWaitingApproval)"
| "current_ok StatusSucceeded s = False"
| "current_ok _ s = (s_status s = StepFailed)"

text \<open>What holds of a step whatever the task does: budget, kind of step, stored facts.\<close>

definition step_ok :: "step \<Rightarrow> bool" where
  "step_ok s \<longleftrightarrow>
     s_attempt s \<le> s_max_attempts s \<and> 0 < s_max_attempts s \<and>
     (s_type s = step_type_approval \<longrightarrow> s_attempt s = 0 \<and> s_status s \<noteq> StepRunning) \<and>
     (s_status s = StepWaitingApproval \<longrightarrow> s_type s = step_type_approval) \<and>
     (s_status s = StepPending \<longrightarrow> s_attempt s = 0 \<and> s_resolved_input s = None) \<and>
     (s_status s = StepRunning \<longrightarrow> 0 < s_attempt s) \<and>
     (0 < s_attempt s \<or> s_status s = StepWaitingApproval \<or> s_status s = StepSucceeded \<longrightarrow>
        s_resolved_input s \<noteq> None) \<and>
     (s_output s = None \<longleftrightarrow> \<not> (s_status s = StepSucceeded \<and> s_type s \<noteq> step_type_approval))"

text \<open>A recorded decision: an approval ended the step well, a rejection ended the task with it.\<close>

definition decision_ok :: "task \<Rightarrow> step \<Rightarrow> bool" where
  "decision_ok t s \<longleftrightarrow>
     (case s_approval_decision s of
        None \<Rightarrow> \<not> (s_status s = StepSucceeded \<and> s_type s = step_type_approval)
      | Some d \<Rightarrow>
          (d = ''approved'' \<and> s_status s = StepSucceeded \<and> s_type s = step_type_approval) \<or>
          (d = ''rejected'' \<and> s_status s = StepFailed \<and> s_type s = step_type_approval \<and>
           t_status t = StatusFailed \<and> s_index s = t_current_step t))"

text \<open>Where the step stands relative to the current one.\<close>

definition position_ok :: "task \<Rightarrow> step \<Rightarrow> bool" where
  "position_ok t s \<longleftrightarrow>
     (if s_index s < t_current_step t then s_status s = StepSucceeded
      else if s_index s = t_current_step t then current_ok (t_status t) s
      else s_status s = StepPending)"

definition step_inv :: "task \<Rightarrow> step \<Rightarrow> bool" where
  "step_inv t s \<longleftrightarrow> step_ok s \<and> decision_ok t s \<and> position_ok t s"

definition steps_inv :: "task \<Rightarrow> step list \<Rightarrow> bool" where
  "steps_inv t ss \<longleftrightarrow>
     ss \<noteq> [] \<and> map s_index ss = [0..<length ss] \<and> distinct (map s_id ss) \<and>
     t_current_step t \<le> length ss \<and>
     (t_current_step t = length ss \<longleftrightarrow> t_status t = StatusSucceeded) \<and>
     (\<forall>s \<in> set ss. step_inv t s)"

lemma ball_set_step: "distinct (map s_id ss) \<Longrightarrow> s \<in> set ss \<Longrightarrow>
    (\<forall>x \<in> set (set_step (s_id s) g ss). P x) \<longleftrightarrow>
      P (g s) \<and> (\<forall>x \<in> set ss. s_id x \<noteq> s_id s \<longrightarrow> P x)"
  unfolding set_step_def
  by (auto simp: distinct_map dest: inj_onD)

lemma index_inj:
  assumes ix: "map s_index ss = [0..<length ss]"
    and "s \<in> set ss" "x \<in> set ss" "s_index x = s_index s"
  shows "x = s"
proof -
  have "distinct (map s_index ss)" unfolding ix by simp
  with assms(2-) show ?thesis by (auto simp: distinct_map dest: inj_onD)
qed

lemma index_bound: "map s_index ss = [0..<length ss] \<Longrightarrow> s \<in> set ss \<Longrightarrow> s_index s < length ss"
proof -
  assume ix: "map s_index ss = [0..<length ss]" and s: "s \<in> set ss"
  from s have "s_index s \<in> set (map s_index ss)" by simp
  then show ?thesis unfolding ix by simp
qed

lemma index_exists: "map s_index ss = [0..<length ss] \<Longrightarrow> i < length ss \<Longrightarrow>
    \<exists>s \<in> set ss. s_index s = i"
proof -
  assume ix: "map s_index ss = [0..<length ss]" and "i < length ss"
  then have "i \<in> set (map s_index ss)" unfolding ix by simp
  then show ?thesis by auto
qed

lemmas step_inv_defs = step_inv_def step_ok_def decision_ok_def position_ok_def

lemma steps_invD:
  assumes "steps_inv t ss" "s \<in> set ss" "s_index s = t_current_step t"
  shows "step_inv t s \<and> t_current_step t < length ss \<and> t_status t \<noteq> StatusSucceeded"
  using assms index_bound [of ss s] by (auto simp: steps_inv_def)

lemma step_inv_other:
  "step_inv t x \<Longrightarrow> s_index x \<noteq> t_current_step t \<Longrightarrow> t_current_step t' = t_current_step t \<Longrightarrow>
    step_inv t' x"
  by (auto simp: step_inv_def decision_ok_def position_ok_def split: option.splits)

lemma step_inv_next:
  assumes "step_inv t x" "s_index x \<noteq> t_current_step t" "t_current_step t' = Suc (t_current_step t)"
    and "s_index x = Suc (t_current_step t) \<Longrightarrow> t_status t' = StatusRunnable \<or> t_status t' = StatusRunning"
  shows "step_inv t' x"
proof -
  have "decision_ok t' x" using assms by (auto simp: step_inv_def decision_ok_def split: option.splits)
  moreover have "position_ok t' x"
    using assms by (cases "s_index x = Suc (t_current_step t)") (auto simp: step_inv_def position_ok_def)
  ultimately show ?thesis using assms(1) by (simp add: step_inv_def)
qed

lemma steps_inv_step:
  assumes inv: "steps_inv t ss" and s: "s \<in> set ss" "s_index s = t_current_step t"
    and g: "\<And>x. s_id (g x) = s_id x" "\<And>x. s_index (g x) = s_index x"
    and cur: "step_inv t' (g s)"
    and rest: "\<And>x. x \<in> set ss \<Longrightarrow> s_index x \<noteq> t_current_step t \<Longrightarrow> step_inv t x \<Longrightarrow> step_inv t' x"
    and pos: "t_current_step t' \<le> length ss"
      "t_current_step t' = length ss \<longleftrightarrow> t_status t' = StatusSucceeded"
  shows "steps_inv t' (set_step (s_id s) g ss)"
proof -
  note inv' = inv [unfolded steps_inv_def]
  have other: "x \<in> set ss \<Longrightarrow> s_id x \<noteq> s_id s \<Longrightarrow> step_inv t' x" for x
    using inv' s rest [of x] index_inj [of ss s x] by auto
  have "\<forall>x \<in> set (set_step (s_id s) g ss). step_inv t' x"
    using inv' s(1) cur other by (subst ball_set_step) auto
  moreover have "map s_index (set_step (s_id s) g ss) = map s_index ss"
    and "map s_id (set_step (s_id s) g ss) = map s_id ss"
    by (simp_all add: map_set_step g)
  moreover have "set_step (s_id s) g ss \<noteq> []"
    using inv' by (simp add: set_step_def)
  ultimately show ?thesis
    using inv' pos unfolding steps_inv_def by simp
qed

text \<open>A move that stays at the current step, one that goes to the next, one that changes no step.\<close>

lemma steps_inv_stay:
  assumes "steps_inv t ss" "s \<in> set ss" "s_index s = t_current_step t"
    and "\<And>x. s_id (g x) = s_id x" "\<And>x. s_index (g x) = s_index x"
    and "t_current_step t' = t_current_step t" "t_status t' \<noteq> StatusSucceeded"
    and "step_inv t s \<Longrightarrow> step_inv t' (g s)"
  shows "steps_inv t' (set_step (s_id s) g ss)"
  using steps_invD [OF assms(1-3)] assms
  by (intro steps_inv_step [OF assms(1-5)]) (auto intro: step_inv_other [of t])

lemma steps_inv_advance:
  assumes "steps_inv t ss" "s \<in> set ss" "s_index s = t_current_step t"
    and "\<And>x. s_id (g x) = s_id x" "\<And>x. s_index (g x) = s_index x"
    and "t_current_step t' = Suc (t_current_step t)"
    and "if Suc (t_current_step t) = length ss then t_status t' = StatusSucceeded
      else t_status t' = StatusRunnable \<or> t_status t' = StatusRunning"
    and "step_inv t s \<Longrightarrow> step_inv t' (g s)"
  shows "steps_inv t' (set_step (s_id s) g ss)"
proof (rule steps_inv_step [OF assms(1-5)])
  note s = steps_invD [OF assms(1-3)]
  show "step_inv t' (g s)" using s assms(8) by simp
  show "t_current_step t' \<le> length ss" using s assms(6) by simp
  show "t_current_step t' = length ss \<longleftrightarrow> t_status t' = StatusSucceeded"
    using assms(6,7) by (auto split: if_splits)
  fix x assume x: "x \<in> set ss" "s_index x \<noteq> t_current_step t" "step_inv t x"
  have "s_index x < length ss"
    using assms(1) x(1) index_bound by (auto simp: steps_inv_def)
  with assms(7) have "s_index x = Suc (t_current_step t) \<Longrightarrow>
      t_status t' = StatusRunnable \<or> t_status t' = StatusRunning"
    by (simp split: if_splits)
  with x assms(6) show "step_inv t' x"
    by (intro step_inv_next [of t x t'])
qed

lemma steps_inv_task:
  assumes inv: "steps_inv t ss"
    and cur: "t_current_step t' = t_current_step t"
    and status: "t_status t' = StatusSucceeded \<longleftrightarrow> t_status t = StatusSucceeded"
    and here: "\<And>x. x \<in> set ss \<Longrightarrow> s_index x = t_current_step t \<Longrightarrow> step_inv t x \<Longrightarrow> step_inv t' x"
  shows "steps_inv t' ss"
proof -
  have "step_inv t' x" if "x \<in> set ss" for x
    using that inv here [of x] step_inv_other [OF _ _ cur, of x]
    by (cases "s_index x = t_current_step t") (auto simp: steps_inv_def)
  with inv cur status show ?thesis unfolding steps_inv_def by auto
qed

lemma current_of_Some: "current_of t ss = Some s \<Longrightarrow> s \<in> set ss \<and> s_index s = t_current_step t"
  by (auto simp: current_of_def find_Some_iff)

lemma current_of_None: "current_of t ss = None \<Longrightarrow> steps_inv t ss \<Longrightarrow> t_status t = StatusSucceeded"
  using index_exists [of ss "t_current_step t"]
  by (fastforce simp: current_of_def find_None_iff steps_inv_def)

lemma live_lease_running: "live_lease now t lease \<Longrightarrow> t_status t = StatusRunning"
  by (simp add: live_lease_def)

lemmas move_rows = assign_lease_def leave_running_def lose_step_def start_step_row_def wait_step_row_def
  approve_step_def reject_step_def fail_step_row_def succeed_step_def cancelled_outcome_def
  timed_out_outcome_def

lemma current_ok_not_succeeded: "current_ok st s \<Longrightarrow> s_status s \<noteq> StepSucceeded"
  by (cases st) auto

lemma move_steps_inv: "task_move st e v v' \<Longrightarrow> steps_inv (fst v) (fst (snd v)) \<Longrightarrow>
    steps_inv (fst v') (fst (snd v'))"
proof (induction rule: task_move.induct)
  case (mv_claim t ss log w p)
  show ?case
    unfolding fst_conv snd_conv
  proof (rule steps_inv_task [of t ss], goal_cases)
  qed (use mv_claim in \<open>auto simp: move_rows step_inv_defs split: option.splits\<close>)
next
  case (mv_takeover t ss s log w p q r)
  show ?case
    unfolding fst_conv snd_conv
  proof (rule steps_inv_task [of t ss], goal_cases)
  qed (use mv_takeover in \<open>auto simp: move_rows step_inv_defs split: option.splits\<close>)
next
  case (mv_takeover_lost t ss s log w u p x q r)
  note here = current_of_Some [OF mv_takeover_lost(3)]
  show ?case
    unfolding fst_conv snd_conv
  proof (rule steps_inv_stay [of t ss s], goal_cases)
  qed (use mv_takeover_lost here in \<open>auto simp: move_rows step_inv_defs split: option.splits\<close>)
next
  case (mv_exhausted t ss s log u v p x q)
  note here = current_of_Some [OF mv_exhausted(3)]
  show ?case
    unfolding fst_conv snd_conv
  proof (rule steps_inv_stay [of t ss s], goal_cases)
  qed (use mv_exhausted here in \<open>auto simp: move_rows step_inv_defs split: option.splits\<close>)
next
  case (mv_converge t ss log u p q)
  then show ?case using current_of_None [of t ss] by auto
next
  case (mv_renew t lease ss log u)
  show ?case
    unfolding fst_conv snd_conv
  proof (rule steps_inv_task [of t ss], goal_cases)
  qed (use mv_renew in \<open>auto simp: move_rows step_inv_defs split: option.splits\<close>)
next
  case (mv_start t lease s ss resolved p log u)
  note here = live_lease_running [OF mv_start(1)]
  show ?case
    unfolding fst_conv snd_conv
  proof (rule steps_inv_stay [of t ss s], goal_cases)
  qed (use mv_start here in \<open>auto simp: move_rows step_inv_defs split: option.splits\<close>)
next
  case (mv_wait t lease s ss resolved log v u p)
  note here = live_lease_running [OF mv_wait(1)]
  show ?case
    unfolding fst_conv snd_conv
  proof (rule steps_inv_stay [of t ss s], goal_cases)
  qed (use mv_wait here in \<open>auto simp: move_rows step_inv_defs split: option.splits\<close>)
next
  case (mv_approve t s ss status log v u p)
  show ?case
    unfolding fst_conv snd_conv
  proof (rule steps_inv_advance [of t ss s], goal_cases)
  qed (use mv_approve in \<open>auto simp: move_rows step_inv_defs split: option.splits\<close>)
next
  case (mv_reject t s ss log v u p)
  show ?case
    unfolding fst_conv snd_conv
  proof (rule steps_inv_stay [of t ss s], goal_cases)
  qed (use mv_reject in \<open>auto simp: move_rows step_inv_defs split: option.splits\<close>)
next
  case (mv_retry t lease s ss delay log v u reason p q)
  show ?case
    unfolding fst_conv snd_conv
  proof (rule steps_inv_stay [of t ss s], goal_cases)
  qed (use mv_retry in \<open>auto simp: move_rows step_inv_defs split: option.splits\<close>)
next
  case (mv_fail t lease s ss log v u reason p)
  show ?case
    unfolding fst_conv snd_conv
  proof (rule steps_inv_stay [of t ss s], goal_cases)
  qed (use mv_fail in \<open>auto simp: move_rows step_inv_defs split: option.splits\<close>)
next
  case (mv_succeed t lease s ss log c v u outv p)
  note here = live_lease_running [OF mv_succeed(1)]
  show ?case
    unfolding fst_conv snd_conv
  proof (rule steps_inv_advance [of t ss s], goal_cases)
  qed (use mv_succeed here in \<open>auto simp: move_rows step_inv_defs split: option.splits\<close>)
next
  case (mv_complete t lease s ss log v c u outv p)
  show ?case
    unfolding fst_conv snd_conv
  proof (rule steps_inv_advance [of t ss s], goal_cases)
  qed (use mv_complete in \<open>auto simp: move_rows step_inv_defs split: option.splits\<close>)
next
  case (mv_control t outcome k ss s log v u p q)
  note here = current_of_Some [OF mv_control(3)]
  show ?case
    unfolding fst_conv snd_conv
  proof (rule steps_inv_stay [of t ss s], goal_cases)
  qed (use mv_control here in \<open>auto simp: move_rows step_inv_defs split: option.splits\<close>)
next
  case (mv_control_bare t outcome k ss log v q)
  have "t_status t \<noteq> StatusSucceeded" using mv_control_bare(1) by auto
  then obtain s where s: "current_of t ss = Some s"
    using current_of_None [of t ss] mv_control_bare(4) by (cases "current_of t ss") auto
  then have "step_inv t s"
    using steps_invD [of t ss s] current_of_Some [OF s] mv_control_bare(4) by simp
  with s mv_control_bare(3) current_of_Some [OF s] show ?case
    by (auto simp: step_inv_def position_ok_def dest: current_ok_not_succeeded)
next
  case (mv_request_cancel t ss log u)
  show ?case
    unfolding fst_conv snd_conv
  proof (rule steps_inv_task [of t ss], goal_cases)
  qed (use mv_request_cancel in \<open>auto simp: move_rows step_inv_defs split: option.splits\<close>)
next
  case (mv_wake_scheduled t k ss log u p)
  show ?case
    unfolding fst_conv snd_conv
  proof (rule steps_inv_task [of t ss], goal_cases)
  qed (use mv_wake_scheduled in \<open>auto simp: move_rows step_inv_defs split: option.splits\<close>)
next
  case (mv_wake_retry t k ss log u p)
  show ?case
    unfolding fst_conv snd_conv
  proof (rule steps_inv_task [of t ss], goal_cases)
  qed (use mv_wake_retry in \<open>auto simp: move_rows step_inv_defs split: option.splits\<close>)
qed


section \<open>The row and the log\<close>

definition row_inv :: "task \<Rightarrow> bool" where
  "row_inv t \<longleftrightarrow>
     (if t_status t = StatusRunning then t_worker_id t \<noteq> None \<and> t_lease_expires_at t \<noteq> None
      else t_worker_id t = None \<and> t_lease_expires_at t = None) \<and>
     (t_retry_at t = None \<longleftrightarrow> t_status t \<noteq> StatusRetryWait) \<and>
     (t_cancel_requested t \<longrightarrow> t_status t = StatusRunning \<or> t_status t = StatusCancelled) \<and>
     (case t_first_started_at t of
        None \<Rightarrow> t_deadline_at t = None \<and> t_lease_version t = 0
      | Some f \<Rightarrow> t_deadline_at t = Some (f + int (t_timeout_seconds t) * 1000000) \<and>
          0 < t_lease_version t)"

fun terminal_events :: "task_status \<Rightarrow> event_type list" where
  "terminal_events StatusSucceeded = [TASK_SUCCEEDED]"
| "terminal_events StatusFailed = [TASK_FAILED]"
| "terminal_events StatusCancelled = [TASK_CANCELLED]"
| "terminal_events StatusTimedOut = [TASK_TIMED_OUT]"
| "terminal_events _ = []"

definition terminal_log :: "(event_type \<times> json) list \<Rightarrow> event_type list" where
  "terminal_log log =
     filter (\<lambda>ty. ty \<in> {TASK_SUCCEEDED, TASK_FAILED, TASK_CANCELLED, TASK_TIMED_OUT}) (map fst log)"

definition claims_logged :: "(event_type \<times> json) list \<Rightarrow> nat" where
  "claims_logged log = length (filter (\<lambda>x. fst x = TASK_CLAIMED) log)"

definition starts_logged :: "string \<Rightarrow> (event_type \<times> json) list \<Rightarrow> nat" where
  "starts_logged sid log =
     length (filter (\<lambda>x. fst x = STEP_STARTED \<and> text_field ''step_id'' (snd x) = Some sid) log)"

definition log_inv :: "task \<Rightarrow> step list \<Rightarrow> (event_type \<times> json) list \<Rightarrow> bool" where
  "log_inv t ss log \<longleftrightarrow>
     terminal_log log = terminal_events (t_status t) \<and>
     claims_logged log = t_lease_version t \<and>
     (\<forall>s \<in> set ss. starts_logged (s_id s) log = s_attempt s)"

definition task_inv :: "view \<Rightarrow> bool" where
  "task_inv v \<longleftrightarrow> (case v of (t, ss, log) \<Rightarrow> steps_inv t ss \<and> row_inv t \<and> log_inv t ss log)"

lemma log_append [simp]:
  "terminal_log (xs @ ys) = terminal_log xs @ terminal_log ys"
  "claims_logged (xs @ ys) = claims_logged xs + claims_logged ys"
  "starts_logged sid (xs @ ys) = starts_logged sid xs + starts_logged sid ys"
  by (simp_all add: terminal_log_def claims_logged_def starts_logged_def)

lemma log_Nil [simp]:
  "terminal_log [] = []" "claims_logged [] = 0" "starts_logged sid [] = 0"
  by (simp_all add: terminal_log_def claims_logged_def starts_logged_def)

lemma log_Cons [simp]:
  "terminal_log ((ty, p) # log) =
     (if ty \<in> {TASK_SUCCEEDED, TASK_FAILED, TASK_CANCELLED, TASK_TIMED_OUT}
      then ty # terminal_log log else terminal_log log)"
  "claims_logged ((ty, p) # log) = (if ty = TASK_CLAIMED then 1 else 0) + claims_logged log"
  "starts_logged sid ((ty, p) # log) =
     (if ty = STEP_STARTED \<and> text_field ''step_id'' p = Some sid then 1 else 0) + starts_logged sid log"
  by (simp_all add: terminal_log_def claims_logged_def starts_logged_def)

lemma move_row_inv: "task_move st e v v' \<Longrightarrow> row_inv (fst v) \<Longrightarrow> row_inv (fst v')"
proof (induction rule: task_move.induct)
  case (mv_start t lease s ss resolved p log u)
  then show ?case by simp
qed (auto simp: row_inv_def move_rows live_lease_def claimable_def split: option.splits if_splits)

lemma move_log_inv: "task_move st e v v' \<Longrightarrow> task_inv v \<Longrightarrow>
    (case v' of (t', ss', log') \<Rightarrow> log_inv t' ss' log')"
proof (induction rule: task_move.induct)
  case (mv_start t lease s ss resolved p log u)
  then have "distinct (map s_id ss)" by (simp add: task_inv_def steps_inv_def)
  with mv_start show ?case
    by (simp add: log_inv_def task_inv_def ball_set_step start_step_row_def)
next
  case (mv_control t outcome k ss s log v u p q)
  then show ?case
    by (cases "t_status t") (auto simp: log_inv_def task_inv_def move_rows set_step_def)
next
  case (mv_control_bare t outcome k ss log v q)
  then show ?case
    by (cases "t_status t") (auto simp: log_inv_def task_inv_def move_rows)
next
  case (mv_approve t s ss status log v u p)
  then show ?case
    by (cases "Suc (s_index s) = length ss") (auto simp: log_inv_def task_inv_def move_rows set_step_def)
qed (auto simp: log_inv_def task_inv_def move_rows set_step_def dest!: live_lease_running)

lemma move_task_inv: "task_move st e v v' \<Longrightarrow> task_inv v \<Longrightarrow> task_inv v'"
  using move_steps_inv [of st e v v'] move_row_inv [of st e v v'] move_log_inv [of st e v v']
  by (auto simp: task_inv_def)

end
