(* ===== verification/Store_Refines.thy ===== *)
theory Store_Refines
  imports Task_Invariant
begin

text \<open>
  Every transaction of the store that commits makes one move of the state machine on one task
  and leaves every other task, every step definition and every event already written as they
  were. This is the refinement between the operations of the code and the transition table.
\<close>

section \<open>Frames\<close>

definition frame :: "string \<Rightarrow> db \<Rightarrow> db \<Rightarrow> bool" where
  "frame i d d' \<longleftrightarrow>
     map t_id (tasks d') = map t_id (tasks d) \<and>
     map step_definition_columns (steps d') = map step_definition_columns (steps d) \<and>
     (\<forall>j. j \<noteq> i \<longrightarrow> view_of j d' = view_of j d) \<and>
     (\<exists>evs. events d' = events d @ evs \<and> (\<forall>ev \<in> set evs. e_task_id ev = i))"

lemma log_of_simps [view_simps]:
  "log_of j (update_task i f d) = log_of j d"
  "log_of j (update_step i sid g d) = log_of j d"
  "log_of j (insert_event now i ty p d) = (if j = i then log_of j d @ [(ty, p)] else log_of j d)"
  by (simp_all add: log_of_def view_simps)

lemma frame_refl [simp, intro]: "frame i d d"
  by (simp add: frame_def)

lemma frame_update_task [intro!]: "(\<And>t. t_id (f t) = t_id t) \<Longrightarrow> frame i d d' \<Longrightarrow>
    frame i d (update_task i f d')"
  by (auto simp: frame_def view_of_def view_simps) (auto simp: update_task_def update_at_keys)

lemma frame_update_step [intro!]:
  assumes "\<And>s. step_definition_columns (g s) = step_definition_columns s" and "frame i d d'"
  shows "frame i d (update_step i sid g d')"
proof -
  have "\<And>s. s_task_id (g s) = s_task_id s"
    using assms(1) by (auto simp: step_definition_columns_def)
  then have "\<And>j. j \<noteq> i \<Longrightarrow> view_of j (update_step i sid g d') = view_of j d'"
    by (simp add: view_of_def view_simps)
  moreover have "map step_definition_columns (steps (update_step i sid g d')) =
      map step_definition_columns (steps d')"
    by (simp add: update_step_def assms(1))
  ultimately show ?thesis
    using assms(2) by (auto simp: frame_def) (auto simp: update_step_def)
qed

lemma frame_insert_event [intro!]: "frame i d d' \<Longrightarrow> frame i d (insert_event now i ty p d')"
  by (auto simp: frame_def view_of_def view_simps) (auto simp: insert_event_def)

lemma frame_other: "frame i d d' \<Longrightarrow> j \<noteq> i \<Longrightarrow> view_of j d' = view_of j d"
  by (simp add: frame_def)

section \<open>Moves of the database\<close>

definition moves :: "store \<Rightarrow> env \<Rightarrow> string \<Rightarrow> db \<Rightarrow> db \<Rightarrow> bool" where
  "moves st e i d d' \<longleftrightarrow> frame i d d' \<and>
     (\<exists>v v'. view_of i d = Some v \<and> view_of i d' = Some v' \<and> task_move st e v v')"

lemma movesI: "find_task i d = Some t \<Longrightarrow> frame i d d' \<Longrightarrow> find_task i d' = Some t' \<Longrightarrow>
    steps_of i d' = ss' \<Longrightarrow> log_of i d' = log' \<Longrightarrow>
    task_move st e (t, steps_of i d, log_of i d) (t', ss', log') \<Longrightarrow> moves st e i d d'"
  by (auto simp: moves_def view_of_def)

lemmas frame_rows = step_definition_columns_def start_step_row_def wait_step_row_def fail_step_row_def

lemma renew_moves:
  assumes "renew_body st e lease d = Commit d' r"
  shows "moves st e (lt_task_id lease) d d'"
proof -
  from assms obtain t lk where t: "find_task (lt_task_id lease) d = Some t"
      and own: "live_lease (clk e 0) t lease" "\<not> t_cancel_requested t" "\<not> overdue (clk e 0) t"
      and d': "d' = update_task (lt_task_id lease)
        (\<lambda>t. t\<lparr>t_lease_expires_at := Some (clk e 1 + lease_microseconds st), t_updated_at := clk e 2\<rparr>) d"
    by (auto simp: renew_body_def lock_owned_Inr split: sum.splits)
  show ?thesis
    by (rule movesI [OF t _ _ _ _ mv_renew [where u = "clk e 2", OF own]])
      (auto simp: d' t view_simps)
qed

lemma start_moves:
  assumes "start_body e lease sid d = Commit d' r"
  shows "moves st e (lt_task_id lease) d d'"
proof -
  from assms obtain t s resolved where t: "find_task (lt_task_id lease) d = Some t"
      and own: "live_lease (clk e 0) t lease" "\<not> t_cancel_requested t" "\<not> overdue (clk e 0) t"
      and s: "s \<in> set (steps_of (lt_task_id lease) d)" "s_index s = t_current_step t"
        "s_type s \<noteq> step_type_approval" "s_status s = StepPending \<or> s_status s = StepFailed"
        "s_attempt s < s_max_attempts s" "s_resolved_input s = None \<or> s_resolved_input s = Some resolved"
      and sid: "s_id s = sid"
      and d': "d' = insert_event (clk e 2) (lt_task_id lease) STEP_STARTED
         (JObj [(''step_id'', JStr sid), (''step_index'', jnat (s_index s)),
           (''attempt'', jnat (Suc (s_attempt s))), (''worker_id'', JStr (lt_worker_id lease)),
           (''lease_version'', jnat (lt_lease_version lease))])
         (update_step (lt_task_id lease) sid (start_step_row (clk e 1) resolved) d)"
    by (auto simp: start_body_def lock_owned_Inr lock_task_Inr Let_def resolved_input_of_def
        dest!: find_step_mem split: sum.splits option.splits if_splits)
  show ?thesis
    by (rule movesI [OF t _ _ _ _ mv_start [where u = "clk e 1", OF own s]])
      (auto simp: d' t view_simps sid frame_rows text_field_def int_field_def)
qed


lemma wait_moves:
  assumes "wait_body e lease sid d = Commit d' r"
  shows "moves st e (lt_task_id lease) d d'"
proof -
  from assms obtain t s resolved where t: "find_task (lt_task_id lease) d = Some t"
      and own: "live_lease (clk e 0) t lease" "\<not> t_cancel_requested t" "\<not> overdue (clk e 0) t"
      and s: "s \<in> set (steps_of (lt_task_id lease) d)" "s_index s = t_current_step t"
        "s_type s = step_type_approval" "s_status s = StepPending" "s_attempt s = 0"
        "s_resolved_input s = None \<or> s_resolved_input s = Some resolved"
      and sid: "s_id s = sid"
      and d': "d' = insert_event (clk e 3) (lt_task_id lease) TASK_WAITING_APPROVAL
         (JObj [(''step_id'', JStr sid), (''step_index'', jnat (s_index s))])
         (update_task (lt_task_id lease) (\<lambda>t. t\<lparr>t_status := StatusWaitingApproval,
            t_worker_id := None, t_lease_expires_at := None, t_retry_at := None,
            t_updated_at := clk e 2\<rparr>)
          (update_step (lt_task_id lease) sid (wait_step_row (clk e 1) resolved) d))"
    by (auto simp: wait_body_def lock_owned_Inr lock_task_Inr Let_def resolved_input_of_def
        dest!: find_step_mem split: sum.splits option.splits if_splits)
  show ?thesis
    by (rule movesI [OF t _ _ _ _ mv_wait [where u = "clk e 1" and v = "clk e 2", OF own s]])
      (auto simp: d' t view_simps sid frame_rows leave_running_def)
qed

lemma decide_moves:
  assumes "decide_body e tid sid decision d = Commit d' r"
  shows "moves st e tid d d'"
proof -
  from assms obtain t s where t: "find_task tid d = Some t"
      and ok: "t_status t = StatusWaitingApproval" "\<not> t_cancel_requested t" "\<not> overdue (clk e 0) t"
      and s: "s \<in> set (steps_of tid d)" "s_index s = t_current_step t"
        "s_type s = step_type_approval" "s_status s = StepWaitingApproval" "s_approval_decision s = None"
      and sid: "s_id s = sid"
      and body: "(if decision = ''approved'' then approve_body e tid sid (s_index s) d
         else reject_body e tid sid (s_index s) d) = Commit d' r"
    by (auto simp: decide_body_def lock_task_Inr deadline_passed_def overdue_def
        dest!: find_step_mem split: sum.splits option.splits if_splits)
  show ?thesis
  proof (cases "decision = ''approved''")
    case True
    let ?status = "if Suc (s_index s) = step_count tid d then StatusSucceeded else StatusRunnable"
    have n: "step_count tid d = length (steps_of tid d)" by (simp add: step_count_def)
    have row: "(\<lambda>s. s\<lparr>s_approval_decision := Some ''approved'', s_status := StepSucceeded,
        s_error := None, s_finished_at := Some (clk e 1)\<rparr>) = approve_step (clk e 1)"
      by (simp add: approve_step_def fun_eq_iff)
    have d': "d' = fst (d', r)" by simp
    from body True have d': "d' =
        (let d3 = insert_event (clk e 3) tid TASK_APPROVED (decision_payload sid (s_index s) ''approved'')
           (update_task tid (\<lambda>t. t\<lparr>t_status := ?status, t_current_step := Suc (s_index s),
              t_worker_id := None, t_lease_expires_at := None, t_retry_at := None,
              t_updated_at := clk e 2\<rparr>)
            (update_step tid sid (approve_step (clk e 1)) d))
         in if ?status = StatusSucceeded then insert_event (clk e 4) tid TASK_SUCCEEDED
              (decision_payload sid (s_index s) ''approved'') d3 else d3)"
      unfolding approve_body_def Let_def row by (simp split: if_splits)
    show ?thesis
      by (rule movesI [OF t _ _ _ _ mv_approve [where u = "clk e 1" and v = "clk e 2"
            and status = ?status and p = "decision_payload sid (s_index s) ''approved''", OF ok s]])
        (auto simp: d' t view_simps sid frame_rows approve_step_def leave_running_def n Let_def)
  next
    case False
    have row: "(\<lambda>s. s\<lparr>s_approval_decision := Some ''rejected'', s_status := StepFailed,
        s_error := Some ''approval_rejected'', s_finished_at := Some (clk e 1)\<rparr>) = reject_step (clk e 1)"
      by (simp add: reject_step_def fun_eq_iff)
    from body False have d': "d' =
        insert_event (clk e 4) tid TASK_FAILED (decision_payload sid (s_index s) ''rejected'')
          (insert_event (clk e 3) tid TASK_REJECTED (decision_payload sid (s_index s) ''rejected'')
           (update_task tid (\<lambda>t. t\<lparr>t_status := StatusFailed, t_worker_id := None,
              t_lease_expires_at := None, t_retry_at := None, t_updated_at := clk e 2\<rparr>)
            (update_step tid sid (reject_step (clk e 1)) d)))"
      unfolding reject_body_def Let_def row by simp
    show ?thesis
      by (rule movesI [OF t _ _ _ _ mv_reject [where u = "clk e 1" and v = "clk e 2"
            and p = "decision_payload sid (s_index s) ''rejected''", OF ok s]])
        (auto simp: d' t view_simps sid frame_rows reject_step_def leave_running_def)
  qed
qed

lemma finish_failed_moves:
  assumes "finish_failed e lease a out d = Commit d' r"
    and t: "find_task (lt_task_id lease) d = Some t"
    and own: "live_lease (clk e 0) t lease" "\<not> t_cancel_requested t" "\<not> overdue (clk e 0) t"
    and s: "s \<in> set (steps_of (lt_task_id lease) d)" "s_index s = t_current_step t" "s_status s = StepRunning"
    and a: "at_step_id a = s_id s" "at_attempt a = s_attempt s" "at_max_attempts a = s_max_attempts s"
  shows "moves st e (lt_task_id lease) d d'"
proof (cases "so_failure_class out = FailureTemporary \<and> s_attempt s < s_max_attempts s")
  case True
  with assms(1) a obtain delay where delay: "retry_delay (s_attempt s) = Some delay"
    by (auto simp: finish_failed_def Let_def split: option.splits)
  with True assms(1) a have d': "d' =
      insert_event (clk e 6) (lt_task_id lease) TASK_RETRY_WAIT
        (JObj [(''step_id'', JStr (s_id s)), (''attempt'', jnat (s_attempt s))])
       (insert_event (clk e 4) (lt_task_id lease) STEP_FAILED (finish_payload lease a (so_error out))
         (update_task (lt_task_id lease) (\<lambda>t. t\<lparr>t_status := StatusRetryWait,
            t_retry_at := Some (clk e 2 + delay * 1000000), t_worker_id := None,
            t_lease_expires_at := None, t_updated_at := clk e 3\<rparr>)
          (update_step (lt_task_id lease) (s_id s) (fail_step_row (clk e 1) (so_error out)) d)))"
    by (simp add: finish_failed_def Let_def insert_finish_events_def)
  show ?thesis
    by (rule movesI [OF t _ _ _ _ mv_retry [where u = "clk e 1" and v = "clk e 3"
          and reason = "so_error out", OF own s conjunct2 [OF True] delay]])
      (auto simp: d' t view_simps frame_rows leave_running_def)
next
  case False
  with assms(1) a have d': "d' =
      insert_event (clk e 5) (lt_task_id lease) TASK_FAILED (finish_payload lease a (so_error out))
       (insert_event (clk e 4) (lt_task_id lease) STEP_FAILED (finish_payload lease a (so_error out))
         (update_task (lt_task_id lease) (\<lambda>t. t\<lparr>t_status := StatusFailed, t_retry_at := None,
            t_worker_id := None, t_lease_expires_at := None, t_updated_at := clk e 3\<rparr>)
          (update_step (lt_task_id lease) (s_id s) (fail_step_row (clk e 1) (so_error out)) d)))"
    by (auto simp add: finish_failed_def Let_def insert_finish_events_def)
  show ?thesis
    by (rule movesI [OF t _ _ _ _ mv_fail [where u = "clk e 1" and v = "clk e 3"
          and reason = "so_error out", OF own s]])
      (auto simp: d' t view_simps frame_rows leave_running_def)
qed

lemma finish_succeeded_moves:
  assumes "finish_succeeded e lease a out (s_index s) d = Commit d' r"
    and t: "find_task (lt_task_id lease) d = Some t"
    and own: "live_lease (clk e 0) t lease" "\<not> t_cancel_requested t" "\<not> overdue (clk e 0) t"
    and s: "s \<in> set (steps_of (lt_task_id lease) d)" "s_index s = t_current_step t" "s_status s = StepRunning"
    and a: "at_step_id a = s_id s"
  shows "moves st e (lt_task_id lease) d d'"
proof -
  from assms(1) obtain outv where outv: "raw_val (so_output out) = Some outv"
    by (auto simp: finish_succeeded_def json_valid_def split: if_splits)
  define c where "c = coalesce_checkpoint (so_checkpoint out) (t_checkpoint t)"
  have row: "(\<lambda>s. s\<lparr>s_status := StepSucceeded, s_output := raw_val (so_output out), s_error := None,
      s_finished_at := Some (clk e 1)\<rparr>) = succeed_step (clk e 1) outv"
    by (simp add: succeed_step_def outv fun_eq_iff)
  let ?d1 = "update_step (lt_task_id lease) (s_id s) (succeed_step (clk e 1) outv) d"
  have n: "step_count (lt_task_id lease) ?d1 = length (steps_of (lt_task_id lease) d)"
    by (simp add: step_count_def view_simps succeed_step_def)
  note body = assms(1) [unfolded finish_succeeded_def Let_def row a n]
  show ?thesis
  proof (cases "Suc (s_index s) = length (steps_of (lt_task_id lease) d)")
    case True
    with body have d': "d' =
      insert_finish_events e lease a STEP_SUCCEEDED [] True
        (update_task (lt_task_id lease) (\<lambda>t. t\<lparr>t_status := StatusSucceeded,
           t_current_step := Suc (s_index s),
           t_checkpoint := coalesce_checkpoint (so_checkpoint out) (t_checkpoint t),
           t_worker_id := None, t_lease_expires_at := None, t_updated_at := clk e 3\<rparr>) ?d1)"
      by (auto split: if_splits)
    show ?thesis
      by (rule movesI [OF t _ _ _ _ mv_complete [where u = "clk e 1" and v = "clk e 3"
            and outv = outv and c = c and p = "finish_payload lease a []", OF own s True]])
        (auto simp: d' t view_simps frame_rows succeed_step_def leave_running_def
          insert_finish_events_def Let_def c_def)
  next
    case False
    with body have d': "d' =
      insert_finish_events e lease a STEP_SUCCEEDED [] False
        (update_task (lt_task_id lease) (\<lambda>t. t\<lparr>t_current_step := Suc (s_index s),
           t_checkpoint := coalesce_checkpoint (so_checkpoint out) (t_checkpoint t),
           t_updated_at := clk e 3\<rparr>) ?d1)"
      by (auto split: if_splits)
    show ?thesis
      by (rule movesI [OF t _ _ _ _ mv_succeed [where u = "clk e 1" and v = "clk e 3"
            and outv = outv and c = c and p = "finish_payload lease a []", OF own s False]])
        (auto simp: d' t view_simps frame_rows succeed_step_def insert_finish_events_def Let_def c_def)
  qed
qed

lemma finish_moves:
  assumes "finish_body e lease a outcome d = Commit d' r"
  shows "moves st e (lt_task_id lease) d d'"
proof -
  from assms obtain t s where t: "find_task (lt_task_id lease) d = Some t"
      and own: "live_lease (clk e 0) t lease" "\<not> t_cancel_requested t" "\<not> overdue (clk e 0) t"
      and s: "s \<in> set (steps_of (lt_task_id lease) d)" "s_index s = t_current_step t" "s_status s = StepRunning"
      and a: "at_step_id a = s_id s" "at_attempt a = s_attempt s"
      and body: "(if so_error (limit_outcome outcome) \<noteq> []
         then finish_failed e lease (a\<lparr>at_max_attempts := s_max_attempts s\<rparr>) (limit_outcome outcome) d
         else finish_succeeded e lease (a\<lparr>at_max_attempts := s_max_attempts s\<rparr>) (limit_outcome outcome)
           (s_index s) d) = Commit d' r"
    by (auto simp: finish_body_def lock_task_Inr Let_def validate_ownership_def owns_active_lease_def
        live_lease_def overdue_def deadline_passed_def
        dest!: find_step_mem split: sum.splits option.splits if_splits)
  let ?a = "a\<lparr>at_max_attempts := s_max_attempts s\<rparr>"
  have a': "at_step_id ?a = s_id s" "at_attempt ?a = s_attempt s" "at_max_attempts ?a = s_max_attempts s"
    using a by simp_all
  show ?thesis
  proof (cases "so_error (limit_outcome outcome) \<noteq> []")
    case True
    with body have "finish_failed e lease ?a (limit_outcome outcome) d = Commit d' r" by simp
    then show ?thesis by (rule finish_failed_moves [OF _ t own s a'])
  next
    case False
    with body have "finish_succeeded e lease ?a (limit_outcome outcome) (s_index s) d = Commit d' r" by simp
    then show ?thesis by (rule finish_succeeded_moves [OF _ t own s a'(1)])
  qed
qed

section \<open>Control transitions\<close>

lemma current_of_step_at: "find_task tid d = Some t \<Longrightarrow>
    current_of t (steps_of tid d) = step_at tid (t_current_step t) d"
  by (simp add: current_of_def step_at_def)

lemma control_moves:
  assumes t: "find_task tid d = Some t" and live: "\<not> is_terminal_status (t_status t)"
    and why: "(outcome = cancelled_outcome \<and> (t_cancel_requested t \<or> t_status t \<noteq> StatusRunning)) \<or>
      (outcome = timed_out_outcome \<and> \<not> t_cancel_requested t \<and> overdue (clk e k) t)"
  shows "moves st e tid d (finish_controlled_task e tid (t_current_step t) outcome d)"
proof -
  let ?q = "JObj [(''step_index'', jnat (t_current_step t)), (''error'', JStr (co_reason outcome))]"
  have task: "(\<lambda>t. t\<lparr>t_status := co_status outcome, t_retry_at := None, t_worker_id := None,
      t_lease_expires_at := None, t_updated_at := clk e 4\<rparr>) = leave_running (co_status outcome) None (clk e 4)"
    by (simp add: leave_running_def fun_eq_iff)
  show ?thesis
  proof (cases "\<exists>s. step_at tid (t_current_step t) d = Some s \<and> s_status s \<noteq> StepSucceeded")
    case True
    then obtain s where s: "step_at tid (t_current_step t) d = Some s" "s_status s \<noteq> StepSucceeded"
      by blast
    then have s': "current_of t (steps_of tid d) = Some s"
      by (simp add: current_of_step_at [OF t])
    have row: "(\<lambda>s. s\<lparr>s_status := StepFailed, s_output := None, s_error := Some (co_reason outcome),
        s_finished_at := Some (clk e 2)\<rparr>) = fail_step_row (clk e 2) (co_reason outcome)"
      by (simp add: fail_step_row_def fun_eq_iff)
    show ?thesis
      unfolding finish_controlled_task_def finish_controlled_step_def Let_def task row
      by (rule movesI [OF t _ _ _ _ mv_control [where u = "clk e 2" and v = "clk e 4" and q = ?q,
            OF live why s' s(2)]])
        (auto simp: s t view_simps frame_rows leave_running_def)
  next
    case False
    then have bare: "finish_controlled_step e tid (t_current_step t) (co_reason outcome) d = d"
      by (auto simp: finish_controlled_step_def split: option.splits)
    from False have none: "\<forall>s. current_of t (steps_of tid d) = Some s \<longrightarrow> s_status s = StepSucceeded"
      by (simp add: current_of_step_at [OF t])
    show ?thesis
      unfolding finish_controlled_task_def Let_def task bare
      by (rule movesI [OF t _ _ _ _ mv_control_bare [where v = "clk e 4" and q = ?q, OF live why none]])
        (auto simp: t view_simps leave_running_def)
  qed
qed

lemma timeout_owned_moves:
  assumes "timeout_owned_body e lease d = Commit d' r"
  shows "moves st e (lt_task_id lease) d d'"
proof -
  from assms obtain t where t: "find_task (lt_task_id lease) d = Some t"
      and c: "live_lease (clk e 0) t lease" "\<not> t_cancel_requested t" "overdue (clk e 0) t"
      and d': "d' = finish_controlled_task e (lt_task_id lease) (t_current_step t) timed_out_outcome d"
    by (auto simp: timeout_owned_body_def lock_task_Inr owns_active_lease_def live_lease_def
        overdue_def deadline_passed_def split: sum.splits option.splits if_splits)
  show ?thesis
    unfolding d' using c live_lease_running [OF c(1)] by (intro control_moves [OF t, of _ e 0]) auto
qed

lemma cancel_owned_moves:
  assumes "cancel_owned_body e lease d = Commit d' r"
  shows "moves st e (lt_task_id lease) d d'"
proof -
  from assms obtain t where t: "find_task (lt_task_id lease) d = Some t"
      and c: "live_lease (clk e 0) t lease" "t_cancel_requested t"
      and d': "d' = finish_controlled_task e (lt_task_id lease) (t_current_step t) cancelled_outcome d"
    by (auto simp: cancel_owned_body_def lock_task_Inr owns_active_lease_def live_lease_def
        split: sum.splits option.splits if_splits)
  show ?thesis
    unfolding d' using c live_lease_running [OF c(1)] by (intro control_moves [OF t, of _ e 0]) auto
qed

lemma cancel_moves:
  assumes "cancel_body e tid d = Commit d' r"
  shows "moves st e tid d d'"
proof -
  from assms obtain t where t: "find_task tid d = Some t"
      and live: "\<not> is_terminal_status (t_status t)"
      and d': "d' = (if t_status t = StatusRunning
         then update_task tid (\<lambda>t. t\<lparr>t_cancel_requested := True, t_updated_at := clk e 1\<rparr>) d
         else finish_controlled_task e tid (t_current_step t) cancelled_outcome d)"
    by (auto simp: cancel_body_def lock_task_Inr split: sum.splits if_splits)
  show ?thesis
  proof (cases "t_status t = StatusRunning")
    case True
    then show ?thesis
      by (intro movesI [OF t _ _ _ _ mv_request_cancel [where u = "clk e 1", OF True]])
        (auto simp: d' t view_simps)
  next
    case False
    with live show ?thesis
      unfolding d' by (simp, intro control_moves [OF t]) auto
  qed
qed

section \<open>The scheduler's transitions\<close>

lemma overdue_alt: "at_or_before (t_deadline_at t) now \<longleftrightarrow> overdue now t"
  by (auto simp: at_or_before_def overdue_def split: option.splits)

lemma find_task_distinct: "distinct (map t_id (tasks d)) \<Longrightarrow> t \<in> set (tasks d) \<Longrightarrow>
    find_task (t_id t) d = Some t"
  unfolding find_task_def by (rule row_at_distinct)

lemma find_task_mem: "find_task i d = Some t \<Longrightarrow> t \<in> set (tasks d)"
  unfolding find_task_def by (rule row_at_mem)

lemma wake_retry_moves:
  assumes t: "find_task tid d = Some t" and c: "t_status t = StatusRetryWait" "\<not> t_cancel_requested t"
    "at_or_before (t_retry_at t) (clk e k)" "\<not> overdue (clk e k) t"
  shows "moves st e tid d (wake_retry_task e tid d)"
  by (rule movesI [OF t _ _ _ _ mv_wake_retry [where u = "clk e 2" and p = "JObj []", OF c]])
    (auto simp: wake_retry_task_def t view_simps)

lemma due_candidate_Some: "due_candidate e d = Some t \<Longrightarrow>
    t \<in> set (tasks d) \<and> due (clk e 0) t \<and> \<not> row_locked e (t_id t)"
  by (auto simp: due_candidate_def dest: first_by_mem)

lemma process_due_moves:
  assumes "distinct (map t_id (tasks d))" and body: "process_due_body e d = Commit d' r"
  shows "\<exists>t. due_candidate e d = Some t \<and> moves st e (t_id t) d d'"
proof -
  from body obtain t where c: "due_candidate e d = Some t"
    by (auto simp: process_due_body_def split: option.splits)
  note cand = due_candidate_Some [OF c]
  have t: "find_task (t_id t) d = Some t"
    using assms(1) cand by (intro find_task_distinct) auto
  have live: "\<not> is_terminal_status (t_status t)" using cand by (simp add: due_def)
  note b = body [unfolded process_due_body_def c option.case overdue_alt]
  consider (cancel) "t_cancel_requested t"
    | (deadline) "\<not> t_cancel_requested t" "overdue (clk e 1) t"
    | (retry) "\<not> t_cancel_requested t" "\<not> overdue (clk e 1) t" "t_status t = StatusRetryWait"
        "at_or_before (t_retry_at t) (clk e 1)"
    | (scheduled) "\<not> t_cancel_requested t" "\<not> overdue (clk e 1) t" "t_status t = StatusScheduled"
        "t_run_at t \<le> clk e 1"
    using b by (auto split: if_splits)
  then have "moves st e (t_id t) d d'"
  proof cases
    case cancel
    with b have "d' = finish_controlled_task e (t_id t) (t_current_step t) cancelled_outcome d" by simp
    with cancel show ?thesis by (simp, intro control_moves [OF t live]) simp
  next
    case deadline
    with b have "d' = finish_controlled_task e (t_id t) (t_current_step t) timed_out_outcome d" by simp
    with deadline show ?thesis by (simp, intro control_moves [OF t live, of _ e 1]) simp
  next
    case retry
    with b have "d' = wake_retry_task e (t_id t) d" by simp
    with wake_retry_moves [OF t retry(3,1,4,2)] show ?thesis by simp
  next
    case scheduled
    with b t have d': "d' = insert_event (clk e 3) (t_id t) TASK_RUNNABLE
        (JObj [(''run_at'', JNum (t_run_at t) 0), (''source'', JStr ''scheduled'')])
        (update_task (t_id t) (\<lambda>t. t\<lparr>t_status := StatusRunnable, t_updated_at := clk e 2\<rparr>) d)"
      by (simp add: wake_scheduled_task_def)
    show ?thesis
      by (rule movesI [OF t _ _ _ _ mv_wake_scheduled [where u = "clk e 2",
            OF scheduled(3,1,4,2)]])
        (auto simp: d' t view_simps)
  qed
  with c show ?thesis by blast
qed

lemma wake_due_moves:
  assumes "distinct (map t_id (tasks d))" and body: "wake_due_body e d = Commit d' r"
  shows "\<exists>i. moves st e i d d'"
proof -
  from body obtain t where "t \<in> set (tasks d)" and due: "retry_due (clk e 0) t"
      and d': "d' = wake_retry_task e (t_id t) d"
    by (auto simp: wake_due_body_def split: option.splits dest!: first_by_mem)
  then have t: "find_task (t_id t) d = Some t"
    using assms(1) by (intro find_task_distinct) auto
  show ?thesis
    unfolding d' using wake_retry_moves [OF t, of e 0] due
    by (auto simp: retry_due_def overdue_alt)
qed

section \<open>Claims\<close>

lemma claim_candidate_Some: "claim_candidate e d = Some t \<Longrightarrow>
    t \<in> set (tasks d) \<and> claimable (clk e 0) t \<and> \<not> row_locked e (t_id t)"
  by (auto simp: claim_candidate_def dest: first_by_mem)

lemma claimable_status: "claimable now t \<Longrightarrow> t_status t = StatusRunnable \<or> t_status t = StatusRunning"
  by (auto simp: claimable_def)

lemma step_at_event [view_simps]: "step_at j k (insert_event now i ty p d) = step_at j k d"
  by (simp add: step_at_def view_simps)

lemma assign_lease_id [simp]: "t_id (assign_lease st e w t) = t_id t"
  by (simp add: assign_lease_def)

lemma lose_step_row: "(\<lambda>s. s\<lparr>s_status := StepFailed, s_error := Some ''worker_lost'',
    s_finished_at := Some now\<rparr>) = lose_step now"
  by (simp add: lose_step_def fun_eq_iff)

lemma claim_moves:
  assumes "distinct (map t_id (tasks d))" and body: "claim_body st e w d = Commit d' r"
  shows "\<exists>t. claim_candidate e d = Some t \<and> moves st e (t_id t) d d'"
proof -
  from body obtain t where c: "claim_candidate e d = Some t"
    by (auto simp: claim_body_def split: option.splits)
  note cand = claim_candidate_Some [OF c]
  have t: "find_task (t_id t) d = Some t"
    using assms(1) cand by (intro find_task_distinct) auto
  have claim: "claimable (clk e 0) t" using cand by simp
  note b = body [unfolded claim_body_def c option.case]
  have "moves st e (t_id t) d d'"
  proof (cases "t_status t = StatusRunning")
    case False
    with claimable_status [OF claim] have runnable: "t_status t = StatusRunnable" by simp
    with b have d': "d' = insert_event (clk e 10) (t_id t) TASK_CLAIMED
        (JObj [(''worker_id'', JStr w), (''lease_version'', jnat (Suc (t_lease_version t)))])
        (update_task (t_id t) (assign_lease st e w) d)"
      by (simp add: finish_claim_def Let_def)
    show ?thesis
      by (rule movesI [OF t _ _ _ _ mv_claim [where w = w, OF runnable claim]])
        (auto simp: d' t view_simps)
  next
    case running: True
    note b' = b [unfolded recover_expired_task_def Let_def view_simps lose_step_row]
    show ?thesis
    proof (cases "step_at (t_id t) (t_current_step t) d")
      case None
      then have none: "current_of t (steps_of (t_id t) d) = None"
        by (simp add: current_of_step_at [OF t])
      from b' running None show ?thesis
        by (intro movesI [OF t _ _ _ _ mv_converge [where u = "clk e 2", OF running claim none]])
          (auto simp: t view_simps leave_running_def)
    next
      case (Some s)
      then have cur: "current_of t (steps_of (t_id t) d) = Some s"
        by (simp add: current_of_step_at [OF t])
      consider (idle) "s_status s \<noteq> StepRunning"
        | (lost) "s_status s = StepRunning" "s_attempt s < s_max_attempts s"
        | (out) "s_status s = StepRunning" "\<not> s_attempt s < s_max_attempts s" by blast
      then show ?thesis
      proof cases
        case idle
        from b' running Some idle show ?thesis
          by (intro movesI [OF t _ _ _ _ mv_takeover [where w = w, OF running claim cur idle]])
            (auto simp: t view_simps finish_claim_def Let_def)
      next
        case lost
        from b' running Some lost show ?thesis
          by (intro movesI [OF t _ _ _ _ mv_takeover_lost [where w = w and u = "clk e 2", OF running claim cur lost]])
            (auto simp: t view_simps finish_claim_def Let_def frame_rows lose_step_def)
      next
        case out
        from b' running Some out show ?thesis
          by (intro movesI [OF t _ _ _ _ mv_exhausted [where u = "clk e 4" and v = "clk e 2", OF running claim cur out]])
            (auto simp: t view_simps frame_rows lose_step_def leave_running_def)
      qed
    qed
  qed
  with c show ?thesis by blast
qed

end
