(* ===== verification/Store_System.thy ===== *)
theory Store_System
  imports Store_Refines
begin

text \<open>
  The store as a transition system: the operations the API, the workers and the schedulers call,
  in any order, each with its own environment, on one database and one clock that does not run
  backwards. The invariant of the database holds in every reachable state.
\<close>

section \<open>Actions\<close>

datatype action =
    CreateTask env "nat \<Rightarrow> err + string" task_definition
  | ClaimTask env string
  | RenewLease env lease_token
  | StartStep env lease_token string
  | WaitForApproval env lease_token string
  | DecideApproval env string string string
  | FinishStep env lease_token step_attempt step_outcome
  | TimeoutOwnedTask env lease_token
  | CancelTask env string
  | CancelOwnedTask env lease_token
  | ProcessDueControl env
  | WakeDueRetry env

fun env_of :: "action \<Rightarrow> env" where
  "env_of (CreateTask e _ _) = e"
| "env_of (ClaimTask e _) = e"
| "env_of (RenewLease e _) = e"
| "env_of (StartStep e _ _) = e"
| "env_of (WaitForApproval e _ _) = e"
| "env_of (DecideApproval e _ _ _) = e"
| "env_of (FinishStep e _ _ _) = e"
| "env_of (TimeoutOwnedTask e _) = e"
| "env_of (CancelTask e _) = e"
| "env_of (CancelOwnedTask e _) = e"
| "env_of (ProcessDueControl e) = e"
| "env_of (WakeDueRetry e) = e"

fun perform :: "store \<Rightarrow> action \<Rightarrow> db \<Rightarrow> db" where
  "perform st (CreateTask e new_id td) d = fst (create_task e new_id td d)"
| "perform st (ClaimTask e w) d = fst (claim_task st e w d)"
| "perform st (RenewLease e lease) d = fst (renew_lease st e lease d)"
| "perform st (StartStep e lease sid) d = fst (start_step e lease sid d)"
| "perform st (WaitForApproval e lease sid) d = fst (wait_for_approval e lease sid d)"
| "perform st (DecideApproval e tid sid decision) d = fst (decide_approval e tid sid decision d)"
| "perform st (FinishStep e lease a out) d = fst (finish_step e lease a out d)"
| "perform st (TimeoutOwnedTask e lease) d = fst (timeout_owned_task e lease d)"
| "perform st (CancelTask e tid) d = fst (cancel_task e tid d)"
| "perform st (CancelOwnedTask e lease) d = fst (cancel_owned_task e lease d)"
| "perform st (ProcessDueControl e) d = fst (process_due_control e d)"
| "perform st (WakeDueRetry e) d = fst (wake_due_retry e d)"

text \<open>
  The last reading of any operation is the tenth. A definition the API lets through has at least
  one step (theory Api).
\<close>

definition clock_ok :: "time \<Rightarrow> env \<Rightarrow> bool" where
  "clock_ok now e \<longleftrightarrow> mono (clk e) \<and> now \<le> clk e 0"

fun valid_action :: "action \<Rightarrow> bool" where
  "valid_action (CreateTask e new_id td) = (td_steps td \<noteq> [])"
| "valid_action _ = True"

inductive sys_step :: "store \<Rightarrow> action \<Rightarrow> db \<times> time \<Rightarrow> db \<times> time \<Rightarrow> bool" for st where
  act: "clock_ok now (env_of a) \<Longrightarrow> valid_action a \<Longrightarrow>
    sys_step st a (d, now) (perform st a d, clk (env_of a) 10)"

inductive_simps sys_step_iff: "sys_step st a (d, now) (d', now')"
inductive_cases sys_stepE: "sys_step st a s s'"

section \<open>The invariant of the database\<close>

definition definition_ok :: "step \<Rightarrow> bool" where
  "definition_ok s \<longleftrightarrow>
     s_idempotency_key s = s_task_id s @ '':'' @ s_id s \<and>
     0 < s_max_attempts s \<and> s_max_attempts s \<le> 2147483647 \<and>
     0 < s_timeout_seconds s \<and> s_timeout_seconds s \<le> 2147483647"

definition wf_db :: "db \<Rightarrow> bool" where
  "wf_db d \<longleftrightarrow>
     distinct (map t_id (tasks d)) \<and> distinct (map s_id (steps d)) \<and>
     distinct (map s_idempotency_key (steps d)) \<and>
     (\<forall>s \<in> set (steps d). s_task_id s \<in> t_id ` set (tasks d) \<and> definition_ok s) \<and>
     (\<forall>ev \<in> set (events d). e_task_id ev \<in> t_id ` set (tasks d)) \<and>
     (\<forall>i v. view_of i d = Some v \<longrightarrow> task_inv v)"

lemma wf_task_inv: "wf_db d \<Longrightarrow> view_of i d = Some v \<Longrightarrow> task_inv v"
  unfolding wf_db_def by blast

text \<open>What an action does: nothing, the creation of a task, or a move of one task.\<close>

definition creates :: "db \<Rightarrow> db \<Rightarrow> bool" where
  "creates d d' \<longleftrightarrow>
     (\<exists>e tid new_id td r. create_body e tid new_id td d = Commit d' r \<and> td_steps td \<noteq> [])"

lemma run_tx_fst: "fst (run_tx e d x) = d \<or> (\<exists>r. x = Commit (fst (run_tx e d x)) r)"
  by (cases x) (auto split: fault.splits)

lemma fact_check_fst: "fst (commit_with_fact_check e d c x) = d \<or>
    (\<exists>r. x = Commit (fst (commit_with_fact_check e d c x)) r)"
  by (cases x) (auto split: fault.splits)

lemma tx_moves: "(\<And>d' r. x = Commit d' r \<Longrightarrow> \<exists>i. moves st e i d d') \<Longrightarrow>
    fst (run_tx e d x) = d \<or> (\<exists>i. moves st e i d (fst (run_tx e d x)))"
  using run_tx_fst [of e d x] by auto

lemma fact_check_moves: "(\<And>d' r. x = Commit d' r \<Longrightarrow> \<exists>i. moves st e i d d') \<Longrightarrow>
    fst (commit_with_fact_check e d c x) = d \<or> (\<exists>i. moves st e i d (fst (commit_with_fact_check e d c x)))"
  using fact_check_fst [of e d c x] by auto

lemmas operation_defs = create_task_def claim_task_def renew_lease_def start_step_def
  wait_for_approval_def decide_approval_def finish_step_def timeout_owned_task_def cancel_task_def
  cancel_owned_task_def process_due_control_def wake_due_retry_def

lemma create_cases: "td_steps td \<noteq> [] \<Longrightarrow> fst (create_task e new_id td d) = d \<or>
    creates d (fst (create_task e new_id td d))"
  using create_task_cases [of e new_id td d "fst (create_task e new_id td d)"
      "snd (create_task e new_id td d)"]
  unfolding creates_def by (simp add: prod_eq_iff) blast

lemma perform_cases:
  assumes "distinct (map t_id (tasks d))" "valid_action a"
  shows "perform st a d = d \<or> creates d (perform st a d) \<or> (\<exists>i. moves st (env_of a) i d (perform st a d))"
proof (cases a)
  case (CreateTask e new_id td)
  with assms(2) create_cases [of td e new_id d] show ?thesis by auto
next
  case (ClaimTask e w)
  have "fst (run_tx e d (claim_body st e w d)) = d \<or>
      (\<exists>i. moves st e i d (fst (run_tx e d (claim_body st e w d))))"
    by (rule tx_moves) (blast dest: claim_moves [OF assms(1)])
  with ClaimTask show ?thesis by (auto simp: claim_task_def)
next
  case (RenewLease e lease)
  have "fst (run_tx e d (renew_body st e lease d)) = d \<or>
      (\<exists>i. moves st e i d (fst (run_tx e d (renew_body st e lease d))))"
    by (rule tx_moves) (blast intro: renew_moves)
  with RenewLease show ?thesis by (auto simp: renew_lease_def)
next
  case (StartStep e lease sid)
  have "fst (commit_with_fact_check e d c (start_body e lease sid d)) = d \<or>
      (\<exists>i. moves st e i d (fst (commit_with_fact_check e d c (start_body e lease sid d))))" for c
    by (rule fact_check_moves) (blast intro: start_moves)
  with StartStep show ?thesis by (auto simp: start_step_def Let_def)
next
  case (WaitForApproval e lease sid)
  have "fst (commit_with_fact_check e d c (wait_body e lease sid d)) = d \<or>
      (\<exists>i. moves st e i d (fst (commit_with_fact_check e d c (wait_body e lease sid d))))" for c
    by (rule fact_check_moves) (blast intro: wait_moves)
  with WaitForApproval show ?thesis by (auto simp: wait_for_approval_def)
next
  case (DecideApproval e tid sid decision)
  have "fst (commit_with_fact_check e d c (decide_body e tid sid decision d)) = d \<or>
      (\<exists>i. moves st e i d (fst (commit_with_fact_check e d c (decide_body e tid sid decision d))))" for c
    by (rule fact_check_moves) (blast intro: decide_moves)
  with DecideApproval show ?thesis by (auto simp: decide_approval_def)
next
  case (FinishStep e lease a out)
  have "fst (commit_with_fact_check e d c (finish_body e lease a out d)) = d \<or>
      (\<exists>i. moves st e i d (fst (commit_with_fact_check e d c (finish_body e lease a out d))))" for c
    by (rule fact_check_moves) (blast intro: finish_moves)
  with FinishStep show ?thesis by (auto simp: finish_step_def Let_def)
next
  case (TimeoutOwnedTask e lease)
  have "fst (run_tx e d (timeout_owned_body e lease d)) = d \<or>
      (\<exists>i. moves st e i d (fst (run_tx e d (timeout_owned_body e lease d))))"
    by (rule tx_moves) (blast intro: timeout_owned_moves)
  with TimeoutOwnedTask show ?thesis by (auto simp: timeout_owned_task_def)
next
  case (CancelTask e tid)
  have "fst (run_tx e d (cancel_body e tid d)) = d \<or>
      (\<exists>i. moves st e i d (fst (run_tx e d (cancel_body e tid d))))"
    by (rule tx_moves) (blast intro: cancel_moves)
  with CancelTask show ?thesis by (auto simp: cancel_task_def)
next
  case (CancelOwnedTask e lease)
  have "fst (run_tx e d (cancel_owned_body e lease d)) = d \<or>
      (\<exists>i. moves st e i d (fst (run_tx e d (cancel_owned_body e lease d))))"
    by (rule tx_moves) (blast intro: cancel_owned_moves)
  with CancelOwnedTask show ?thesis by (auto simp: cancel_owned_task_def)
next
  case (ProcessDueControl e)
  have "fst (run_tx e d (process_due_body e d)) = d \<or>
      (\<exists>i. moves st e i d (fst (run_tx e d (process_due_body e d))))"
    by (rule tx_moves) (blast dest: process_due_moves [OF assms(1)])
  with ProcessDueControl show ?thesis by (auto simp: process_due_control_def)
next
  case (WakeDueRetry e)
  have "fst (run_tx e d (wake_due_body e d)) = d \<or>
      (\<exists>i. moves st e i d (fst (run_tx e d (wake_due_body e d))))"
    by (rule tx_moves) (blast dest: wake_due_moves [OF assms(1)])
  with WakeDueRetry show ?thesis by (auto simp: wake_due_retry_def)
qed

section \<open>The invariant is kept\<close>

lemma definition_ok_columns: "step_definition_columns s = step_definition_columns s' \<Longrightarrow>
    definition_ok s = definition_ok s'"
  by (simp add: step_definition_columns_def definition_ok_def)

lemma map_eq_mem: "map f xs = map f ys \<Longrightarrow> x \<in> set xs \<Longrightarrow> \<exists>y \<in> set ys. f x = f y"
  by (metis image_iff set_map)

lemma columns_map: "map step_definition_columns xs = map step_definition_columns ys \<Longrightarrow>
    map s_id xs = map s_id ys \<and> map s_idempotency_key xs = map s_idempotency_key ys"
proof -
  assume eq: "map step_definition_columns xs = map step_definition_columns ys"
  have 1: "s_id = fst \<circ> step_definition_columns"
    and 2: "s_idempotency_key = (\<lambda>(_, _, _, _, _, k, _, _). k) \<circ> step_definition_columns"
    by (auto simp: step_definition_columns_def)
  show ?thesis unfolding 1 2 by (simp only: map_map [symmetric] eq)
qed

lemma moves_wf:
  assumes "moves st e i d d'" and wf: "wf_db d"
  shows "wf_db d'"
proof -
  from assms(1) obtain v v' where fr: "frame i d d'" and v: "view_of i d = Some v"
      and v': "view_of i d' = Some v'" and mv: "task_move st e v v'"
    by (auto simp: moves_def)
  note f = fr [unfolded frame_def] and w = wf [unfolded wf_db_def]
  from f have ids: "map t_id (tasks d') = map t_id (tasks d)"
    and cols: "map step_definition_columns (steps d') = map step_definition_columns (steps d)" by auto
  then have tids: "t_id ` set (tasks d') = t_id ` set (tasks d)" by (metis set_map)
  have "i \<in> t_id ` set (tasks d)"
    using v by (auto simp: view_of_def find_task_def row_at_None map_option_eq_Some dest: row_at_mem row_at_key)
  moreover from f obtain evs where "events d' = events d @ evs" "\<forall>ev \<in> set evs. e_task_id ev = i"
    by blast
  ultimately have "\<forall>ev \<in> set (events d'). e_task_id ev \<in> t_id ` set (tasks d')"
    using w tids by auto
  moreover have "\<forall>s \<in> set (steps d'). s_task_id s \<in> t_id ` set (tasks d') \<and> definition_ok s"
  proof
    fix s assume "s \<in> set (steps d')"
    then obtain s0 where "s0 \<in> set (steps d)" "step_definition_columns s = step_definition_columns s0"
      using map_eq_mem [OF cols] by blast
    with w tids definition_ok_columns [of s s0] show "s_task_id s \<in> t_id ` set (tasks d') \<and> definition_ok s"
      by (auto simp: step_definition_columns_def)
  qed
  moreover have "task_inv u" if u: "view_of j d' = Some u" for j u
  proof (cases "j = i")
    case True
    from w v have "task_inv v" by blast
    with True u v' move_task_inv [OF mv] show ?thesis by simp
  next
    case False
    with u frame_other [OF fr] have "view_of j d = Some u" by simp
    with w show ?thesis by blast
  qed
  ultimately show ?thesis
    using w ids columns_map [OF cols] unfolding wf_db_def by auto
qed


lemma create_wf:
  assumes "create_body e tid new_id td d = Commit d' r" "td_steps td \<noteq> []" and wf: "wf_db d"
  shows "wf_db d'"
proof -
  let ?t = "new_task e tid td" and ?ss = "step_rows new_id tid 0 (td_steps td)"
  from create_body_Commit [OF assms(1)] obtain d2 evs where
      fresh: "find_task tid d = None"
      and ins: "insert_steps new_id tid 0 (td_steps td) (d\<lparr>tasks := tasks d @ [?t]\<rparr>) = Inr d2"
      and d': "tasks d' = tasks d @ [?t]" "steps d' = steps d @ ?ss" "events d' = events d @ evs"
        "\<forall>ev \<in> set evs. e_task_id ev = tid \<and> e_type ev \<in> {TASK_CREATED, TASK_SCHEDULED}"
    by blast
  note rows = insert_steps_Inr [OF ins] and w = wf [unfolded wf_db_def]
  have id: "t_id ?t = tid" by (simp add: new_task_def)
  have fresh': "tid \<notin> t_id ` set (tasks d)"
    using fresh by (simp add: find_task_def row_at_None)
  have old: "view_of j d' = view_of j d" if "j \<noteq> tid" for j
  proof -
    have "filter (\<lambda>s. s_task_id s = j) ?ss = []"
      using that step_rows_task by (fastforce simp: filter_empty_conv)
    moreover have "filter (\<lambda>ev. e_task_id ev = j) evs = []"
      using that d'(4) by (auto simp: filter_empty_conv)
    ultimately show ?thesis
      using that id by (simp add: view_of_def find_task_def row_at_append row_at_single d' steps_of_def
          log_of_def events_of_def split: option.splits)
  qed
  have new: "find_task tid d' = Some ?t" "steps_of tid d' = ?ss" "log_of tid d' = map (\<lambda>ev. (e_type ev, e_payload ev)) evs"
  proof -
    show "find_task tid d' = Some ?t"
      using fresh id by (simp add: find_task_def row_at_append row_at_single d')
    have "filter (\<lambda>s. s_task_id s = tid) (steps d) = []"
      using w fresh' by (auto simp: filter_empty_conv)
    moreover have "filter (\<lambda>s. s_task_id s = tid) ?ss = ?ss"
      using step_rows_task by (fastforce simp: filter_id_conv)
    ultimately show "steps_of tid d' = ?ss" by (simp add: steps_of_def d')
    have "filter (\<lambda>ev. e_task_id ev = tid) (events d) = []"
      using w fresh' by (auto simp: filter_empty_conv)
    moreover have "filter (\<lambda>ev. e_task_id ev = tid) evs = evs"
      using d'(4) by (simp add: filter_id_conv)
    ultimately show "log_of tid d' = map (\<lambda>ev. (e_type ev, e_payload ev)) evs"
      by (simp add: log_of_def events_of_def d')
  qed
  have len: "length ?ss = length (td_steps td)" and ne: "?ss \<noteq> []"
    using rows assms(2) by auto
  have "distinct (map s_id (steps d2))" "distinct (map s_idempotency_key (steps d2))"
    using insert_steps_distinct [OF ins] w by auto
  then have dist: "distinct (map s_id (steps d'))" "distinct (map s_idempotency_key (steps d'))"
    using rows d'(2) by simp_all
  have def: "definition_ok s" if "s \<in> set ?ss" for s
    using step_rows_task [OF that] step_rows_max [OF _ that] rows by (auto simp: definition_ok_def)
  have row: "step_inv ?t s" if "s \<in> set ?ss" for s
    using step_rows_task [OF that] step_rows_max [OF _ that] rows
    by (auto simp: step_inv_defs new_task_def split: option.splits)
  have "steps_inv ?t ?ss"
    unfolding steps_inv_def using ne dist(1) d'(2) row step_rows_index [OF len]
    by (auto simp: len new_task_def split: option.splits)
  moreover have "row_inv ?t"
    by (simp add: row_inv_def new_task_def split: option.splits)
  moreover have "log_inv ?t ?ss (map (\<lambda>ev. (e_type ev, e_payload ev)) evs)"
    using d'(4) step_rows_task
    by (fastforce simp: log_inv_def new_task_def terminal_log_def claims_logged_def starts_logged_def
        filter_empty_conv split: option.splits)
  ultimately have inv: "task_inv (?t, ?ss, map (\<lambda>ev. (e_type ev, e_payload ev)) evs)"
    by (simp add: task_inv_def)
  have "task_inv v" if v: "view_of j d' = Some v" for j v
  proof (cases "j = tid")
    case True
    with v new inv show ?thesis by (simp add: view_of_def)
  next
    case False
    with v old have "view_of j d = Some v" by simp
    with w show ?thesis by blast
  qed
  then show ?thesis
    using w dist fresh' id def step_rows_task d' unfolding wf_db_def by auto
qed


lemma perform_wf: "wf_db d \<Longrightarrow> valid_action a \<Longrightarrow> wf_db (perform st a d)"
proof -
  assume wf: "wf_db d" and a: "valid_action a"
  then have "distinct (map t_id (tasks d))" by (simp add: wf_db_def)
  from perform_cases [OF this a, of st] show "wf_db (perform st a d)"
  proof (elim disjE exE)
    assume "perform st a d = d"
    with wf show ?thesis by simp
  next
    assume "creates d (perform st a d)"
    with wf show ?thesis by (auto simp: creates_def intro: create_wf)
  next
    fix i assume "moves st (env_of a) i d (perform st a d)"
    then show ?thesis using wf by (rule moves_wf)
  qed
qed

lemma wf_empty: "wf_db empty_db"
  by (simp add: wf_db_def empty_db_def view_of_def find_task_def row_at_def)

interpretation wf_runs: step_invariant "sys_step st" "\<lambda>s. wf_db (fst s)" for st
  by unfold_locales (auto elim!: sys_stepE intro: perform_wf)

definition reachable :: "store \<Rightarrow> db \<times> time \<Rightarrow> bool" where
  "reachable st s \<longleftrightarrow> (\<exists>now acts. run (sys_step st) (empty_db, now) acts s)"

lemma reachable_wf_db: "reachable st s \<Longrightarrow> wf_db (fst s)"
  unfolding reachable_def using wf_runs.run_keeps wf_empty by fastforce

lemma reachable_run: "reachable st s \<Longrightarrow> run (sys_step st) s acts s' \<Longrightarrow> reachable st s'"
  unfolding reachable_def using run_append by metis

section \<open>One step seen from one task\<close>

lemma creates_view: "creates d d' \<Longrightarrow> wf_db d \<Longrightarrow> view_of i d = Some v \<Longrightarrow> view_of i d' = Some v"
proof -
  assume "creates d d'" and wf: "wf_db d" and v: "view_of i d = Some v"
  then obtain e tid new_id td r where c: "create_body e tid new_id td d = Commit d' r"
    by (auto simp: creates_def)
  from create_body_Commit [OF c] obtain evs where fresh: "find_task tid d = None"
      and d': "tasks d' = tasks d @ [new_task e tid td]"
        "steps d' = steps d @ step_rows new_id tid 0 (td_steps td)" "events d' = events d @ evs"
        "\<forall>ev \<in> set evs. e_task_id ev = tid"
    by blast
  from v fresh have i: "i \<noteq> tid" by (auto simp: view_of_def)
  have "filter (\<lambda>s. s_task_id s = i) (step_rows new_id tid 0 (td_steps td)) = []"
    using i step_rows_task by (fastforce simp: filter_empty_conv)
  moreover have "filter (\<lambda>ev. e_task_id ev = i) evs = []"
    using i d'(4) by (auto simp: filter_empty_conv)
  ultimately show ?thesis
    using v by (auto simp: view_of_def find_task_def row_at_append row_at_single d' steps_of_def
        log_of_def events_of_def split: option.splits)
qed

lemma step_view:
  assumes "sys_step st a (d, now) (d', now')" and wf: "wf_db d" and v: "view_of i d = Some v"
  shows "\<exists>v'. view_of i d' = Some v' \<and> (v' = v \<or> task_move st (env_of a) v v')"
proof -
  from assms(1) have a: "valid_action a" and d': "d' = perform st a d"
    by (auto elim: sys_stepE)
  from wf have "distinct (map t_id (tasks d))" by (simp add: wf_db_def)
  from perform_cases [OF this a, of st] show ?thesis
  proof (elim disjE exE)
    assume "perform st a d = d"
    with v d' show ?thesis by simp
  next
    assume "creates d (perform st a d)"
    with wf v d' creates_view show ?thesis by blast
  next
    fix j assume m: "moves st (env_of a) j d (perform st a d)"
    show ?thesis
    proof (cases "j = i")
      case True
      with m v d' show ?thesis by (auto simp: moves_def)
    next
      case False
      from m have "frame j d (perform st a d)" by (simp add: moves_def)
      with False frame_other v d' show ?thesis by simp
    qed
  qed
qed

section \<open>Reading a well-formed database\<close>

lemma view_of_find: "find_task i d = Some t \<Longrightarrow> view_of i d = Some (t, steps_of i d, log_of i d)"
  by (simp add: view_of_def)

lemma view_of_parts: "view_of i d = Some v \<Longrightarrow>
    find_task i d = Some (fst v) \<and> steps_of i d = fst (snd v) \<and> log_of i d = snd (snd v)"
  by (auto simp: view_of_def)

lemma steps_task: "wf_db d \<Longrightarrow> s \<in> set (steps_of i d) \<Longrightarrow> \<exists>t. find_task i d = Some t"
proof -
  assume "wf_db d" "s \<in> set (steps_of i d)"
  then have "i \<in> t_id ` set (tasks d)" by (auto simp: wf_db_def steps_of_def)
  then have "find_task i d \<noteq> None" unfolding find_task_def row_at_None by simp
  then show ?thesis by auto
qed

lemma wf_row: "wf_db d \<Longrightarrow> find_task i d = Some t \<Longrightarrow>
    steps_inv t (steps_of i d) \<and> row_inv t \<and> log_inv t (steps_of i d) (log_of i d)"
  using wf_task_inv [OF _ view_of_find] by (auto simp: task_inv_def)

lemma run_wf: "run (sys_step st) (d, now) acts (d', now') \<Longrightarrow> wf_db d \<Longrightarrow> wf_db d'"
  using wf_runs.run_keeps by fastforce

lemma same_step: "wf_db d \<Longrightarrow> s \<in> set (steps_of i d) \<Longrightarrow> s' \<in> set (steps_of j d) \<Longrightarrow>
    s_id s' = s_id s \<Longrightarrow> s' = s"
  by (auto simp: wf_db_def steps_of_def distinct_map dest: inj_onD)

text \<open>
  A property of one task that no move undoes and no passing of time undoes holds for ever: the
  contract, and what it gives for runs of the whole store.
\<close>

locale lasting =
  fixes st :: store and i :: string and Q :: "time \<Rightarrow> view \<Rightarrow> bool"
  assumes move_keeps: "clock_ok now e \<Longrightarrow> task_move st e v v' \<Longrightarrow> task_inv v \<Longrightarrow> Q now v \<Longrightarrow>
      Q (clk e 10) v'"
    and time_keeps: "Q now v \<Longrightarrow> now \<le> now' \<Longrightarrow> Q now' v"

definition holds_of :: "string \<Rightarrow> (time \<Rightarrow> view \<Rightarrow> bool) \<Rightarrow> db \<times> time \<Rightarrow> bool" where
  "holds_of i Q s \<longleftrightarrow> wf_db (fst s) \<and> (\<exists>v. view_of i (fst s) = Some v \<and> Q (snd s) v)"

lemma clock_ok_le: "clock_ok now e \<Longrightarrow> now \<le> clk e k"
  by (auto simp: clock_ok_def mono_def intro: order_trans [of now "clk e 0"])

sublocale lasting \<subseteq> step_invariant "sys_step st" "holds_of i Q"
proof
  fix a s s'
  assume step: "sys_step st a s s'" and h: "holds_of i Q s"
  obtain d now d' now' where s: "s = (d, now)" "s' = (d', now')" by (cases s; cases s') auto
  from h s obtain v where wf: "wf_db d" and v: "view_of i d = Some v" and q: "Q now v"
    by (auto simp: holds_of_def)
  from step s have c: "clock_ok now (env_of a)" and now': "now' = clk (env_of a) 10"
      and "valid_action a" "d' = perform st a d"
    by (auto elim: sys_stepE)
  then have wf': "wf_db d'" using wf by (simp add: perform_wf)
  from step_view [OF step [unfolded s] wf v] obtain v' where v': "view_of i d' = Some v'"
      and mv: "v' = v \<or> task_move st (env_of a) v v'"
    by blast
  have inv: "task_inv v" using wf v by (rule wf_task_inv)
  from mv have "Q now' v'"
  proof
    assume "v' = v"
    with q time_keeps [of now v now'] clock_ok_le [OF c] now' show ?thesis by simp
  next
    assume "task_move st (env_of a) v v'"
    with move_keeps [OF c _ inv q] now' show ?thesis by simp
  qed
  with wf' v' s show "holds_of i Q s'" by (simp add: holds_of_def)
qed

context lasting
begin

lemma lasts: "run (sys_step st) (d, now) acts (d', now') \<Longrightarrow> wf_db d \<Longrightarrow> view_of i d = Some v \<Longrightarrow>
    Q now v \<Longrightarrow> \<exists>v'. view_of i d' = Some v' \<and> Q now' v'"
  using run_keeps [of "(d, now)" acts "(d', now')"] by (auto simp: holds_of_def)

end

end
