(* ===== verification/Store_Lasting.thy ===== *)
theory Store_Lasting
  imports Store_System
begin

text \<open>
  The facts of a task that last: each is an interpretation of the contract \<open>lasting\<close> on the
  store's own transitions, so it holds after any run of operations of any clients.
\<close>

section \<open>Facts that no move undoes\<close>

definition frozen :: "view \<Rightarrow> time \<Rightarrow> view \<Rightarrow> bool" where
  "frozen v0 now v \<longleftrightarrow> v = v0 \<and> is_terminal_status (t_status (fst v0))"

definition step_done :: "step \<Rightarrow> time \<Rightarrow> view \<Rightarrow> bool" where
  "step_done s now v \<longleftrightarrow> s_status s = StepSucceeded \<and> s \<in> set (fst (snd v))"

definition deadline_is :: "time \<Rightarrow> time \<Rightarrow> time \<Rightarrow> view \<Rightarrow> bool" where
  "deadline_is f dl now v \<longleftrightarrow>
     t_first_started_at (fst v) = Some f \<and> t_deadline_at (fst v) = Some dl"

definition input_is :: "string \<Rightarrow> json \<Rightarrow> time \<Rightarrow> view \<Rightarrow> bool" where
  "input_is sid r now v \<longleftrightarrow>
     (\<exists>s \<in> set (fst (snd v)). s_id s = sid \<and> s_resolved_input s = Some r)"

definition decision_is :: "string \<Rightarrow> string \<Rightarrow> time \<Rightarrow> view \<Rightarrow> bool" where
  "decision_is sid decision now v \<longleftrightarrow>
     (\<exists>s \<in> set (fst (snd v)). s_id s = sid \<and> s_approval_decision s = Some decision)"

definition version_from :: "nat \<Rightarrow> time \<Rightarrow> view \<Rightarrow> bool" where
  "version_from n now v \<longleftrightarrow> n \<le> t_lease_version (fst v)"

text \<open>The lease with version \<open>n\<close> is over: superseded, given up, or past its expiry.\<close>

definition lease_over :: "nat \<Rightarrow> time \<Rightarrow> view \<Rightarrow> bool" where
  "lease_over n now v \<longleftrightarrow>
     n < t_lease_version (fst v) \<or>
     (n = t_lease_version (fst v) \<and>
      (case t_lease_expires_at (fst v) of None \<Rightarrow> True | Some x \<Rightarrow> x \<le> now))"

definition cancelling :: "nat \<Rightarrow> time \<Rightarrow> view \<Rightarrow> bool" where
  "cancelling k now v \<longleftrightarrow> t_cancel_requested (fst v) \<and> t_current_step (fst v) = k"

text \<open>Attempt \<open>n\<close> of a step has ended: the step runs a later attempt or does not run.\<close>

definition attempt_over :: "string \<Rightarrow> nat \<Rightarrow> time \<Rightarrow> view \<Rightarrow> bool" where
  "attempt_over sid n now v \<longleftrightarrow>
     (\<exists>s \<in> set (fst (snd v)). s_id s = sid \<and>
        (n < s_attempt s \<or> (n = s_attempt s \<and> s_status s \<noteq> StepRunning)))"

lemmas lasting_defs = attempt_over_def frozen_def step_done_def deadline_is_def input_is_def decision_is_def
  version_from_def lease_over_def cancelling_def

section \<open>Terminal tasks do not move\<close>

lemma terminal_no_move: "task_move st e v v' \<Longrightarrow> \<not> is_terminal_status (t_status (fst v))"
  by (induction rule: task_move.induct) (auto simp: live_lease_def)

interpretation frozen: lasting st i "frozen v0" for st i v0
  by unfold_locales (auto simp: frozen_def dest: terminal_no_move)

section \<open>Steps\<close>

lemma row_projections [simp]:
  "s_id (lose_step u s) = s_id s" "s_id (start_step_row u r s) = s_id s"
  "s_id (wait_step_row u r s) = s_id s" "s_id (approve_step u s) = s_id s"
  "s_id (reject_step u s) = s_id s" "s_id (fail_step_row u x s) = s_id s"
  "s_id (succeed_step u y s) = s_id s"
  "s_resolved_input (lose_step u s) = s_resolved_input s"
  "s_resolved_input (start_step_row u r s) = Some r"
  "s_resolved_input (wait_step_row u r s) = Some r"
  "s_resolved_input (approve_step u s) = s_resolved_input s"
  "s_resolved_input (reject_step u s) = s_resolved_input s"
  "s_resolved_input (fail_step_row u x s) = s_resolved_input s"
  "s_resolved_input (succeed_step u y s) = s_resolved_input s"
  "s_approval_decision (lose_step u s) = s_approval_decision s"
  "s_approval_decision (start_step_row u r s) = s_approval_decision s"
  "s_approval_decision (wait_step_row u r s) = s_approval_decision s"
  "s_approval_decision (fail_step_row u x s) = s_approval_decision s"
  "s_approval_decision (succeed_step u y s) = s_approval_decision s"
  "s_attempt (lose_step u s) = s_attempt s" "s_attempt (start_step_row u r s) = Suc (s_attempt s)"
  "s_attempt (wait_step_row u r s) = s_attempt s" "s_attempt (approve_step u s) = s_attempt s"
  "s_attempt (reject_step u s) = s_attempt s" "s_attempt (fail_step_row u x s) = s_attempt s"
  "s_attempt (succeed_step u y s) = s_attempt s"
  "s_status (lose_step u s) = StepFailed" "s_status (start_step_row u r s) = StepRunning"
  "s_status (wait_step_row u r s) = StepWaitingApproval" "s_status (approve_step u s) = StepSucceeded"
  "s_status (reject_step u s) = StepFailed" "s_status (fail_step_row u x s) = StepFailed"
  "s_status (succeed_step u y s) = StepSucceeded"
  by (simp_all add: move_rows)

text \<open>A move changes at most one step, which is not a succeeded one.\<close>

lemma move_steps: "task_move st e v v' \<Longrightarrow> task_inv v \<Longrightarrow>
    fst (snd v') = fst (snd v) \<or>
    (\<exists>s g. s \<in> set (fst (snd v)) \<and> s_status s \<noteq> StepSucceeded \<and>
       fst (snd v') = set_step (s_id s) g (fst (snd v)) \<and>
       (\<forall>x. s_id (g x) = s_id x) \<and>
       (s_resolved_input s \<noteq> None \<longrightarrow> s_resolved_input (g s) = s_resolved_input s) \<and>
       (s_approval_decision s \<noteq> None \<longrightarrow> s_approval_decision (g s) = s_approval_decision s) \<and>
       s_attempt s \<le> s_attempt (g s) \<and>
       (s_status (g s) = StepRunning \<longrightarrow> s_attempt s < s_attempt (g s)))"
proof (induction rule: task_move.induct)
  case (mv_takeover_lost t ss s log w u p x q r)
  then show ?case
    by (intro disjI2 exI [of _ s] exI [of _ "lose_step u"])
      (auto dest: current_of_Some)
next
  case (mv_exhausted t ss s log u v p x q)
  then show ?case
    by (intro disjI2 exI [of _ s] exI [of _ "lose_step v"])
      (auto dest: current_of_Some)
next
  case (mv_start t lease s ss resolved p log u)
  then show ?case
    by (intro disjI2 exI [of _ s] exI [of _ "start_step_row u resolved"]) auto
next
  case (mv_wait t lease s ss resolved log v u p)
  then show ?case
    by (intro disjI2 exI [of _ s] exI [of _ "wait_step_row u resolved"]) auto
next
  case (mv_approve t s ss status log v u p)
  then show ?case
    by (intro disjI2 exI [of _ s] exI [of _ "approve_step u"]) auto
next
  case (mv_reject t s ss log v u p)
  then show ?case
    by (intro disjI2 exI [of _ s] exI [of _ "reject_step u"]) auto
next
  case (mv_retry t lease s ss delay log v u reason p q)
  then show ?case
    by (intro disjI2 exI [of _ s] exI [of _ "fail_step_row u reason"]) auto
next
  case (mv_fail t lease s ss log v u reason p)
  then show ?case
    by (intro disjI2 exI [of _ s] exI [of _ "fail_step_row u reason"]) auto
next
  case (mv_succeed t lease s ss log c v u outv p)
  then show ?case
    by (intro disjI2 exI [of _ s] exI [of _ "succeed_step u outv"]) auto
next
  case (mv_complete t lease s ss log v c u outv p)
  then show ?case
    by (intro disjI2 exI [of _ s] exI [of _ "succeed_step u outv"]) auto
next
  case (mv_control t outcome k ss s log v u p q)
  then show ?case
    by (intro disjI2 exI [of _ s] exI [of _ "fail_step_row u (co_reason outcome)"])
      (auto dest: current_of_Some)
qed simp_all

lemma set_step_mem: "x \<in> set ss \<Longrightarrow> s_id x \<noteq> sid \<Longrightarrow> x \<in> set (set_step sid g ss)"
  by (force simp: set_step_def)

lemma set_step_image: "x \<in> set ss \<Longrightarrow> s_id x = sid \<Longrightarrow> g x \<in> set (set_step sid g ss)"
  by (force simp: set_step_def)

lemma same_id: "task_inv v \<Longrightarrow> s \<in> set (fst (snd v)) \<Longrightarrow> x \<in> set (fst (snd v)) \<Longrightarrow>
    s_id x = s_id s \<Longrightarrow> x = s"
proof -
  assume "task_inv v" "s \<in> set (fst (snd v))" "x \<in> set (fst (snd v))" "s_id x = s_id s"
  moreover from this(1) have "distinct (map s_id (fst (snd v)))"
    by (auto simp: task_inv_def steps_inv_def)
  ultimately show "x = s" by (auto simp: distinct_map dest: inj_onD)
qed

lemma succeeded_kept:
  assumes mv: "task_move st e v v'" and inv: "task_inv v"
    and x: "x \<in> set (fst (snd v))" "s_status x = StepSucceeded"
  shows "x \<in> set (fst (snd v'))"
  using move_steps [OF mv inv]
proof (elim disjE exE conjE)
  assume "fst (snd v') = fst (snd v)"
  with x show ?thesis by simp
next
  fix s g
  assume s: "s \<in> set (fst (snd v))" "s_status s \<noteq> StepSucceeded"
    and eq: "fst (snd v') = set_step (s_id s) g (fst (snd v))"
  from x s same_id [OF inv s(1) x(1)] have "s_id x \<noteq> s_id s" by auto
  from set_step_mem [OF x(1) this] eq show ?thesis by simp
qed

interpretation step_done: lasting st i "step_done s" for st i s
  by unfold_locales (auto simp: step_done_def dest: succeeded_kept)

lemma kept_by_move:
  assumes mv: "task_move st e v v'" and inv: "task_inv v"
    and x: "x \<in> set (fst (snd v))"
  shows "\<exists>y \<in> set (fst (snd v')). s_id y = s_id x \<and>
    (s_resolved_input x \<noteq> None \<longrightarrow> s_resolved_input y = s_resolved_input x) \<and>
    (s_approval_decision x \<noteq> None \<longrightarrow> s_approval_decision y = s_approval_decision x) \<and>
    s_attempt x \<le> s_attempt y \<and>
    (s_status y = StepRunning \<longrightarrow> s_attempt x < s_attempt y \<or> y = x)"
  using move_steps [OF mv inv]
proof (elim disjE exE conjE)
  assume "fst (snd v') = fst (snd v)"
  with x show ?thesis by auto
next
  fix s g
  assume s: "s \<in> set (fst (snd v))" and eq: "fst (snd v') = set_step (s_id s) g (fst (snd v))"
    and g: "\<forall>x. s_id (g x) = s_id x"
      "s_resolved_input s \<noteq> None \<longrightarrow> s_resolved_input (g s) = s_resolved_input s"
      "s_approval_decision s \<noteq> None \<longrightarrow> s_approval_decision (g s) = s_approval_decision s"
      "s_attempt s \<le> s_attempt (g s)" "s_status (g s) = StepRunning \<longrightarrow> s_attempt s < s_attempt (g s)"
  show ?thesis
  proof (cases "s_id x = s_id s")
    case True
    with same_id [OF inv s x] have "x = s" by simp
    with x g eq set_step_image [OF x, of "s_id s" g] show ?thesis by auto
  next
    case False
    with x eq set_step_mem [OF x, of "s_id s" g] show ?thesis by auto
  qed
qed

interpretation input_is: lasting st i "input_is sid r" for st i sid r
proof
  fix now e v v'
  assume "task_move st e v v'" "task_inv v" "input_is sid r now v"
  then show "input_is sid r (clk e 10) v'"
    by (auto simp: input_is_def dest!: kept_by_move)
qed (simp add: input_is_def)

interpretation decision_is: lasting st i "decision_is sid x" for st i sid x
proof
  fix now e v v'
  assume "task_move st e v v'" "task_inv v" "decision_is sid x now v"
  then show "decision_is sid x (clk e 10) v'"
    by (auto simp: decision_is_def dest!: kept_by_move)
qed (simp add: decision_is_def)

interpretation attempt_over: lasting st i "attempt_over sid n" for st i sid n
proof
  fix now e v v'
  assume mv: "task_move st e v v'" "task_inv v" and over: "attempt_over sid n now v"
  then obtain s where s: "s \<in> set (fst (snd v))" "s_id s = sid"
      "n < s_attempt s \<or> (n = s_attempt s \<and> s_status s \<noteq> StepRunning)"
    by (auto simp: attempt_over_def)
  from kept_by_move [OF mv s(1)] obtain y where "y \<in> set (fst (snd v'))" "s_id y = s_id s"
      "s_attempt s \<le> s_attempt y" "s_status y = StepRunning \<longrightarrow> s_attempt s < s_attempt y \<or> y = s"
    by blast
  with s(2,3) show "attempt_over sid n (clk e 10) v'"
    unfolding attempt_over_def by (intro bexI [of _ y]) auto
qed (simp add: attempt_over_def)

section \<open>The row\<close>

interpretation deadline_is: lasting st i "deadline_is f dl" for st i f dl
proof
  fix now e v v'
  assume "task_move st e v v'" "deadline_is f dl now v"
  then show "deadline_is f dl (clk e 10) v'"
    by (induction rule: task_move.induct) (auto simp: deadline_is_def move_rows)
qed (simp add: deadline_is_def)

interpretation version_from: lasting st i "version_from n" for st i n
proof
  fix now e v v'
  assume "task_move st e v v'" "version_from n now v"
  then show "version_from n (clk e 10) v'"
    by (induction rule: task_move.induct) (auto simp: version_from_def move_rows)
qed (simp add: version_from_def)

interpretation lease_over: lasting st i "lease_over n" for st i n
proof
  fix now e v v'
  assume c: "clock_ok now e" and mv: "task_move st e v v'" and over: "lease_over n now v"
  have le: "now \<le> clk e 0" "now \<le> clk e 10" using clock_ok_le [OF c] by auto
  from mv over le show "lease_over n (clk e 10) v'"
    by (induction rule: task_move.induct)
      (auto simp: lease_over_def move_rows live_lease_def split: option.splits)
next
  fix now v now'
  assume "lease_over n now v" "now \<le> now'"
  then show "lease_over n now' v" by (auto simp: lease_over_def split: option.splits)
qed

interpretation cancelling: lasting st i "cancelling k" for st i k
proof
  fix now e v v'
  assume "task_move st e v v'" "cancelling k now v"
  then show "cancelling k (clk e 10) v'"
    by (induction rule: task_move.induct) (auto simp: cancelling_def move_rows claimable_def)
qed (simp add: cancelling_def)

section \<open>The tables grow\<close>

text \<open>Definitions of steps and events are only ever appended.\<close>

definition grown_from :: "db \<Rightarrow> db \<Rightarrow> bool" where
  "grown_from d0 d \<longleftrightarrow>
     (\<exists>cs. map step_definition_columns (steps d) = map step_definition_columns (steps d0) @ cs) \<and>
     (\<exists>evs. events d = events d0 @ evs)"

lemma grown_trans: "grown_from d0 d1 \<Longrightarrow> grown_from d1 d2 \<Longrightarrow> grown_from d0 d2"
  by (auto simp: grown_from_def)

lemma perform_grows: "wf_db d \<Longrightarrow> valid_action a \<Longrightarrow> grown_from d (perform st a d)"
proof -
  assume wf: "wf_db d" and a: "valid_action a"
  then have "distinct (map t_id (tasks d))" by (simp add: wf_db_def)
  from perform_cases [OF this a, of st] show ?thesis
  proof (elim disjE exE)
    assume "creates d (perform st a d)"
    then show ?thesis
      by (auto simp: creates_def grown_from_def dest!: create_body_Commit)
  qed (auto simp: grown_from_def moves_def frame_def)
qed

interpretation growth: step_invariant "sys_step st" "\<lambda>s. wf_db (fst s) \<and> grown_from d0 (fst s)" for st d0
  by unfold_locales (auto elim!: sys_stepE intro: perform_wf grown_trans [OF _ perform_grows])

end
