(* ===== verification/Store_Owner.thy ===== *)
theory Store_Owner
  imports Store_Lasting
begin

text \<open>
  The contract of the operations a worker calls with its lease token: they change the database
  only while the lease is live, and then by one move of the task the token names. Operations
  that go on with the task ask in addition that it is neither cancelled nor overdue. Every
  such operation of the store provides it.
\<close>

section \<open>The contract\<close>

locale owner_operation =
  fixes st :: store and oper :: "env \<Rightarrow> lease_token \<Rightarrow> db \<Rightarrow> db \<times> (err + 'a)"
  assumes fenced: "fst (oper e lease d) \<noteq> d \<Longrightarrow>
      \<exists>t. find_task (lt_task_id lease) d = Some t \<and> live_lease (clk e 0) t lease"
    and one_move: "fst (oper e lease d) \<noteq> d \<Longrightarrow> moves st e (lt_task_id lease) d (fst (oper e lease d))"

locale progress_operation = owner_operation +
  assumes admitted: "oper e lease d = (d', Inr x) \<Longrightarrow>
      \<exists>t. find_task (lt_task_id lease) d = Some t \<and> live_lease (clk e 0) t lease \<and>
        \<not> t_cancel_requested t \<and> \<not> overdue (clk e 0) t"
    and guarded: "fst (oper e lease d) \<noteq> d \<Longrightarrow>
      \<exists>t. find_task (lt_task_id lease) d = Some t \<and>
        \<not> t_cancel_requested t \<and> \<not> overdue (clk e 0) t"

context owner_operation
begin

lemma over_no_effect:
  assumes "view_of (lt_task_id lease) d = Some v" "lease_over (lt_lease_version lease) now v"
    and "now \<le> clk e 0"
  shows "fst (oper e lease d) = d"
proof (rule ccontr)
  assume "fst (oper e lease d) \<noteq> d"
  from fenced [OF this] assms show False
    by (auto simp: view_of_def lease_over_def live_lease_def)
qed

lemma others_untouched: "j \<noteq> lt_task_id lease \<Longrightarrow> view_of j (fst (oper e lease d)) = view_of j d"
  using one_move [of e lease d] frame_other by (cases "fst (oper e lease d) = d") (auto simp: moves_def)

lemma not_running_no_effect: "find_task (lt_task_id lease) d = Some t \<Longrightarrow> t_status t \<noteq> StatusRunning \<Longrightarrow>
    fst (oper e lease d) = d"
  using fenced [of e lease d] by (auto simp: live_lease_def)

end

context progress_operation
begin

lemma cancelled_no_progress: "find_task (lt_task_id lease) d = Some t \<Longrightarrow> t_cancel_requested t \<Longrightarrow>
    fst (oper e lease d) = d \<and> (\<exists>x. snd (oper e lease d) = Inl x)"
  using guarded [of e lease d] admitted [of e lease d]
  by (cases "snd (oper e lease d)") (auto simp: prod_eq_iff)

lemma overdue_no_progress: "find_task (lt_task_id lease) d = Some t \<Longrightarrow> overdue (clk e 0) t \<Longrightarrow>
    fst (oper e lease d) = d \<and> (\<exists>x. snd (oper e lease d) = Inl x)"
  using guarded [of e lease d] admitted [of e lease d]
  by (cases "snd (oper e lease d)") (auto simp: prod_eq_iff)

lemma over_refused:
  assumes "view_of (lt_task_id lease) d = Some v" "lease_over (lt_lease_version lease) now v"
    and "now \<le> clk e 0"
  shows "\<exists>x. snd (oper e lease d) = Inl x"
proof (cases "snd (oper e lease d)")
  case (Inr x)
  with admitted [of e lease d "fst (oper e lease d)" x] assms show ?thesis
    by (auto simp: view_of_def lease_over_def live_lease_def prod_eq_iff)
qed simp

end

section \<open>The operations that provide it\<close>

lemma run_tx_commits: "fst (run_tx e d x) \<noteq> d \<Longrightarrow> \<exists>r. x = Commit (fst (run_tx e d x)) r"
  using run_tx_fst [of e d x] by auto

lemma fact_check_commits: "fst (commit_with_fact_check e d c x) \<noteq> d \<Longrightarrow>
    \<exists>r. x = Commit (fst (commit_with_fact_check e d c x)) r"
  using fact_check_fst [of e d c x] by auto

lemma run_tx_Inr: "run_tx e d x = (d', Inr r) \<Longrightarrow> x = Rollback (Inr r) \<or> x = Commit d' (Inr r)"
  by (cases x) (auto split: if_splits fault.splits)

lemma fact_check_Inr: "commit_with_fact_check e d c x = (d', Inr r) \<Longrightarrow>
    x = Rollback (Inr r) \<or> (\<exists>d''. x = Commit d'' (Inr r))"
  by (cases x) (auto split: if_splits fault.splits)

text \<open>The guard of each body: what a return without rejection needs.\<close>

definition admits :: "env \<Rightarrow> lease_token \<Rightarrow> db \<Rightarrow> bool" where
  "admits e lease d \<longleftrightarrow>
     (\<exists>t. find_task (lt_task_id lease) d = Some t \<and> live_lease (clk e 0) t lease \<and>
        \<not> t_cancel_requested t \<and> \<not> overdue (clk e 0) t)"

lemma renew_admits: "renew_body st e lease d = Commit d' r \<Longrightarrow> admits e lease d"
  "renew_body st e lease d \<noteq> Rollback (Inr x)"
  by (auto simp: renew_body_def lock_owned_Inr admits_def split: sum.splits)

lemma start_admits: "start_body e lease sid d = Commit d' r \<Longrightarrow> admits e lease d"
  "start_body e lease sid d \<noteq> Rollback (Inr x)"
  by (auto simp: start_body_def lock_owned_Inr admits_def Let_def
      split: sum.splits option.splits if_splits)

lemma wait_admits: "wait_body e lease sid d = Commit d' r \<Longrightarrow> admits e lease d"
  "wait_body e lease sid d \<noteq> Rollback (Inr x)"
  by (auto simp: wait_body_def lock_owned_Inr admits_def Let_def
      split: sum.splits option.splits if_splits)

lemma finish_parts_no_return: "finish_failed e lease a out d \<noteq> Rollback (Inr x)"
  "finish_succeeded e lease a out i d \<noteq> Rollback (Inr x)"
  by (auto simp: finish_failed_def finish_succeeded_def Let_def split: option.splits)

lemma finish_lock: "finish_body e lease a out d = Rollback (Inr x) \<or> finish_body e lease a out d = Commit d' r
    \<Longrightarrow> \<exists>lk. lock_owned_task (clk e 0) d lease = Inr lk"
  by (auto simp: finish_body_def lock_owned_task_def split: sum.splits)

lemma finish_admits: "finish_body e lease a out d = Commit d' r \<Longrightarrow> admits e lease d"
  "finish_body e lease a out d \<noteq> Rollback (Inr x)"
proof -
  show "finish_body e lease a out d = Commit d' r \<Longrightarrow> admits e lease d"
    using finish_lock [of e lease a out d undefined d' r] by (auto simp: lock_owned_Inr admits_def)
  show "finish_body e lease a out d \<noteq> Rollback (Inr x)"
    by (auto simp: finish_body_def finish_parts_no_return Let_def split: sum.splits option.splits)
qed

lemma progress_tx:
  assumes "\<And>e lease d d' r. body e lease d = Commit d' r \<Longrightarrow> admits e lease d"
    and "\<And>e lease d x. body e lease d \<noteq> Rollback (Inr x)"
    and "\<And>e lease d d' r. body e lease d = Commit d' r \<Longrightarrow> moves st e (lt_task_id lease) d d'"
    and "\<And>e lease d. fst (oper e lease d) \<noteq> d \<Longrightarrow> \<exists>r. body e lease d = Commit (fst (oper e lease d)) r"
    and "\<And>e lease d d' x. oper e lease d = (d', Inr x) \<Longrightarrow>
      body e lease d = Rollback (Inr x) \<or> (\<exists>d''. body e lease d = Commit d'' (Inr x))"
  shows "progress_operation st oper"
proof
  fix e lease d
  assume "fst (oper e lease d) \<noteq> d"
  then obtain r where c: "body e lease d = Commit (fst (oper e lease d)) r" using assms(4) by blast
  show "moves st e (lt_task_id lease) d (fst (oper e lease d))" by (rule assms(3) [OF c])
  from assms(1) [OF c] show "\<exists>t. find_task (lt_task_id lease) d = Some t \<and> live_lease (clk e 0) t lease"
    and "\<exists>t. find_task (lt_task_id lease) d = Some t \<and> \<not> t_cancel_requested t \<and> \<not> overdue (clk e 0) t"
    by (auto simp: admits_def)
next
  fix e lease d d' x
  assume "oper e lease d = (d', Inr x)"
  then obtain d'' where "body e lease d = Commit d'' (Inr x)" using assms(2,5) by blast
  from assms(1) [OF this] show "\<exists>t. find_task (lt_task_id lease) d = Some t \<and>
      live_lease (clk e 0) t lease \<and> \<not> t_cancel_requested t \<and> \<not> overdue (clk e 0) t"
    by (simp add: admits_def)
qed

interpretation renew: progress_operation st "renew_lease st" for st
  by (rule progress_tx [of "renew_body st"])
    (auto simp: renew_lease_def renew_admits renew_moves dest: run_tx_commits run_tx_Inr)

interpretation start: progress_operation st "\<lambda>e lease. start_step e lease sid" for st sid
  by (rule progress_tx [of "\<lambda>e lease. start_body e lease sid"])
    (auto simp: start_step_def Let_def start_admits start_moves dest: fact_check_commits fact_check_Inr)

interpretation await: progress_operation st "\<lambda>e lease. wait_for_approval e lease sid" for st sid
  by (rule progress_tx [of "\<lambda>e lease. wait_body e lease sid"])
    (auto simp: wait_for_approval_def wait_admits wait_moves dest: fact_check_commits fact_check_Inr)

interpretation finish: progress_operation st "\<lambda>e lease. finish_step e lease a out" for st a out
  by (rule progress_tx [of "\<lambda>e lease. finish_body e lease a out"])
    (auto simp: finish_step_def Let_def finish_admits finish_moves dest: fact_check_commits fact_check_Inr)

lemma timeout_owned_fenced: "timeout_owned_body e lease d = Commit d' r \<Longrightarrow>
    \<exists>t. find_task (lt_task_id lease) d = Some t \<and> live_lease (clk e 0) t lease"
  by (auto simp: timeout_owned_body_def lock_task_Inr owns_active_lease_def live_lease_def
      split: sum.splits option.splits if_splits)

lemma cancel_owned_fenced: "cancel_owned_body e lease d = Commit d' r \<Longrightarrow>
    \<exists>t. find_task (lt_task_id lease) d = Some t \<and> live_lease (clk e 0) t lease"
  by (auto simp: cancel_owned_body_def lock_task_Inr owns_active_lease_def live_lease_def
      split: sum.splits option.splits if_splits)

interpretation timeout: owner_operation st timeout_owned_task for st
  by unfold_locales
    (auto simp: timeout_owned_task_def dest!: run_tx_commits intro: timeout_owned_fenced timeout_owned_moves)

interpretation cancel: owner_operation st cancel_owned_task for st
  by unfold_locales
    (auto simp: cancel_owned_task_def dest!: run_tx_commits intro: cancel_owned_fenced cancel_owned_moves)

section \<open>All actions of an owner\<close>

fun token_of :: "action \<Rightarrow> lease_token option" where
  "token_of (RenewLease e lease) = Some lease"
| "token_of (StartStep e lease sid) = Some lease"
| "token_of (WaitForApproval e lease sid) = Some lease"
| "token_of (FinishStep e lease a out) = Some lease"
| "token_of (TimeoutOwnedTask e lease) = Some lease"
| "token_of (CancelOwnedTask e lease) = Some lease"
| "token_of _ = None"

lemmas over_no_effect = renew.over_no_effect start.over_no_effect await.over_no_effect
  finish.over_no_effect timeout.over_no_effect cancel.over_no_effect

lemma over_action: "token_of a = Some lease \<Longrightarrow> view_of (lt_task_id lease) d = Some v \<Longrightarrow>
    lease_over (lt_lease_version lease) now v \<Longrightarrow> now \<le> clk (env_of a) 0 \<Longrightarrow> perform st a d = d"
  by (cases a) (simp_all add: over_no_effect [of lease d v now])

lemma superseded_action: "token_of a = Some lease \<Longrightarrow> view_of (lt_task_id lease) d = Some v \<Longrightarrow>
    version_from (Suc (lt_lease_version lease)) now v \<Longrightarrow> perform st a d = d"
  by (rule over_action [where now = "clk (env_of a) 0"]) (auto simp: version_from_def lease_over_def)

end
