(* ===== verification/Store_Confirm.thy ===== *)
theory Store_Confirm
  imports Store_Owner
begin

text \<open>
  The contract of the operations that end in \<open>commitWithFactCheck\<close>: the query that confirms a
  commit holds after the transaction and not before it. Then a commit whose response is lost is
  invisible to the caller, and one that was refused is not taken for a success.
\<close>

section \<open>The contract\<close>

locale confirmed_operation =
  fixes body :: "env \<Rightarrow> db \<Rightarrow> 'a txn" and confirm :: "env \<Rightarrow> db \<Rightarrow> db \<Rightarrow> bool"
  assumes confirms: "wf_db d \<Longrightarrow> body e d = Commit d' r \<Longrightarrow> confirm e d d'"
    and refutes: "wf_db d \<Longrightarrow> body e d = Commit d' r \<Longrightarrow> \<not> confirm e d d"
    and fault_free: "body (e\<lparr>fault := f\<rparr>) d = body e d" "confirm (e\<lparr>fault := f\<rparr>) d = confirm e d"
begin

definition oper :: "env \<Rightarrow> db \<Rightarrow> db \<times> (err + 'a)" where
  "oper e d = commit_with_fact_check e d (confirm e d) (body e d)"

lemma lost_answered: "wf_db d \<Longrightarrow> fault e = CommitLost \<Longrightarrow> \<not> later_fails e \<Longrightarrow> later e = (\<lambda>x. x) \<Longrightarrow>
    oper e d = oper (e\<lparr>fault := NoFault\<rparr>) d"
  by (cases "body e d") (auto simp: oper_def fault_free dest: confirms)

lemma refused_reported: "wf_db d \<Longrightarrow> fault e = CommitRejected \<Longrightarrow> later e = (\<lambda>x. x) \<Longrightarrow>
    fst (oper e d) = d \<and> (\<forall>d' r. body e d = Commit d' r \<longrightarrow> oper e d = (d, Inl ErrDatabase))"
  by (cases "body e d") (auto simp: oper_def dest: refutes)

lemma refused_error: "wf_db d \<Longrightarrow> fault e = CommitRejected \<Longrightarrow> later e = (\<lambda>x. x) \<Longrightarrow>
    (\<And>x. body e d \<noteq> Rollback (Inr x)) \<Longrightarrow> \<exists>x. oper e d = (d, Inl x)"
proof (cases "body e d")
  case (Rollback r)
  assume "\<And>x. body e d \<noteq> Rollback (Inr x)" "fault e = CommitRejected"
  with Rollback show ?thesis by (cases r) (auto simp: oper_def)
qed (use refused_reported in blast)

end

section \<open>The operations that provide it\<close>

lemma set_step_ex: "s \<in> set ss \<Longrightarrow> s_id s = sid \<Longrightarrow> P (g s) \<Longrightarrow> list_ex P (set_step sid g ss)"
  unfolding list_ex_iff using set_step_image by blast

lemma find_step_only: "wf_db d \<Longrightarrow> find_step tid sid d = Some s \<Longrightarrow> x \<in> set (steps_of tid d) \<Longrightarrow>
    s_id x = sid \<Longrightarrow> x = s"
  by (rule same_step [of d s tid x tid]) (auto dest: find_step_mem)

lemma list_ex_only: "list_ex P (steps_of tid d) \<Longrightarrow> wf_db d \<Longrightarrow> find_step tid sid d = Some s \<Longrightarrow>
    (\<And>x. P x \<Longrightarrow> s_id x = sid) \<Longrightarrow> P s"
  using find_step_only unfolding list_ex_iff by metis

text \<open>The bodies read the clock, not the faults.\<close>

lemma clk_fault: "clk (e\<lparr>fault := f\<rparr>) = clk e"
  by simp

lemma body_faults:
  "start_body (e\<lparr>fault := f\<rparr>) lease sid d = start_body e lease sid d"
  "wait_body (e\<lparr>fault := f\<rparr>) lease sid d = wait_body e lease sid d"
  "decide_body (e\<lparr>fault := f\<rparr>) tid sid decision d = decide_body e tid sid decision d"
  "finish_body (e\<lparr>fault := f\<rparr>) lease a out d = finish_body e lease a out d"
  unfolding start_body_def wait_body_def decide_body_def approve_body_def reject_body_def finish_body_def
    finish_failed_def finish_succeeded_def insert_finish_events_def clk_fault
  by (rule refl)+

definition start_confirm :: "lease_token \<Rightarrow> string \<Rightarrow> env \<Rightarrow> db \<Rightarrow> db \<Rightarrow> bool" where
  "start_confirm lease sid e d =
     (case start_body e lease sid d of Commit _ (Inr a) \<Rightarrow> step_start_persisted a | _ \<Rightarrow> (\<lambda>_. False))"

lemma start_body_Commit: "start_body e lease sid d = Commit d' r \<Longrightarrow>
    \<exists>s x. find_step (lt_task_id lease) sid d = Some s \<and> s_status s \<noteq> StepRunning \<and>
      r = Inr (attempt_of s x) \<and>
      d' = insert_event (clk e 2) (lt_task_id lease) STEP_STARTED
        (JObj [(''step_id'', JStr sid), (''step_index'', jnat (s_index s)),
          (''attempt'', jnat (Suc (s_attempt s))), (''worker_id'', JStr (lt_worker_id lease)),
          (''lease_version'', jnat (lt_lease_version lease))])
        (update_step (lt_task_id lease) sid (start_step_row (clk e 1) x) d)"
  by (auto simp: start_body_def Let_def split: sum.splits option.splits if_splits)

lemma persisted_attempt: "step_start_persisted (attempt_of s x) d \<longleftrightarrow>
    list_ex (\<lambda>y. s_id y = s_id s \<and> s_status y = StepRunning \<and> s_attempt y = Suc (s_attempt s) \<and>
      (case s_resolved_input y of None \<Rightarrow> False | Some q \<Rightarrow> jsonb_eq q x) \<and>
      event_recorded d (s_task_id s) STEP_STARTED (s_id s) (Suc (s_attempt s)))
    (steps_of (s_task_id s) d)"
  by (simp add: step_start_persisted_def attempt_of_def cong: option.case_cong)

lemma event_recorded_insert: "event_recorded (insert_event now tid ty p d) tid ty' sid n \<longleftrightarrow>
    event_recorded d tid ty' sid n \<or>
    (ty = ty' \<and> text_field ''step_id'' p = Some sid \<and> int_field ''attempt'' p = Some (int n))"
  by (auto simp: event_recorded_def view_simps)

lemma event_recorded_update [simp]:
  "event_recorded (update_step i sid' g d) tid ty sid n = event_recorded d tid ty sid n"
  "event_recorded (update_task i f d) tid ty sid n = event_recorded d tid ty sid n"
  by (simp_all add: event_recorded_def view_simps)

interpretation start_confirmed: confirmed_operation "\<lambda>e d. start_body e lease sid d"
    "start_confirm lease sid" for lease sid
proof
  fix d e d' r
  assume wf: "wf_db d" and c: "start_body e lease sid d = Commit d' r"
  from start_body_Commit [OF c] obtain s x where
      s: "find_step (lt_task_id lease) sid d = Some s" "s_status s \<noteq> StepRunning"
      and r: "r = Inr (attempt_of s x)"
      and d': "d' = insert_event (clk e 2) (lt_task_id lease) STEP_STARTED
        (JObj [(''step_id'', JStr sid), (''step_index'', jnat (s_index s)),
          (''attempt'', jnat (Suc (s_attempt s))), (''worker_id'', JStr (lt_worker_id lease)),
          (''lease_version'', jnat (lt_lease_version lease))])
        (update_step (lt_task_id lease) sid (start_step_row (clk e 1) x) d)"
    by blast
  note mem = find_step_mem [OF s(1)]
  then have tid: "s_task_id s = lt_task_id lease" by (auto dest: steps_of_task)
  have "list_ex (\<lambda>y. s_id y = sid \<and> s_status y = StepRunning \<and> s_attempt y = Suc (s_attempt s) \<and>
      (case s_resolved_input y of None \<Rightarrow> False | Some q \<Rightarrow> jsonb_eq q x) \<and>
      event_recorded d' (lt_task_id lease) STEP_STARTED sid (Suc (s_attempt s)))
    (set_step sid (start_step_row (clk e 1) x) (steps_of (lt_task_id lease) d))"
    using mem by (intro set_step_ex [of s])
      (auto simp: start_step_row_def d' event_recorded_insert text_field_def int_field_def)
  then show "start_confirm lease sid e d d'"
    using mem tid unfolding start_confirm_def c r
    by (simp add: persisted_attempt d' view_simps start_step_row_def)
  show "\<not> start_confirm lease sid e d d"
    using mem tid s(2) unfolding start_confirm_def c r
    by (auto simp: persisted_attempt dest: list_ex_only [OF _ wf s(1)])
qed (simp_all add: start_confirm_def body_faults)

lemma start_step_confirmed: "start_step e lease sid d = start_confirmed.oper lease sid e d"
  by (simp add: start_step_def start_confirmed.oper_def start_confirm_def Let_def)

interpretation wait_confirmed: confirmed_operation "\<lambda>e d. wait_body e lease sid d"
    "\<lambda>e d. approval_wait_persisted (lt_task_id lease) sid" for lease sid
proof
  fix d e d' r
  assume wf: "wf_db d" and c: "wait_body e lease sid d = Commit d' r"
  from c obtain t s x where t: "find_task (lt_task_id lease) d = Some t"
      and s: "find_step (lt_task_id lease) sid d = Some s" "s_status s = StepPending"
      and d': "d' = insert_event (clk e 3) (lt_task_id lease) TASK_WAITING_APPROVAL
        (JObj [(''step_id'', JStr sid), (''step_index'', jnat (s_index s))])
        (update_task (lt_task_id lease) (\<lambda>t. t\<lparr>t_status := StatusWaitingApproval,
           t_worker_id := None, t_lease_expires_at := None, t_retry_at := None,
           t_updated_at := clk e 2\<rparr>)
          (update_step (lt_task_id lease) sid (wait_step_row (clk e 1) x) d))"
    by (auto simp: wait_body_def Let_def lock_owned_Inr split: sum.splits option.splits if_splits)
  note mem = find_step_mem [OF s(1)]
  have "list_ex (\<lambda>y. s_id y = sid \<and> s_status y = StepWaitingApproval)
      (set_step sid (wait_step_row (clk e 1) x) (steps_of (lt_task_id lease) d))"
    using mem by (intro set_step_ex [of s]) (auto simp: wait_step_row_def)
  then show "approval_wait_persisted (lt_task_id lease) sid d'"
    by (simp add: approval_wait_persisted_def d' view_simps t wait_step_row_def text_field_def)
  show "\<not> approval_wait_persisted (lt_task_id lease) sid d"
    using s(2) by (auto simp: approval_wait_persisted_def dest: list_ex_only [OF _ wf s(1)] split: option.splits)
qed (simp_all add: body_faults)

lemma wait_confirmed: "wait_for_approval e lease sid d = wait_confirmed.oper lease sid e d"
  by (simp add: wait_for_approval_def wait_confirmed.oper_def)

definition decide_or_refuse :: "string \<Rightarrow> string \<Rightarrow> string \<Rightarrow> env \<Rightarrow> db \<Rightarrow> approval_result txn" where
  "decide_or_refuse tid sid decision e d =
     (if decision = ''approved'' \<or> decision = ''rejected'' then decide_body e tid sid decision d
      else Rollback (Inl ErrConflict))"

lemma decide_or_refuse_Commit: "decide_or_refuse tid sid decision e d = Commit d' r \<Longrightarrow>
    \<exists>t s. find_task tid d = Some t \<and> find_step tid sid d = Some s \<and> s_approval_decision s = None \<and>
      s_index s = t_current_step t \<and>
      ((decision = ''approved'' \<and> approve_body e tid sid (s_index s) d = Commit d' r) \<or>
       (decision = ''rejected'' \<and> reject_body e tid sid (s_index s) d = Commit d' r))"
  by (auto simp: decide_or_refuse_def decide_body_def lock_task_Inr
      split: if_splits sum.splits option.splits)

lemma approve_confirm:
  assumes "approve_body e tid sid i d = Commit d' r" "find_task tid d = Some t"
    and "s \<in> set (steps_of tid d)" "s_id s = sid" "s_index s = i"
  shows "decision_persisted tid sid ''approved'' d'"
proof -
  have "list_ex (\<lambda>y. s_id y = sid \<and> s_approval_decision y = Some ''approved'' \<and>
      s_status y = StepSucceeded \<and> s_index y < Suc i)
    (set_step sid (\<lambda>s. s\<lparr>s_approval_decision := Some ''approved'', s_status := StepSucceeded,
      s_error := None, s_finished_at := Some (clk e 1)\<rparr>) (steps_of tid d))"
    using assms(3-) by (intro set_step_ex [of s]) auto
  moreover from assms(1) have "find_task tid d' = map_option (\<lambda>t. t\<lparr>t_status := if Suc i = step_count tid d
        then StatusSucceeded else StatusRunnable, t_current_step := Suc i, t_worker_id := None,
        t_lease_expires_at := None, t_retry_at := None, t_updated_at := clk e 2\<rparr>) (find_task tid d)"
    "steps_of tid d' = set_step sid (\<lambda>s. s\<lparr>s_approval_decision := Some ''approved'', s_status := StepSucceeded,
      s_error := None, s_finished_at := Some (clk e 1)\<rparr>) (steps_of tid d)"
    "list_ex (\<lambda>ev. e_type ev = TASK_APPROVED \<and> text_field ''step_id'' (e_payload ev) = Some sid \<and>
       text_field ''decision'' (e_payload ev) = Some ''approved'') (events_of tid d')"
    by (auto simp: approve_body_def Let_def view_simps decision_payload_def text_field_def)
  ultimately show ?thesis using assms(2) by (simp add: decision_persisted_def)
qed

lemma reject_confirm:
  assumes "reject_body e tid sid i d = Commit d' r" "find_task tid d = Some t"
    and "s \<in> set (steps_of tid d)" "s_id s = sid" "s_index s = i" "t_current_step t = i"
  shows "decision_persisted tid sid ''rejected'' d'"
proof -
  have "list_ex (\<lambda>y. s_id y = sid \<and> s_approval_decision y = Some ''rejected'' \<and>
      s_status y = StepFailed \<and> t_current_step t = s_index y)
    (set_step sid (\<lambda>s. s\<lparr>s_approval_decision := Some ''rejected'', s_status := StepFailed,
      s_error := Some ''approval_rejected'', s_finished_at := Some (clk e 1)\<rparr>) (steps_of tid d))"
    using assms(3-) by (intro set_step_ex [of s]) auto
  moreover from assms(1) have "find_task tid d' = map_option (\<lambda>t. t\<lparr>t_status := StatusFailed,
        t_worker_id := None, t_lease_expires_at := None, t_retry_at := None, t_updated_at := clk e 2\<rparr>)
        (find_task tid d)"
    "steps_of tid d' = set_step sid (\<lambda>s. s\<lparr>s_approval_decision := Some ''rejected'', s_status := StepFailed,
      s_error := Some ''approval_rejected'', s_finished_at := Some (clk e 1)\<rparr>) (steps_of tid d)"
    "list_ex (\<lambda>ev. e_type ev = TASK_REJECTED \<and> text_field ''step_id'' (e_payload ev) = Some sid \<and>
       text_field ''decision'' (e_payload ev) = Some ''rejected'') (events_of tid d')"
    by (auto simp: reject_body_def Let_def view_simps decision_payload_def text_field_def)
  ultimately show ?thesis using assms(2) by (simp add: decision_persisted_def)
qed

interpretation decide_confirmed: confirmed_operation "decide_or_refuse tid sid decision"
    "\<lambda>e d. decision_persisted tid sid decision" for tid sid decision
proof
  fix d e d' r
  assume wf: "wf_db d" and c: "decide_or_refuse tid sid decision e d = Commit d' r"
  from decide_or_refuse_Commit [OF c] obtain t s where t: "find_task tid d = Some t"
      and s: "find_step tid sid d = Some s" "s_approval_decision s = None" "s_index s = t_current_step t"
      and b: "(decision = ''approved'' \<and> approve_body e tid sid (s_index s) d = Commit d' r) \<or>
       (decision = ''rejected'' \<and> reject_body e tid sid (s_index s) d = Commit d' r)"
    by blast
  note mem = find_step_mem [OF s(1)]
  from b show "decision_persisted tid sid decision d'"
  proof (elim disjE conjE)
    assume "decision = ''approved''" and "approve_body e tid sid (s_index s) d = Commit d' r"
    with approve_confirm [OF this(2) t] mem show ?thesis by blast
  next
    assume "decision = ''rejected''" and "reject_body e tid sid (s_index s) d = Commit d' r"
    with reject_confirm [OF this(2) t] mem s(3) [symmetric] show ?thesis by blast
  qed
  show "\<not> decision_persisted tid sid decision d"
  proof
    assume "decision_persisted tid sid decision d"
    then have "list_ex (\<lambda>s. s_id s = sid \<and> s_approval_decision s = Some decision) (steps_of tid d)"
      using t by (auto simp: decision_persisted_def Let_def list_ex_iff)
    from list_ex_only [OF this wf s(1)] s(2) show False by simp
  qed
qed (simp_all add: decide_or_refuse_def body_faults)

lemma decide_confirmed: "decision = ''approved'' \<or> decision = ''rejected'' \<Longrightarrow>
    decide_approval e tid sid decision d = decide_confirmed.oper tid sid decision e d"
  by (auto simp: decide_approval_def decide_confirmed.oper_def decide_or_refuse_def)

lemma finish_failed_confirm:
  assumes c: "finish_failed e lease a out d = Commit d' r" and t: "find_task (lt_task_id lease) d = Some t"
    and s: "s \<in> set (steps_of (lt_task_id lease) d)" "at_step_id a = s_id s" "at_attempt a = s_attempt s"
    and a: "at_task_id a = lt_task_id lease" "so_error out \<noteq> []"
  shows "step_finish_persisted a out d'"
proof -
  let ?tid = "lt_task_id lease"
  let ?status = "if so_failure_class out = FailureTemporary \<and> at_attempt a < at_max_attempts a
    then StatusRetryWait else StatusFailed"
  from c have st: "steps_of ?tid d' = set_step (s_id s) (fail_step_row (clk e 1) (so_error out)) (steps_of ?tid d)"
    by (auto simp: finish_failed_def insert_finish_events_def Let_def view_simps s(2) fail_step_row_def
        split: if_splits option.splits)
  from c t have tk: "\<exists>t'. find_task ?tid d' = Some t' \<and> t_status t' = ?status"
    by (auto simp: finish_failed_def insert_finish_events_def Let_def view_simps split: if_splits option.splits)
  from c have ev: "event_recorded d' ?tid STEP_FAILED (at_step_id a) (at_attempt a)"
    by (auto simp: finish_failed_def insert_finish_events_def Let_def event_recorded_insert finish_payload_def
        text_field_def int_field_def split: if_splits option.splits)
  have "list_ex (\<lambda>y. s_id y = s_id s \<and> s_status y = StepFailed \<and> s_attempt y = s_attempt s \<and>
      s_error y = Some (so_error out))
    (set_step (s_id s) (fail_step_row (clk e 1) (so_error out)) (steps_of ?tid d))"
    using s by (intro set_step_ex [of s]) (auto simp: fail_step_row_def)
  with st tk ev a s show ?thesis by (auto simp: step_finish_persisted_def)
qed

lemma finish_succeeded_confirm:
  assumes c: "finish_succeeded e lease a out i d = Commit d' r" and t: "find_task (lt_task_id lease) d = Some t"
    and s: "s \<in> set (steps_of (lt_task_id lease) d)" "at_step_id a = s_id s" "at_attempt a = s_attempt s"
      "s_index s = i"
    and a: "at_task_id a = lt_task_id lease" "so_error out = []"
  shows "step_finish_persisted a out d'"
proof -
  let ?tid = "lt_task_id lease"
  let ?g = "\<lambda>s. s\<lparr>s_status := StepSucceeded, s_output := raw_val (so_output out), s_error := None,
    s_finished_at := Some (clk e 1)\<rparr>"
  from c have st: "steps_of ?tid d' = set_step (s_id s) ?g (steps_of ?tid d)"
    by (auto simp: finish_succeeded_def insert_finish_events_def Let_def view_simps s(2) split: if_splits)
  from c t have tk: "\<exists>t'. find_task ?tid d' = Some t' \<and> t_current_step t' = Suc i"
    by (auto simp: finish_succeeded_def insert_finish_events_def Let_def view_simps split: if_splits)
  from c have ev: "event_recorded d' ?tid STEP_SUCCEEDED (at_step_id a) (at_attempt a)"
    by (auto simp: finish_succeeded_def insert_finish_events_def Let_def event_recorded_insert finish_payload_def
        text_field_def int_field_def split: if_splits)
  from c obtain w where w: "raw_val (so_output out) = Some w"
    by (auto simp: finish_succeeded_def json_valid_def split: if_splits)
  from tk obtain t' where "find_task ?tid d' = Some t'" "t_current_step t' = Suc i" by blast
  with ev a s w show ?thesis
    by (simp add: step_finish_persisted_def st) (rule set_step_ex [of s], simp_all)
qed

definition finish_own :: "lease_token \<Rightarrow> step_attempt \<Rightarrow> step_outcome \<Rightarrow> env \<Rightarrow> db \<Rightarrow> unit txn" where
  "finish_own lease a out e d = finish_body e lease (a\<lparr>at_task_id := lt_task_id lease\<rparr>) out d"

definition finish_confirm ::
  "lease_token \<Rightarrow> step_attempt \<Rightarrow> step_outcome \<Rightarrow> env \<Rightarrow> db \<Rightarrow> db \<Rightarrow> bool" where
  "finish_confirm lease a out e d =
     step_finish_persisted (a\<lparr>at_task_id := lt_task_id lease,
       at_max_attempts := (case find_step (lt_task_id lease) (at_step_id a) d of
         None \<Rightarrow> at_max_attempts a | Some s \<Rightarrow> s_max_attempts s)\<rparr>) (limit_outcome out)"

lemma finish_body_Commit: "finish_body e lease a out d = Commit d' r \<Longrightarrow>
    \<exists>t s. find_task (lt_task_id lease) d = Some t \<and> find_step (lt_task_id lease) (at_step_id a) d = Some s \<and>
      s_status s = StepRunning \<and> s_attempt s = at_attempt a \<and>
      ((so_error (limit_outcome out) \<noteq> [] \<and>
        finish_failed e lease (a\<lparr>at_max_attempts := s_max_attempts s\<rparr>) (limit_outcome out) d = Commit d' r) \<or>
       (so_error (limit_outcome out) = [] \<and>
        finish_succeeded e lease (a\<lparr>at_max_attempts := s_max_attempts s\<rparr>) (limit_outcome out) (s_index s) d
          = Commit d' r))"
  by (auto simp: finish_body_def lock_task_Inr Let_def split: if_splits sum.splits option.splits)

interpretation finish_confirmed: confirmed_operation "finish_own lease a out" "finish_confirm lease a out"
    for lease a out
proof
  fix d e d' r
  assume wf: "wf_db d" and c: "finish_own lease a out e d = Commit d' r"
  from finish_body_Commit [OF c [unfolded finish_own_def]] obtain t s where
      t: "find_task (lt_task_id lease) d = Some t"
      and s: "find_step (lt_task_id lease) (at_step_id a) d = Some s" "s_status s = StepRunning"
        "s_attempt s = at_attempt a"
      and b: "(so_error (limit_outcome out) \<noteq> [] \<and> finish_failed e lease
          (a\<lparr>at_task_id := lt_task_id lease, at_max_attempts := s_max_attempts s\<rparr>) (limit_outcome out) d = Commit d' r) \<or>
        (so_error (limit_outcome out) = [] \<and> finish_succeeded e lease
          (a\<lparr>at_task_id := lt_task_id lease, at_max_attempts := s_max_attempts s\<rparr>) (limit_outcome out) (s_index s) d
          = Commit d' r)"
    by auto
  note mem = find_step_mem [OF s(1)]
  from b show "finish_confirm lease a out e d d'"
    using finish_failed_confirm [OF _ t, of e _ _ d' r s] finish_succeeded_confirm [OF _ t, of e _ _ "s_index s" d' r s]
      mem s by (auto simp: finish_confirm_def)
  show "\<not> finish_confirm lease a out e d d"
  proof
    assume "finish_confirm lease a out e d d"
    then have "list_ex (\<lambda>s. s_id s = at_step_id a \<and> s_status s \<noteq> StepRunning) (steps_of (lt_task_id lease) d)"
      using t by (auto simp: finish_confirm_def step_finish_persisted_def Let_def list_ex_iff split: if_splits)
    from list_ex_only [OF this wf s(1)] s(2) show False by simp
  qed
qed (simp_all add: finish_own_def finish_confirm_def body_faults)

lemma finish_confirmed: "at_task_id a = lt_task_id lease \<Longrightarrow>
    finish_step e lease a out d = finish_confirmed.oper lease a out e d"
  by (cases a) (simp add: finish_step_def finish_confirmed.oper_def finish_confirm_def finish_own_def Let_def)

end
