(* ===== verification/Scenario.thy ===== *)
theory Scenario
  imports Store_Confirm
begin

text \<open>
  Concrete histories of the store, on which the properties are evaluated: a task of two steps
  that is created, claimed, started, retried, recovered and finished, and a task that waits for
  an approval.
\<close>

section \<open>Environments and definitions\<close>

definition env_at :: "time \<Rightarrow> env" where
  "env_at n = \<lparr>clk = (\<lambda>k. n + int k), row_locked = (\<lambda>_. False), fault = NoFault,
     later = (\<lambda>d. d), later_fails = False\<rparr>"

lemma clock_env_at [simp]: "clk (env_at n) k = n + int k" "mono (clk (env_at n))"
  by (simp_all add: env_at_def mono_def)

lemma clock_ok_env_at [simp]: "clock_ok now (env_at n) \<longleftrightarrow> now \<le> n"
  "clock_ok now (env_at n\<lparr>fault := f\<rparr>) \<longleftrightarrow> now \<le> n"
  by (simp_all add: clock_ok_def env_at_def mono_def)

definition st0 :: store where
  "st0 = new_store 0"

fun ids :: "nat \<Rightarrow> err + string" where
  "ids 0 = Inr ''t''"
| "ids (Suc 0) = Inr ''a''"
| "ids (Suc (Suc k)) = Inr ''b''"

definition echo_of :: "json \<Rightarrow> json" where
  "echo_of v = JObj [(''value'', v)]"

definition previous :: json where
  "previous = JObj [(''$ref'', JStr ''previous_output'')]"

definition step_def :: "string \<Rightarrow> json \<Rightarrow> step_definition" where
  "step_def ty v = \<lparr>sd_type = ty, sd_input = raw_of (echo_of v),
     sd_timeout_seconds = 30, sd_max_attempts = 2\<rparr>"

definition task_def :: "string \<Rightarrow> task_definition" where
  "task_def first = \<lparr>td_tenant_id = None, td_run_at = None, td_timeout_seconds = 60,
     td_steps = [step_def first (JNum 7 0), step_def ''echo'' previous]\<rparr>"

section \<open>Rows\<close>

definition new_row :: task where
  "new_row =
     \<lparr>t_id = ''t'', t_tenant_id = None, t_status = StatusRunnable, t_created_at = 1,
      t_updated_at = 2, t_run_at = 0, t_retry_at = None, t_worker_id = None, t_lease_version = 0,
      t_lease_expires_at = None, t_cancel_requested = False, t_current_step = 0,
      t_checkpoint = JObj [], t_timeout_seconds = 60, t_first_started_at = None,
      t_deadline_at = None\<rparr>"

definition step_row :: "string \<Rightarrow> nat \<Rightarrow> string \<Rightarrow> json \<Rightarrow> step" where
  "step_row sid i ty v =
     \<lparr>s_id = sid, s_task_id = ''t'', s_index = i, s_type = ty, s_status = StepPending,
      s_attempt = 0, s_max_attempts = 2, s_idempotency_key = ''t:'' @ sid,
      s_input = echo_of v, s_resolved_input = None, s_output = None, s_error = None,
      s_approval_decision = None, s_timeout_seconds = 30, s_started_at = None,
      s_finished_at = None\<rparr>"

definition logged :: "nat \<Rightarrow> time \<Rightarrow> event_type \<Rightarrow> json \<Rightarrow> event" where
  "logged i now ty p =
     \<lparr>e_id = i, e_task_id = ''t'', e_type = ty, e_payload = p, e_created_at = now\<rparr>"

definition row_b :: step where
  "row_b = step_row ''b'' 1 ''echo'' previous"

section \<open>Created and claimed\<close>

definition db_new :: "string \<Rightarrow> db" where
  "db_new first =
     \<lparr>tasks = [new_row], steps = [step_row ''a'' 0 first (JNum 7 0), row_b],
      events = [logged 1 3 TASK_CREATED (JObj [(''step_count'', jnat 2)])], next_event = 2\<rparr>"

definition claimed_row :: task where
  "claimed_row =
     new_row\<lparr>t_status := StatusRunning, t_worker_id := Some ''w'', t_lease_version := 1,
       t_lease_expires_at := Some 30000107, t_first_started_at := Some 106,
       t_deadline_at := Some 60000106, t_updated_at := 108\<rparr>"

definition claim_payload :: json where
  "claim_payload = JObj [(''worker_id'', JStr ''w''), (''lease_version'', jnat 1)]"

definition db_claimed :: "string \<Rightarrow> db" where
  "db_claimed first =
     db_new first\<lparr>tasks := [claimed_row],
       events := events (db_new first) @ [logged 2 110 TASK_CLAIMED claim_payload],
       next_event := 3\<rparr>"

definition tok :: lease_token where
  "tok = \<lparr>lt_task_id = ''t'', lt_worker_id = ''w'', lt_lease_version = 1\<rparr>"

definition claim0 :: claim where
  "claim0 = \<lparr>cl_token = tok, cl_lease_expires_at = 30000107, cl_deadline_at = 60000106\<rparr>"

section \<open>A step started and finished\<close>

definition row_a_running :: step where
  "row_a_running =
     (step_row ''a'' 0 ''echo'' (JNum 7 0))\<lparr>s_status := StepRunning, s_attempt := 1,
       s_resolved_input := Some (echo_of (JNum 7 0)), s_started_at := Some 201\<rparr>"

definition started_payload :: json where
  "started_payload =
     JObj [(''step_id'', JStr ''a''), (''step_index'', jnat 0), (''attempt'', jnat 1),
       (''worker_id'', JStr ''w''), (''lease_version'', jnat 1)]"

definition db_started :: db where
  "db_started =
     (db_claimed ''echo'')\<lparr>steps := [row_a_running, row_b],
       events := events (db_claimed ''echo'') @ [logged 3 202 STEP_STARTED started_payload],
       next_event := 4\<rparr>"

definition attempt_a :: step_attempt where
  "attempt_a =
     \<lparr>at_step_id = ''a'', at_task_id = ''t'', at_step_index = 0, at_step_type = ''echo'',
      at_attempt = 1, at_max_attempts = 2, at_idempotency_key = ''t:a'',
      at_resolved_input = echo_of (JNum 7 0), at_timeout_seconds = 30\<rparr>"

definition good :: step_outcome where
  "good = \<lparr>so_output = raw_of (echo_of (JNum 7 0)), so_checkpoint = raw_nil, so_error = [],
     so_failure_class = NoClass\<rparr>"

definition bad :: step_outcome where
  "bad = \<lparr>so_output = raw_nil, so_checkpoint = raw_nil, so_error = ''boom'',
     so_failure_class = FailureTemporary\<rparr>"

definition row_a_done :: step where
  "row_a_done =
     row_a_running\<lparr>s_status := StepSucceeded, s_output := Some (echo_of (JNum 7 0)),
       s_finished_at := Some 301\<rparr>"

definition finished_payload :: "string \<Rightarrow> json" where
  "finished_payload x =
     JObj [(''step_id'', JStr ''a''), (''step_index'', jnat 0), (''attempt'', jnat 1),
       (''worker_id'', JStr ''w''), (''lease_version'', jnat 1), (''error'', JStr x)]"

definition db_finished :: db where
  "db_finished =
     db_started\<lparr>tasks := [claimed_row\<lparr>t_current_step := 1, t_updated_at := 303\<rparr>],
       steps := [row_a_done, row_b],
       events := events db_started @ [logged 4 304 STEP_SUCCEEDED (finished_payload [])],
       next_event := 5\<rparr>"

definition db_retrying :: db where
  "db_retrying =
     db_started\<lparr>tasks := [claimed_row\<lparr>t_status := StatusRetryWait, t_retry_at := Some 1000302,
         t_worker_id := None, t_lease_expires_at := None, t_updated_at := 303\<rparr>],
       steps := [row_a_running\<lparr>s_status := StepFailed, s_error := Some ''boom'',
         s_finished_at := Some 301\<rparr>, row_b],
       events := events db_started @
         [logged 4 304 STEP_FAILED (finished_payload ''boom''),
          logged 5 306 TASK_RETRY_WAIT (JObj [(''step_id'', JStr ''a''), (''attempt'', jnat 1)])],
       next_event := 6\<rparr>"

section \<open>An approval\<close>

definition row_a_waiting :: step where
  "row_a_waiting =
     (step_row ''a'' 0 ''approval'' (JNum 7 0))\<lparr>s_status := StepWaitingApproval,
       s_resolved_input := Some (echo_of (JNum 7 0)), s_started_at := Some 201\<rparr>"

definition db_waiting :: db where
  "db_waiting =
     (db_claimed ''approval'')\<lparr>tasks := [claimed_row\<lparr>t_status := StatusWaitingApproval,
         t_worker_id := None, t_lease_expires_at := None, t_updated_at := 202\<rparr>],
       steps := [row_a_waiting, row_b],
       events := events (db_claimed ''approval'') @
         [logged 3 203 TASK_WAITING_APPROVAL (JObj [(''step_id'', JStr ''a''), (''step_index'', jnat 0)])],
       next_event := 4\<rparr>"

definition db_approved :: db where
  "db_approved =
     db_waiting\<lparr>tasks := [claimed_row\<lparr>t_status := StatusRunnable, t_current_step := 1,
         t_worker_id := None, t_lease_expires_at := None, t_updated_at := 302\<rparr>],
       steps := [row_a_waiting\<lparr>s_approval_decision := Some ''approved'', s_status := StepSucceeded,
         s_finished_at := Some 301\<rparr>, row_b],
       events := events db_waiting @ [logged 4 303 TASK_APPROVED
         (decision_payload ''a'' 0 ''approved'')],
       next_event := 5\<rparr>"

section \<open>The histories run\<close>

lemma run_create: "perform st0 (CreateTask (env_at 0) ids (task_def ''echo'')) empty_db = db_new ''echo''"
  by code_simp

lemma run_create_approval:
  "perform st0 (CreateTask (env_at 0) ids (task_def ''approval'')) empty_db = db_new ''approval''"
  by code_simp

lemma run_claim: "claim_task st0 (env_at 100) ''w'' (db_new ''echo'') = (db_claimed ''echo'', Inr claim0)"
  by code_simp

lemma run_claim_approval:
  "claim_task st0 (env_at 100) ''w'' (db_new ''approval'') = (db_claimed ''approval'', Inr claim0)"
  by code_simp

lemma run_start: "start_step (env_at 200) tok ''a'' (db_claimed ''echo'') = (db_started, Inr attempt_a)"
  by code_simp

lemma run_wait: "wait_for_approval (env_at 200) tok ''a'' (db_claimed ''approval'') = (db_waiting, Inr ())"
  by code_simp

lemma run_decide: "decide_approval (env_at 300) ''t'' ''a'' ''approved'' db_waiting =
    (db_approved, Inr \<lparr>ar_decision = ''approved'', ar_task_status = StatusRunnable\<rparr>)"
  by code_simp

lemma small_outcome: "raw_len (so_output out) \<le> max_json_bytes \<Longrightarrow>
    raw_len (so_checkpoint out) \<le> max_json_bytes \<Longrightarrow> limit_outcome out = out"
  by (simp add: limit_outcome_def)

lemma good_length: "length (marshal (echo_of (JNum 7 0))) = 11"
  by code_simp

lemma limit_good: "limit_outcome good = good" "limit_outcome bad = bad"
  by (simp_all add: small_outcome good_def bad_def max_json_bytes_def good_length)

lemma run_finish: "finish_step (env_at 300) tok attempt_a good db_started = (db_finished, Inr ())"
  unfolding finish_step_def finish_body_def Let_def limit_good by code_simp

lemma run_fail: "finish_step (env_at 300) tok attempt_a bad db_started = (db_retrying, Inr ())"
  unfolding finish_step_def finish_body_def Let_def limit_good by code_simp

section \<open>They are reachable\<close>

lemma valid_create: "td_steps (task_def ty) \<noteq> []"
  by (simp add: task_def_def)

lemma reach_one: "reachable st (d, now) \<Longrightarrow> sys_step st a (d, now) (d', now') \<Longrightarrow>
    reachable st (d', now')"
  unfolding reachable_def using run_snoc by metis

lemma reach_empty: "reachable st (empty_db, 0)"
  unfolding reachable_def by (intro exI, rule run_nil)

text \<open>One action at time \<open>n\<close>, whose readings end at \<open>n + 10\<close>.\<close>

lemma step_at_time: "perform st a d = d' \<Longrightarrow> env_of a = env_at n \<Longrightarrow> valid_action a \<Longrightarrow> now \<le> n \<Longrightarrow>
    sys_step st a (d, now) (d', n + 10)"
  by (simp add: sys_step_iff)

lemma reach_new: "reachable st0 (db_new ''echo'', 10)"
  using reach_one [OF reach_empty step_at_time [OF run_create, of 0]] by (simp add: valid_create)

lemma reach_new_approval: "reachable st0 (db_new ''approval'', 10)"
  using reach_one [OF reach_empty step_at_time [OF run_create_approval, of 0]] by (simp add: valid_create)

lemma step_claim: "sys_step st0 (ClaimTask (env_at 100) ''w'') (db_new ''echo'', 10) (db_claimed ''echo'', 110)"
  using step_at_time [of st0 "ClaimTask (env_at 100) ''w''" "db_new ''echo''" _ 100] by (simp add: run_claim)

lemma step_claim_approval: "sys_step st0 (ClaimTask (env_at 100) ''w'')
    (db_new ''approval'', 10) (db_claimed ''approval'', 110)"
  using step_at_time [of st0 "ClaimTask (env_at 100) ''w''" "db_new ''approval''" _ 100]
  by (simp add: run_claim_approval)

lemma step_start: "sys_step st0 (StartStep (env_at 200) tok ''a'') (db_claimed ''echo'', 110) (db_started, 210)"
  using step_at_time [of st0 "StartStep (env_at 200) tok ''a''" "db_claimed ''echo''" _ 200]
  by (simp add: run_start)

lemma step_wait: "sys_step st0 (WaitForApproval (env_at 200) tok ''a'')
    (db_claimed ''approval'', 110) (db_waiting, 210)"
  using step_at_time [of st0 "WaitForApproval (env_at 200) tok ''a''" "db_claimed ''approval''" _ 200]
  by (simp add: run_wait)

lemma step_decide: "sys_step st0 (DecideApproval (env_at 300) ''t'' ''a'' ''approved'')
    (db_waiting, 210) (db_approved, 310)"
  using step_at_time [of st0 "DecideApproval (env_at 300) ''t'' ''a'' ''approved''" db_waiting _ 300]
  by (simp add: run_decide)

lemma step_finish: "sys_step st0 (FinishStep (env_at 300) tok attempt_a good)
    (db_started, 210) (db_finished, 310)"
  using step_at_time [of st0 "FinishStep (env_at 300) tok attempt_a good" db_started _ 300]
  by (simp add: run_finish)

lemma step_fail: "sys_step st0 (FinishStep (env_at 300) tok attempt_a bad)
    (db_started, 210) (db_retrying, 310)"
  using step_at_time [of st0 "FinishStep (env_at 300) tok attempt_a bad" db_started _ 300]
  by (simp add: run_fail)

lemmas reach_claimed = reach_one [OF reach_new step_claim]
lemmas reach_started = reach_one [OF reach_claimed step_start]
lemmas reach_finished = reach_one [OF reach_started step_finish]
lemmas reach_retrying = reach_one [OF reach_started step_fail]
lemmas reach_claimed_approval = reach_one [OF reach_new_approval step_claim_approval]
lemmas reach_waiting = reach_one [OF reach_claimed_approval step_wait]
lemmas reach_approved = reach_one [OF reach_waiting step_decide]

lemmas reached_wf = reach_new reach_claimed reach_started reach_finished reach_retrying
  reach_waiting reach_approved
lemmas wf_scenario = reached_wf [THEN reachable_wf_db, simplified]

section \<open>Going on from there\<close>

text \<open>
  A takeover after the lease expired, a retry that is woken and claimed again, a cancellation of
  a running and of a waiting task. \<open>quiet\<close> is an action that finds no task: time passes.
\<close>

definition tok2 :: lease_token where
  "tok2 = \<lparr>lt_task_id = ''t'', lt_worker_id = ''v'', lt_lease_version = 2\<rparr>"

definition quiet :: "time \<Rightarrow> action" where
  "quiet n = CancelTask (env_at n) ''x''"

definition db_taken :: db where
  "db_taken = perform st0 (ClaimTask (env_at 31000000) ''v'') db_started"

definition db_woken :: db where
  "db_woken = perform st0 (ProcessDueControl (env_at 1000400)) db_retrying"

definition db_again :: db where
  "db_again = perform st0 (ClaimTask (env_at 1000500) ''v'') db_woken"

definition db_requested :: db where
  "db_requested = perform st0 (CancelTask (env_at 400) ''t'') db_finished"

definition db_cancelled :: db where
  "db_cancelled = perform st0 (CancelTask (env_at 400) ''t'') db_waiting"

lemma run_one: "valid_action a \<Longrightarrow> clock_ok now (env_of a) \<Longrightarrow>
    run (sys_step st) (d, now) [a] (perform st a d, clk (env_of a) 10)"
  by (rule run_cons, rule act, assumption+, rule run_nil)

lemma reach_perform: "reachable st (d, now) \<Longrightarrow> valid_action a \<Longrightarrow> clock_ok now (env_of a) \<Longrightarrow>
    reachable st (perform st a d, clk (env_of a) 10)"
  using run_one reachable_run by blast

lemma reach_taken: "reachable st0 (db_taken, 31000010)"
  using reach_perform [OF reach_started, of "ClaimTask (env_at 31000000) ''v''"] by (simp add: db_taken_def)

lemma reach_woken: "reachable st0 (db_woken, 1000410)"
  using reach_perform [OF reach_retrying, of "ProcessDueControl (env_at 1000400)"] by (simp add: db_woken_def)

lemma reach_again: "reachable st0 (db_again, 1000510)"
  using reach_perform [OF reach_woken, of "ClaimTask (env_at 1000500) ''v''"] by (simp add: db_again_def)

lemma reach_requested: "reachable st0 (db_requested, 410)"
  using reach_perform [OF reach_finished, of "CancelTask (env_at 400) ''t''"] by (simp add: db_requested_def)

lemma reach_cancelled: "reachable st0 (db_cancelled, 410)"
  using reach_perform [OF reach_waiting, of "CancelTask (env_at 400) ''t''"] by (simp add: db_cancelled_def)

lemma quiet_same: "perform st (quiet n) db_started = db_started" "perform st (quiet n) db_approved = db_approved"
  by (simp_all add: quiet_def cancel_task_def cancel_body_def lock_task_def env_at_def find_task_def row_at_def
      db_started_def db_claimed_def claimed_row_def new_row_def db_approved_def db_waiting_def)

lemma run_again: "run (sys_step st0) (db_retrying, 310)
    [ProcessDueControl (env_at 1000400), ClaimTask (env_at 1000500) ''v''] (db_again, 1000510)"
  by (intro run_cons [where t = "(db_woken, 1000410)"] run_cons [where t = "(db_again, 1000510)"] run_nil)
    (simp_all add: sys_step_iff db_woken_def db_again_def)

text \<open>What is read in these databases.\<close>

definition taken_row :: task where
  "taken_row =
     claimed_row\<lparr>t_worker_id := Some ''v'', t_lease_version := 2, t_lease_expires_at := Some 61000007,
       t_updated_at := 31000008\<rparr>"

lemma task_read:
  "find_task ''t'' db_taken = Some taken_row"
  "find_task ''t'' db_started = Some claimed_row"
  "find_task ''t'' (db_claimed ''echo'') = Some claimed_row"
  by code_simp+

lemma start_again: "snd (start_step (env_at 1000600) tok2 ''a'' db_again) =
    Inr (attempt_a\<lparr>at_attempt := 2\<rparr>)"
  by code_simp

lemma step_read:
  "row_a_running\<lparr>s_status := StepFailed, s_error := Some ''boom'', s_finished_at := Some 301\<rparr>
     \<in> set (steps_of ''t'' db_retrying)"
  "row_a_done \<in> set (steps_of ''t'' db_finished)"
  "row_a_running \<in> set (steps_of ''t'' db_started)"
  by code_simp+

end
