(* ===== verification/Store_Theorems.thy ===== *)
theory Store_Theorems
  imports Scenario
begin

text \<open>
  What holds of the whole store in every reachable state and along every run: the invariant, the
  refinement of the task state machine, and the facts that last.
\<close>

section \<open>The invariant and the refinement\<close>

text \<open>C1: Every database the system reaches is well formed: unique task, step and idempotency
  keys; the steps of a task are numbered from 0, those before the current one succeeded, those
  after it are pending, the current one agrees with the task's status; only a running task has
  an owner and a lease; the log holds one event per claim and per attempt and at most one final
  event, the one of the task's status.\<close>

theorem reachable_well_formed: "reachable st (d, now) \<Longrightarrow> wf_db d"
  using reachable_wf_db by fastforce

lemma reachable_well_formed_witness: "wf_db db_retrying"
  by (rule reachable_well_formed [OF reach_retrying])

text \<open>C2: Every operation of the store, with any failure of its transaction, leaves the database
  as it was, creates one task, or makes one move of the task state machine on one task and
  touches no other task.\<close>

theorem operations_refine:
  assumes "wf_db d" "valid_action a"
  shows "perform st a d = d \<or> creates d (perform st a d) \<or>
    (\<exists>i. frame i d (perform st a d) \<and>
      (\<exists>v v'. view_of i d = Some v \<and> view_of i (perform st a d) = Some v' \<and>
        task_move st (env_of a) v v'))"
  using perform_cases [of d a st] assms by (auto simp: wf_db_def moves_def)

lemma one_task: "length (tasks db_started) = 1" "length (tasks db_finished) = 1"
    "tasks db_started \<noteq> tasks db_finished"
  by code_simp+

lemma operations_refine_witness:
  "\<exists>i v v'. frame i db_started db_finished \<and> view_of i db_started = Some v \<and>
    view_of i db_finished = Some v' \<and> task_move st0 (env_at 300) v v'"
proof -
  let ?a = "FinishStep (env_at 300) tok attempt_a good"
  have wf: "wf_db db_started" and r: "perform st0 ?a db_started = db_finished"
    using wf_scenario run_finish by simp_all
  have "\<not> creates db_started db_finished"
    using one_task by (auto simp: creates_def dest!: create_body_Commit)
  moreover have "db_finished \<noteq> db_started" using one_task by auto
  ultimately show ?thesis
    using operations_refine [OF wf, of ?a st0] unfolding r by simp
qed

section \<open>What lasts\<close>

text \<open>C13: A task that reached SUCCEEDED, FAILED, CANCELLED or TIMED_OUT never changes again, in
  its row, its steps or its log, whatever operations any client runs afterwards.\<close>

theorem terminal_task_final:
  assumes "reachable st (d, now)" "run (sys_step st) (d, now) acts (d', now')"
    and "find_task i d = Some t" "is_terminal_status (t_status t)"
  shows "find_task i d' = Some t \<and> steps_of i d' = steps_of i d \<and> log_of i d' = log_of i d"
  using frozen.lasts [OF assms(2) _ view_of_find [OF assms(3)]] reachable_wf_db [OF assms(1)] assms(4)
  by (auto simp: frozen_def dest!: view_of_parts)

lemma cancelled_terminal: "map_option (is_terminal_status \<circ> t_status) (find_task ''t'' db_cancelled) = Some True"
  by code_simp

lemma terminal_task_final_witness:
  "find_task ''t'' (perform st0 (ClaimTask (env_at 500) ''v'') db_cancelled) = find_task ''t'' db_cancelled"
proof -
  from cancelled_terminal obtain t where "find_task ''t'' db_cancelled = Some t" "is_terminal_status (t_status t)"
    by auto
  from terminal_task_final [OF reach_cancelled run_one [where a = "ClaimTask (env_at 500) ''v''"] this] this
  show ?thesis by simp
qed

text \<open>C20: A step that succeeded is never run, changed or removed again.\<close>

theorem succeeded_step_final:
  assumes "reachable st (d, now)" "run (sys_step st) (d, now) acts (d', now')"
    and "s \<in> set (steps_of i d)" "s_status s = StepSucceeded"
  shows "s \<in> set (steps_of i d')"
proof -
  have wf: "wf_db d" using assms(1) reachable_wf_db by fastforce
  then obtain t where "find_task i d = Some t" using steps_task [OF _ assms(3)] by blast
  from step_done.lasts [OF assms(2) wf view_of_find [OF this], of s] assms(3,4) show ?thesis
    by (auto simp: step_done_def dest!: view_of_parts)
qed

lemma succeeded_step_final_witness:
  "row_a_done \<in> set (steps_of ''t'' (perform st0 (StartStep (env_at 400) tok ''b'') db_finished))"
  using succeeded_step_final [OF reach_finished run_one step_read(2), of "StartStep (env_at 400) tok ''b''"]
  by (simp add: row_a_done_def)

text \<open>C3: A worker whose lease was superseded by a later claim of the task can change nothing
  any more: none of the operations that take its token has an effect in any later state.\<close>

theorem superseded_owner_fenced:
  assumes "reachable st (d, now)" "find_task (lt_task_id lease) d = Some t"
    and "lt_lease_version lease < t_lease_version t"
    and "run (sys_step st) (d, now) acts (d', now')" "token_of a = Some lease"
  shows "perform st a d' = d'"
proof -
  have "version_from (Suc (lt_lease_version lease)) now (t, steps_of (lt_task_id lease) d, log_of (lt_task_id lease) d)"
    using assms(3) by (simp add: version_from_def)
  from version_from.lasts [OF assms(4) _ view_of_find [OF assms(2)] this] reachable_wf_db [OF assms(1)]
  obtain v' where v': "view_of (lt_task_id lease) d' = Some v'"
    and "version_from (Suc (lt_lease_version lease)) now' v'" by auto
  then show ?thesis by (rule superseded_action [OF assms(5)])
qed

lemma superseded_owner_fenced_witness:
  "perform st0 (FinishStep (env_at 31000100) tok attempt_a good) db_taken = db_taken"
  using superseded_owner_fenced [OF reach_taken _ _ run_nil,
    where t = taken_row and lease = tok and a = "FinishStep (env_at 31000100) tok attempt_a good"]
  by (simp add: task_read taken_row_def tok_def)

text \<open>C6: A lease that expired is never revived, not even by its last owner: neither a renewal
  nor any other operation with its token has an effect at any later time.\<close>

theorem expired_lease_never_revived:
  assumes "reachable st (d, now)" "find_task (lt_task_id lease) d = Some t"
    and "lt_lease_version lease = t_lease_version t" "t_lease_expires_at t = Some x" "x \<le> now"
    and "run (sys_step st) (d, now) acts (d', now')" "token_of a = Some lease"
    and "clock_ok now' (env_of a)"
  shows "perform st a d' = d'"
proof -
  have "lease_over (lt_lease_version lease) now (t, steps_of (lt_task_id lease) d, log_of (lt_task_id lease) d)"
    using assms(3-5) by (simp add: lease_over_def)
  from lease_over.lasts [OF assms(6) _ view_of_find [OF assms(2)] this] reachable_wf_db [OF assms(1)]
  obtain v' where "view_of (lt_task_id lease) d' = Some v'"
    and "lease_over (lt_lease_version lease) now' v'" by auto
  with clock_ok_le [OF assms(8)] show ?thesis by (intro over_action [OF assms(7)])
qed

lemma reach_expired: "reachable st0 (db_started, 31000010)"
  using reach_perform [OF reach_started, of "quiet 31000000"]
  by (simp add: quiet_same) (simp add: quiet_def)

lemma expired_lease_never_revived_witness:
  "perform st0 (RenewLease (env_at 31000100) tok) db_started = db_started"
  using expired_lease_never_revived [OF reach_expired _ _ _ _ run_nil,
    where t = claimed_row and lease = tok and x = 30000107 and a = "RenewLease (env_at 31000100) tok"]
  by (simp add: task_read claimed_row_def tok_def)

text \<open>C22: The deadline of a task is fixed by its first claim: its first start plus its timeout,
  and no retry, takeover, approval or renewal moves it.\<close>

theorem deadline_fixed:
  assumes "reachable st (d, now)" "find_task i d = Some t" "t_first_started_at t = Some f"
    and "run (sys_step st) (d, now) acts (d', now')"
  shows "\<exists>t'. find_task i d' = Some t' \<and> t_first_started_at t' = Some f \<and>
    t_deadline_at t' = Some (f + int (t_timeout_seconds t) * 1000000)"
proof -
  have wf: "wf_db d" using assms(1) reachable_wf_db by fastforce
  from wf_row [OF wf assms(2)] assms(3)
  have "t_deadline_at t = Some (f + int (t_timeout_seconds t) * 1000000)" by (simp add: row_inv_def)
  with deadline_is.lasts [OF assms(4) wf view_of_find [OF assms(2)]] assms(3) show ?thesis
    by (auto simp: deadline_is_def dest!: view_of_parts)
qed

lemma deadline_fixed_witness: "\<exists>t'. find_task ''t'' (perform st0 (quiet 300) db_started) = Some t' \<and>
    t_deadline_at t' = Some 60000106"
  using deadline_fixed [OF reach_started task_read(2) _ run_one, of 106 "quiet 300"]
  by (auto simp: claimed_row_def new_row_def quiet_def)

text \<open>C12: A step is never started more often than its attempt budget, and its attempt number is
  the number of STEP_STARTED events its log holds for it.\<close>

theorem attempts_bounded_and_logged:
  assumes "reachable st (d, now)" "s \<in> set (steps_of i d)"
  shows "s_attempt s \<le> s_max_attempts s \<and>
    s_attempt s = starts_logged (s_id s) (log_of i d)"
proof -
  have wf: "wf_db d" using assms(1) reachable_wf_db by fastforce
  with assms(2) obtain t where "find_task i d = Some t" using steps_task by blast
  from wf_row [OF wf this] assms(2) show ?thesis
    by (simp add: steps_inv_def step_inv_def step_ok_def log_inv_def)
qed

lemma attempts_bounded_and_logged_witness: "starts_logged ''a'' (log_of ''t'' db_started) = 1"
  using attempts_bounded_and_logged [OF reach_started step_read(3)]
  by (simp add: row_a_running_def step_row_def)

lemma resolved_input_kept: "resolved_input_of tid s c d = Inr r \<Longrightarrow>
    s_resolved_input s = None \<or> s_resolved_input s = Some r"
  by (cases "s_resolved_input s") (simp_all add: resolved_input_of_def)

lemma start_body_Inr: "start_body e lease sid d = Commit d' (Inr a) \<Longrightarrow>
    \<exists>s r. find_step (lt_task_id lease) sid d = Some s \<and> a = attempt_of s r \<and>
      (s_resolved_input s = None \<or> s_resolved_input s = Some r)"
  by (auto simp: start_body_def Let_def dest: resolved_input_kept split: sum.splits option.splits if_splits)

lemma start_step_Inr: "start_step e lease sid d = (d', Inr a) \<Longrightarrow>
    \<exists>s r. find_step (lt_task_id lease) sid d = Some s \<and> a = attempt_of s r \<and>
      (s_resolved_input s = None \<or> s_resolved_input s = Some r)"
  using fact_check_Inr start_admits(2) start_body_Inr
  unfolding start_step_def Let_def by metis

lemma input_stays:
  assumes "reachable st (d, now)" "s \<in> set (steps_of (lt_task_id lease) d)" "s_resolved_input s = Some r"
    and "run (sys_step st) (d, now) acts (d', now')"
    and "start_step e lease (s_id s) d' = (d'', Inr a)"
  shows "at_resolved_input a = r \<and> at_idempotency_key a = lt_task_id lease @ '':'' @ s_id s"
proof -
  have wf: "wf_db d" using assms(1) reachable_wf_db by fastforce
  then obtain t where t: "find_task (lt_task_id lease) d = Some t" using steps_task [OF _ assms(2)] by blast
  have "input_is (s_id s) r now (t, steps_of (lt_task_id lease) d, log_of (lt_task_id lease) d)"
    using assms(2,3) by (auto simp: input_is_def)
  from input_is.lasts [OF assms(4) wf view_of_find [OF t] this] obtain s' where
      s': "s' \<in> set (steps_of (lt_task_id lease) d')" "s_id s' = s_id s" "s_resolved_input s' = Some r"
    by (auto simp: input_is_def dest!: view_of_parts)
  have wf': "wf_db d'" using run_wf [OF assms(4) wf] .
  from start_step_Inr [OF assms(5)] obtain s1 r1 where s1: "find_step (lt_task_id lease) (s_id s) d' = Some s1"
      and a: "a = attempt_of s1 r1" "s_resolved_input s1 = None \<or> s_resolved_input s1 = Some r1" by blast
  from find_step_mem [OF s1] same_step [OF wf' s'(1)] s'(2) have "s1 = s'" by auto
  moreover have "s_idempotency_key s' = lt_task_id lease @ '':'' @ s_id s'"
    using wf' s'(1) by (auto simp: wf_db_def definition_ok_def steps_of_def)
  ultimately show ?thesis using a s' by (simp add: attempt_of_def)
qed

text \<open>C15: Once a step was started its resolved input is fixed: any attempt of it that is started
  later, by whatever worker, runs with the same input and the same idempotency key.\<close>

theorem resolved_input_fixed:
  assumes "reachable st (d, now)" "s \<in> set (steps_of (lt_task_id lease) d)" "s_resolved_input s = Some r"
    and "run (sys_step st) (d, now) acts (d', now')"
    and "start_step e lease (s_id s) d' = (d'', Inr a)"
  shows "at_resolved_input a = r \<and> at_idempotency_key a = lt_task_id lease @ '':'' @ s_id s"
  using assms by (rule input_stays)

lemma resolved_input_fixed_witness:
  "\<exists>d a. start_step (env_at 1000600) tok2 ''a'' db_again = (d, Inr a) \<and>
    at_resolved_input a = echo_of (JNum 7 0) \<and> at_idempotency_key a = ''t:a'' \<and> at_attempt a = 2"
proof -
  obtain d where s: "start_step (env_at 1000600) tok2 ''a'' db_again = (d, Inr (attempt_a\<lparr>at_attempt := 2\<rparr>))"
    using start_again by (cases "start_step (env_at 1000600) tok2 ''a'' db_again") simp
  let ?s = "row_a_running\<lparr>s_status := StepFailed, s_error := Some ''boom'', s_finished_at := Some 301\<rparr>"
  have "s_id ?s = ''a''" by (simp add: row_a_running_def step_row_def)
  with s resolved_input_fixed [OF reach_retrying _ _ run_again, where lease = tok2 and s = ?s] step_read(1)
  show ?thesis by (auto simp: tok2_def row_a_running_def step_row_def attempt_a_def)
qed

text \<open>C21: A decision on an approval is final: after any run the step still holds it, the same
  decision is answered again without a change, the opposite one is refused as a conflict.\<close>

theorem decision_final:
  assumes "reachable st (d, now)" "s \<in> set (steps_of i d)" "s_approval_decision s = Some x"
    and "run (sys_step st) (d, now) acts (d', now')" "fault e = NoFault"
  shows "(\<exists>t'. find_task i d' = Some t' \<and>
      decide_approval e i (s_id s) x d' = (d', Inr \<lparr>ar_decision = x, ar_task_status = t_status t'\<rparr>)) \<and>
    (\<forall>y. y \<noteq> x \<longrightarrow> decide_approval e i (s_id s) y d' = (d', Inl ErrConflict))"
proof -
  have wf: "wf_db d" using assms(1) reachable_wf_db by fastforce
  then obtain t where t: "find_task i d = Some t" using steps_task [OF _ assms(2)] by blast
  have "decision_is (s_id s) x now (t, steps_of i d, log_of i d)"
    using assms(2,3) by (auto simp: decision_is_def)
  from decision_is.lasts [OF assms(4) wf view_of_find [OF t] this] obtain t' s' where
      t': "find_task i d' = Some t'" and
      s': "s' \<in> set (steps_of i d')" "s_id s' = s_id s" "s_approval_decision s' = Some x"
    by (auto simp: decision_is_def dest!: view_of_parts)
  have wf': "wf_db d'" using run_wf [OF assms(4) wf] .
  have "find_step i (s_id s) d' \<noteq> None"
    using s' by (auto simp: find_step_def find_None_iff)
  then obtain s1 where s1: "find_step i (s_id s) d' = Some s1" by blast
  from find_step_mem [OF s1] same_step [OF wf' s'(1)] s'(2) have "s1 = s'" by auto
  moreover from wf_row [OF wf' t'] s' have "x = ''approved'' \<or> x = ''rejected''"
    by (auto simp: steps_inv_def step_inv_def decision_ok_def split: option.splits)
  ultimately show ?thesis
    using s1 s' t' assms(5) by (auto simp: decide_approval_def decide_body_def lock_task_def)
qed

lemma approved_row: "row_a_waiting\<lparr>s_approval_decision := Some ''approved'', s_status := StepSucceeded,
    s_finished_at := Some 301\<rparr> \<in> set (steps_of ''t'' db_approved)"
  by code_simp

lemma decision_final_witness:
  "decide_approval (env_at 500) ''t'' ''a'' ''rejected'' db_approved = (db_approved, Inl ErrConflict)"
  using decision_final [OF reach_approved approved_row _ run_nil, of "''approved''" "env_at 500"]
  by (simp add: row_a_waiting_def step_row_def) (simp add: env_at_def)

text \<open>C16: Once a cancellation was requested the task makes no progress: it stays at its current
  step, the request stays, and the only status it can still reach is CANCELLED.\<close>

theorem cancellation_is_final:
  assumes "reachable st (d, now)" "find_task i d = Some t" "t_cancel_requested t"
    and "run (sys_step st) (d, now) acts (d', now')"
  shows "\<exists>t'. find_task i d' = Some t' \<and> t_cancel_requested t' \<and>
    t_current_step t' = t_current_step t \<and> t_status t' \<in> {StatusRunning, StatusCancelled}"
proof -
  have wf: "wf_db d" using assms(1) reachable_wf_db by fastforce
  have "cancelling (t_current_step t) now (t, steps_of i d, log_of i d)"
    using assms(3) by (simp add: cancelling_def)
  from cancelling.lasts [OF assms(4) wf view_of_find [OF assms(2)] this] obtain t' where
      t': "find_task i d' = Some t'" "t_cancel_requested t'" "t_current_step t' = t_current_step t"
    by (auto simp: cancelling_def dest!: view_of_parts)
  with wf_row [OF run_wf [OF assms(4) wf] t'(1)] show ?thesis by (auto simp: row_inv_def)
qed

lemma requested_row: "map_option t_cancel_requested (find_task ''t'' db_requested) = Some True"
  by code_simp

lemma cancellation_is_final_witness:
  "\<exists>t'. find_task ''t'' (perform st0 (StartStep (env_at 500) tok ''b'') db_requested) = Some t' \<and>
    t_status t' \<in> {StatusRunning, StatusCancelled}"
proof -
  from requested_row obtain t where "find_task ''t'' db_requested = Some t" "t_cancel_requested t" by auto
  from cancellation_is_final [OF reach_requested this run_one, of "StartStep (env_at 500) tok ''b''"]
  show ?thesis by auto
qed

text \<open>The log of events is append-only, no step is ever deleted and the definition of a step
  (its type, input, limits, index and idempotency key) never changes.\<close>

theorem history_grows:
  assumes "reachable st (d, now)" "run (sys_step st) (d, now) acts (d', now')"
  shows "take (length (events d)) (events d') = events d \<and>
    take (length (steps d)) (map step_definition_columns (steps d')) = map step_definition_columns (steps d)"
proof -
  have "wf_db d \<and> grown_from d d" using reachable_wf_db [OF assms(1)] by (simp add: grown_from_def)
  then have "grown_from d d'" using growth.run_keeps [OF assms(2), of d] by simp
  then show ?thesis by (auto simp: grown_from_def)
qed

lemma three_events: "length (events db_started) = 3"
  by code_simp

lemma history_grows_witness: "take 3 (events (perform st0 (quiet 300) db_started)) = events db_started"
  using history_grows [OF reach_started run_one, of "quiet 300"]
  by (simp add: quiet_def three_events)

end
