(* ===== verification/Store_Operations.thy ===== *)
theory Store_Operations
  imports Store_Theorems
begin

text \<open>
  What each operation of the store does and answers, branch by branch.
\<close>

section \<open>Claiming\<close>

lemma recover_tasks: "recover_expired_task e tid k pw pv d = Recovered d' \<Longrightarrow> find_task j d' = find_task j d"
  by (auto simp: recover_expired_task_def Let_def view_simps split: option.splits if_splits)

lemma claim_task_Inr: "claim_task st e w d = (d', Inr c) \<Longrightarrow>
    \<exists>t d1. claim_candidate e d = Some t \<and> (\<forall>j. find_task j d1 = find_task j d) \<and>
      finish_claim st e w t d1 = Commit d' (Inr c) \<and> c = claim_of w (assign_lease st e w t)"
proof -
  assume "claim_task st e w d = (d', Inr c)"
  then have "run_tx e d (claim_body st e w d) = (d', Inr c)"
    by (auto simp: claim_task_def split: if_splits)
  from run_tx_Inr [OF this] have body: "claim_body st e w d = Commit d' (Inr c)"
    by (auto simp: claim_body_def finish_claim_def Let_def split: option.splits if_splits recovery.splits)
  then obtain t where t: "claim_candidate e d = Some t"
    by (auto simp: claim_body_def split: option.splits)
  from body t obtain d1 where "finish_claim st e w t d1 = Commit d' (Inr c)" "\<forall>j. find_task j d1 = find_task j d"
    by (auto simp: claim_body_def dest: recover_tasks split: if_splits recovery.splits)
  moreover from this(1) have "c = claim_of w (assign_lease st e w t)"
    by (simp add: finish_claim_def Let_def)
  ultimately show ?thesis using t by blast
qed

lemma finish_claim_row: "finish_claim st e w t d1 = Commit d' r \<Longrightarrow> find_task (t_id t) d1 = Some t \<Longrightarrow>
    find_task (t_id t) d' = Some (assign_lease st e w t)"
  by (auto simp: finish_claim_def Let_def view_simps)

text \<open>C18: A claim is exclusive: it takes only a task that has no live lease, now or later, hands out
  the next lease version, and from then on the token it returns is the only live one.\<close>

theorem claim_is_exclusive:
  assumes "wf_db d" "claim_task st e w d = (d', Inr c)"
  shows "\<exists>t. find_task (lt_task_id (cl_token c)) d = Some t \<and>
    (\<forall>lease now. clk e 0 \<le> now \<longrightarrow> \<not> live_lease now t lease) \<and>
    lt_lease_version (cl_token c) = Suc (t_lease_version t) \<and>
    find_task (lt_task_id (cl_token c)) d' = Some (assign_lease st e w t) \<and>
    (\<forall>lease now. lt_task_id lease = lt_task_id (cl_token c) \<longrightarrow>
      live_lease now (assign_lease st e w t) lease \<longrightarrow>
      lease = cl_token c \<and> now < clk e 7 + lease_microseconds st)"
proof -
  from claim_task_Inr [OF assms(2)] obtain t d1 where t: "claim_candidate e d = Some t"
      "\<forall>j. find_task j d1 = find_task j d" "finish_claim st e w t d1 = Commit d' (Inr c)"
      "c = claim_of w (assign_lease st e w t)"
    by blast
  from claim_candidate_Some [OF t(1)] assms(1) have row: "find_task (t_id t) d = Some t"
    and ok: "claimable (clk e 0) t"
    by (auto simp: wf_db_def intro: find_task_distinct)
  have id: "lt_task_id (cl_token c) = t_id t" using t(4) by (simp add: claim_of_def)
  from ok have "\<forall>lease now. clk e 0 \<le> now \<longrightarrow> \<not> live_lease now t lease"
    by (auto simp: claimable_def live_lease_def split: option.splits)
  moreover have "find_task (t_id t) d' = Some (assign_lease st e w t)"
    using finish_claim_row [OF t(3)] t(2) row by simp
  moreover have "lease = cl_token c \<and> now < clk e 7 + lease_microseconds st"
    if "lt_task_id lease = t_id t" "live_lease now (assign_lease st e w t) lease" for lease now
    using that t(4) by (cases lease) (auto simp: live_lease_def assign_lease_def claim_of_def)
  ultimately show ?thesis
    unfolding id using row t(4) by (intro exI [of _ t]) (simp add: claim_of_def assign_lease_def)
qed

lemma claim_is_exclusive_witness: "\<exists>t. find_task ''t'' (db_new ''echo'') = Some t \<and> \<not> live_lease 150 t tok"
  using claim_is_exclusive [OF wf_scenario(1) run_claim] by (auto simp: claim0_def tok_def)

text \<open>
  What a scan that takes task \<open>t\<close> leaves of it: the attempt that was running is lost with its
  worker, and the task with it when that was the last attempt of the step.
\<close>

definition last_attempt_lost :: "db \<Rightarrow> task \<Rightarrow> bool" where
  "last_attempt_lost d t \<longleftrightarrow> t_status t = StatusRunning \<and>
     list_ex (\<lambda>s. s_index s = t_current_step t \<and> s_status s = StepRunning \<and> s_max_attempts s \<le> s_attempt s)
       (steps_of (t_id t) d)"

definition lost_row :: "time \<Rightarrow> step \<Rightarrow> step" where
  "lost_row now s = s\<lparr>s_status := StepFailed, s_error := Some ''worker_lost'', s_finished_at := Some now\<rparr>"

definition lost_attempt :: "env \<Rightarrow> task \<Rightarrow> step \<Rightarrow> step" where
  "lost_attempt e t s =
     (if t_status t = StatusRunning \<and> s_index s = t_current_step t \<and> s_status s = StepRunning
      then lost_row (clk e 2) s else s)"

lemma map_lost_attempt:
  assumes "steps_inv t ss" "s \<in> set ss" "s_index s = t_current_step t" "t_status t = StatusRunning"
  shows "map (lost_attempt e t) ss =
    (if s_status s = StepRunning then set_step (s_id s) (lost_row (clk e 2)) ss else ss)"
proof -
  have ids: "distinct (map s_id ss)" and ix: "map s_index ss = [0..<length ss]"
    using assms(1) by (simp_all add: steps_inv_def)
  have "\<forall>x \<in> set ss. (s_index x = t_current_step t) = (x = s) \<and> (s_id x = s_id s) = (x = s)"
    using assms(2,3) ids index_inj [OF ix] by (auto simp: distinct_map dest: inj_onD)
  then show ?thesis
    using assms(4) by (auto simp: lost_attempt_def set_step_def intro!: map_cong map_idI)
qed

lemma scan_outcome:
  assumes "wf_db d" "fault e = NoFault" "w \<noteq> []" "claim_candidate e d = Some t"
  shows "snd (claim_task st e w d) =
      (if last_attempt_lost d t then Inl ErrNoTask else Inr (claim_of w (assign_lease st e w t)))"
    and "find_task (t_id t) (fst (claim_task st e w d)) = Some
      (if last_attempt_lost d t
       then t\<lparr>t_status := StatusFailed, t_worker_id := None, t_lease_expires_at := None, t_updated_at := clk e 4\<rparr>
       else assign_lease st e w t)"
    and "steps_of (t_id t) (fst (claim_task st e w d)) = map (lost_attempt e t) (steps_of (t_id t) d)"
proof -
  have row: "find_task (t_id t) d = Some t"
    using claim_candidate_Some [OF assms(4)] assms(1) by (auto simp: wf_db_def intro: find_task_distinct)
  note inv = conjunct1 [OF wf_row [OF assms(1) row]]
  have "snd (claim_task st e w d) =
        (if last_attempt_lost d t then Inl ErrNoTask else Inr (claim_of w (assign_lease st e w t))) \<and>
      find_task (t_id t) (fst (claim_task st e w d)) = Some
        (if last_attempt_lost d t
         then t\<lparr>t_status := StatusFailed, t_worker_id := None, t_lease_expires_at := None, t_updated_at := clk e 4\<rparr>
         else assign_lease st e w t) \<and>
      steps_of (t_id t) (fst (claim_task st e w d)) = map (lost_attempt e t) (steps_of (t_id t) d)"
  proof (cases "t_status t = StatusRunning")
    case False
    then have "\<not> last_attempt_lost d t" "map (lost_attempt e t) (steps_of (t_id t) d) = steps_of (t_id t) d"
      by (auto simp: last_attempt_lost_def lost_attempt_def intro: map_idI)
    with False assms(2-4) row show ?thesis
      by (simp add: claim_task_def claim_body_def finish_claim_def Let_def view_simps)
  next
    case True
    then obtain s where s: "step_at (t_id t) (t_current_step t) d = Some s"
      using inv current_of_None [of t "steps_of (t_id t) d"] current_of_step_at [OF row] by fastforce
    note mem = step_at_mem [OF s]
    have ix: "map s_index (steps_of (t_id t) d) = [0..<length (steps_of (t_id t) d)]"
      using inv by (simp add: steps_inv_def)
    have "\<forall>x \<in> set (steps_of (t_id t) d). s_index x = t_current_step t \<longrightarrow> x = s"
      using mem index_inj [OF ix] by simp
    with mem True have last: "last_attempt_lost d t \<longleftrightarrow> s_status s = StepRunning \<and> s_max_attempts s \<le> s_attempt s"
      by (auto simp: last_attempt_lost_def list_ex_iff)
    show ?thesis
      unfolding last map_lost_attempt [OF inv conjunct1 [OF mem] conjunct2 [OF mem] True]
      using assms(2-4) row True s
      by (auto simp: claim_task_def claim_body_def finish_claim_def recover_expired_task_def Let_def view_simps
          step_at_def lost_row_def [abs_def] split: option.splits)
  qed
  then show "snd (claim_task st e w d) =
      (if last_attempt_lost d t then Inl ErrNoTask else Inr (claim_of w (assign_lease st e w t)))"
    and "find_task (t_id t) (fst (claim_task st e w d)) = Some
      (if last_attempt_lost d t
       then t\<lparr>t_status := StatusFailed, t_worker_id := None, t_lease_expires_at := None, t_updated_at := clk e 4\<rparr>
       else assign_lease st e w t)"
    and "steps_of (t_id t) (fst (claim_task st e w d)) = map (lost_attempt e t) (steps_of (t_id t) d)"
    by blast+
qed

text \<open>C26: A claim scan without failures takes the claimable task that was created first (ties by id)
  among those no other transaction has locked, and answers without a change that there is no task
  when there is none. If the task it takes was running (its lease has expired), the attempt that
  was running fails as lost with its worker; the task goes to the claiming worker, except when
  that was the last attempt the step's budget allows: then, and only then, it ends as FAILED and
  the scan answers that there is no task.\<close>

theorem claim_takes_the_earliest:
  assumes "wf_db d" "fault e = NoFault" "w \<noteq> []"
  shows "(claim_task st e w d = (d, Inl ErrNoTask) \<and>
      (\<forall>u \<in> set (tasks d). claimable (clk e 0) u \<longrightarrow> row_locked e (t_id u))) \<or>
    (\<exists>t. find_task (t_id t) d = Some t \<and> claimable (clk e 0) t \<and> \<not> row_locked e (t_id t) \<and>
      (\<forall>u \<in> set (tasks d). claimable (clk e 0) u \<and> \<not> row_locked e (t_id u) \<longrightarrow>
        (t_created_at t, t_id t) \<le> (t_created_at u, t_id u)) \<and>
      (if last_attempt_lost d t
       then snd (claim_task st e w d) = Inl ErrNoTask \<and>
         find_task (t_id t) (fst (claim_task st e w d)) = Some (t\<lparr>t_status := StatusFailed,
           t_worker_id := None, t_lease_expires_at := None, t_updated_at := clk e 4\<rparr>)
       else snd (claim_task st e w d) = Inr (claim_of w (assign_lease st e w t)) \<and>
         find_task (t_id t) (fst (claim_task st e w d)) = Some (assign_lease st e w t)) \<and>
      steps_of (t_id t) (fst (claim_task st e w d)) = map (lost_attempt e t) (steps_of (t_id t) d))"
proof (cases "claim_candidate e d")
  case None
  then show ?thesis
    using assms(2,3) by (auto simp: claim_task_def claim_body_def claim_candidate_def filter_empty_conv)
next
  case (Some t)
  note cand = claim_candidate_Some [OF Some]
  have row: "find_task (t_id t) d = Some t"
    using cand assms(1) by (auto simp: wf_db_def intro: find_task_distinct)
  have least: "\<forall>u \<in> set (tasks d). claimable (clk e 0) u \<and> \<not> row_locked e (t_id u) \<longrightarrow>
      (t_created_at t, t_id t) \<le> (t_created_at u, t_id u)"
    using first_by_least [OF Some [unfolded claim_candidate_def]] by auto
  show ?thesis
    by (rule disjI2, rule exI [of _ t], intro conjI least) (simp_all add: cand row scan_outcome [OF assms Some])
qed

text \<open>The task whose second and last attempt is running, and the scans after each lease expired.\<close>

definition db_last :: db where
  "db_last = perform st0 (StartStep (env_at 1000600) tok2 ''a'') db_again"

lemma wf_last: "wf_db db_last"
proof -
  have "reachable st0 (db_last, 1000610)"
    using reach_perform [OF reach_again, of "StartStep (env_at 1000600) tok2 ''a''"] by (simp add: db_last_def)
  from reachable_wf_db [OF this] show ?thesis by simp
qed

lemma only_task: "map t_id (tasks db_last) = [''t'']" "list_all (last_attempt_lost db_last) (tasks db_last)"
    "list_all (claimable 40000000) (tasks db_last)"
    "map t_id (tasks db_started) = [''t'']" "list_ex (last_attempt_lost db_started) (tasks db_started) = False"
    "list_all (claimable 31000000) (tasks db_started)"
  by code_simp+

lemma claim_takes_the_earliest_witness:
  "snd (claim_task st0 (env_at 40000000) ''v'' db_last) = Inl ErrNoTask \<and>
   map_option t_status (find_task ''t'' (fst (claim_task st0 (env_at 40000000) ''v'' db_last))) = Some StatusFailed \<and>
   (\<exists>c. snd (claim_task st0 (env_at 31000000) ''v'' db_started) = Inr c)"
proof -
  have f: "fault (env_at n) = NoFault" "clk (env_at n) 0 = n" "row_locked (env_at n) i = False" for n i
    by (simp_all add: env_at_def)
  have some: "find_task (t_id t) d = Some t \<Longrightarrow> t \<in> set (tasks d)" for t d
    by (auto simp: find_task_def row_at_def find_Some_iff)
  have one: "t_id t = ''t''" if "map t_id (tasks d) = [''t'']" "t \<in> set (tasks d)" for t d
    using that by (metis image_eqI list.set_map list.simps(15) empty_set singletonD)
  have "(\<exists>t \<in> set (tasks db_last). True) \<and> (\<exists>t \<in> set (tasks db_started). True)" by code_simp
  then show ?thesis
    using claim_takes_the_earliest [OF wf_last f(1), of "''v''" st0 40000000]
      claim_takes_the_earliest [OF wf_scenario(3) f(1), of "''v''" st0 31000000] only_task
    by (auto simp: f list_all_iff list_ex_iff dest!: some dest: one)
qed

section \<open>The retry delay\<close>

text \<open>Before attempt \<open>n + 1\<close> the delay is 1, 2, 4, ... seconds, at most 60.\<close>

lemma delay_closed: "retry_delay n = (if n = 0 then None else Some (min 60 (2 ^ (n - 1))))"
proof (cases "n \<le> 7")
  case True
  then consider "n = 0" | "n = 1" | "n = 2" | "n = 3" | "n = 4" | "n = 5" | "n = 6" | "n = 7" by linarith
  then show ?thesis by cases (simp_all add: retry_delay_def)
next
  case False
  then have "(2::int) ^ 6 \<le> 2 ^ (n - 1)" by (intro power_increasing) auto
  with False show ?thesis by (simp add: retry_delay_def)
qed

section \<open>Finishing a step\<close>

text \<open>The step rows after an update of one step.\<close>

lemma finish_ready: "lock_owned_task (clk e 0) d lease = Inr lk \<Longrightarrow>
    find_step (lt_task_id lease) (at_step_id a) d = Some s \<Longrightarrow>
    s_status s = StepRunning \<Longrightarrow> s_attempt s = at_attempt a \<Longrightarrow> s_index s = lk_current_step lk \<Longrightarrow>
    finish_body e lease a out d =
      (if so_error (limit_outcome out) \<noteq> []
       then finish_failed e lease (a\<lparr>at_max_attempts := s_max_attempts s\<rparr>) (limit_outcome out) d
       else finish_succeeded e lease (a\<lparr>at_max_attempts := s_max_attempts s\<rparr>) (limit_outcome out) (s_index s) d)"
  by (auto simp: finish_body_def lock_owned_task_def Let_def split: sum.splits)

definition running_step :: "env \<Rightarrow> lease_token \<Rightarrow> step_attempt \<Rightarrow> db \<Rightarrow> task \<Rightarrow> step \<Rightarrow> bool" where
  "running_step e lease a d t s \<longleftrightarrow>
     find_task (lt_task_id lease) d = Some t \<and> live_lease (clk e 0) t lease \<and>
     \<not> t_cancel_requested t \<and> \<not> overdue (clk e 0) t \<and>
     find_step (lt_task_id lease) (at_step_id a) d = Some s \<and> s_status s = StepRunning \<and>
     s_attempt s = at_attempt a \<and> s_index s = t_current_step t"

lemma running_finish: "running_step e lease a d t s \<Longrightarrow> finish_body e lease a out d =
    (if so_error (limit_outcome out) \<noteq> []
     then finish_failed e lease (a\<lparr>at_max_attempts := s_max_attempts s\<rparr>) (limit_outcome out) d
     else finish_succeeded e lease (a\<lparr>at_max_attempts := s_max_attempts s\<rparr>) (limit_outcome out) (s_index s) d)"
proof -
  assume r: "running_step e lease a d t s"
  then obtain lk where lk: "lock_owned_task (clk e 0) d lease = Inr lk" "lk_current_step lk = t_current_step t"
    by (auto simp: running_step_def lock_owned_Inr lock_task_Inr)
  from r finish_ready [OF lk(1)] lk(2) show ?thesis by (simp add: running_step_def)
qed

lemma finish_succeeded_rows:
  assumes c: "finish_succeeded e lease a out i d = Commit d' r" and t: "find_task (lt_task_id lease) d = Some t"
    and v: "raw_val (so_output out) = Some v"
  shows "r = Inr ()"
    and "steps_of (lt_task_id lease) d' =
      set_step (at_step_id a) (succeed_step (clk e 1) v) (steps_of (lt_task_id lease) d)"
    and "find_task (lt_task_id lease) d' = Some
      (if Suc i = length (steps_of (lt_task_id lease) d)
       then t\<lparr>t_status := StatusSucceeded, t_current_step := Suc i,
           t_checkpoint := coalesce_checkpoint (so_checkpoint out) (t_checkpoint t),
           t_worker_id := None, t_lease_expires_at := None, t_updated_at := clk e 3\<rparr>
       else t\<lparr>t_current_step := Suc i,
           t_checkpoint := coalesce_checkpoint (so_checkpoint out) (t_checkpoint t), t_updated_at := clk e 3\<rparr>)"
    and "map fst (log_of (lt_task_id lease) d') = map fst (log_of (lt_task_id lease) d) @
      (if Suc i = length (steps_of (lt_task_id lease) d) then [STEP_SUCCEEDED, TASK_SUCCEEDED]
       else [STEP_SUCCEEDED])"
  using c t v
  by (auto simp: finish_succeeded_def insert_finish_events_def Let_def view_simps succeed_step_def [abs_def] step_count_def
      split: if_splits)

lemma finish_failed_rows:
  assumes c: "finish_failed e lease a out d = Commit d' r" and t: "find_task (lt_task_id lease) d = Some t"
  shows "r = Inr ()"
    and "steps_of (lt_task_id lease) d' =
      set_step (at_step_id a) (fail_step_row (clk e 1) (so_error out)) (steps_of (lt_task_id lease) d)"
    and "find_task (lt_task_id lease) d' = Some
      (if so_failure_class out = FailureTemporary \<and> at_attempt a < at_max_attempts a
       then leave_running StatusRetryWait
         (Some (clk e 2 + (case retry_delay (at_attempt a) of Some x \<Rightarrow> x | None \<Rightarrow> 0) * 1000000)) (clk e 3) t
       else leave_running StatusFailed None (clk e 3) t)"
    and "map fst (log_of (lt_task_id lease) d') = map fst (log_of (lt_task_id lease) d) @
      (if so_failure_class out = FailureTemporary \<and> at_attempt a < at_max_attempts a
       then [STEP_FAILED, TASK_RETRY_WAIT] else [STEP_FAILED, TASK_FAILED])"
  using c t
  by (auto simp: finish_failed_def insert_finish_events_def Let_def view_simps fail_step_row_def leave_running_def
      split: if_splits option.splits)

lemma fault_free_finish: "fault e = NoFault \<Longrightarrow> finish_body e lease a out d = Commit d' r \<Longrightarrow>
    finish_step e lease a out d = (d', r)"
  by (simp add: finish_step_def Let_def)

lemma finish_with_output:
  assumes "wf_db d" "running_step e lease a d t s" "fault e = NoFault"
    and "so_error out = []" "raw_val (so_output out) = Some v" "0 < raw_len (so_output out)"
    and "raw_len (so_output out) \<le> max_json_bytes"
    and "so_checkpoint out = raw_column c" "raw_len (raw_column c) \<le> max_json_bytes"
  shows "\<exists>d' t'. finish_step e lease a out d = (d', Inr ()) \<and>
    find_task (lt_task_id lease) d' = Some t' \<and>
    t_current_step t' = Suc (t_current_step t) \<and>
    t_checkpoint t' = (case c of None \<Rightarrow> t_checkpoint t | Some x \<Rightarrow> x) \<and>
    (if Suc (t_current_step t) = length (steps_of (lt_task_id lease) d)
     then t_status t' = StatusSucceeded \<and> t_worker_id t' = None \<and> t_lease_expires_at t' = None
     else live_lease (clk e 0) t' lease) \<and>
    steps_of (lt_task_id lease) d' =
      set_step (s_id s) (succeed_step (clk e 1) v) (steps_of (lt_task_id lease) d) \<and>
    map fst (log_of (lt_task_id lease) d') = map fst (log_of (lt_task_id lease) d) @
      (if Suc (t_current_step t) = length (steps_of (lt_task_id lease) d)
       then [STEP_SUCCEEDED, TASK_SUCCEEDED] else [STEP_SUCCEEDED])"
proof -
  let ?i = "lt_task_id lease" and ?a = "a\<lparr>at_max_attempts := s_max_attempts s\<rparr>"
  note r = assms(2) [unfolded running_step_def]
  have t: "find_task ?i d = Some t" using r by simp
  have sid: "at_step_id a = s_id s" using r find_step_mem by auto
  have lim: "limit_outcome out = out" using assms(7-9) by (simp add: small_outcome)
  have "raw_len (so_checkpoint out) > 0 \<longrightarrow> json_valid (so_checkpoint out)"
    using assms(8) by (cases c) auto
  then have cp: "\<not> (raw_len (so_checkpoint out) > 0 \<and> \<not> json_valid (so_checkpoint out))" by blast
  have "\<exists>d' x. finish_succeeded e lease ?a out (s_index s) d = Commit d' x"
    unfolding finish_succeeded_def if_not_P [OF cp] using assms(5,6) by (simp add: Let_def json_valid_def)
  then obtain d' x where c: "finish_succeeded e lease ?a out (s_index s) d = Commit d' x" by blast
  have "coalesce_checkpoint (so_checkpoint out) (t_checkpoint t) = (case c of None \<Rightarrow> t_checkpoint t | Some x \<Rightarrow> x)"
    using assms(8) by (cases c) (simp_all add: coalesce_checkpoint_def)
  note rows = finish_succeeded_rows [OF c t assms(5), unfolded this]
  have "finish_step e lease a out d = (d', Inr ())"
    using fault_free_finish [OF assms(3)] running_finish [OF assms(2)] lim assms(4) c rows(1) by simp
  then show ?thesis
    using rows r sid by (auto simp: live_lease_def)
qed

lemma running_scenario: "running_step (env_at 300) tok attempt_a db_started claimed_row row_a_running"
proof -
  have "find_step ''t'' ''a'' db_started = Some row_a_running" by code_simp
  then show ?thesis
    by (simp add: running_step_def live_lease_def overdue_def task_read tok_def attempt_a_def claimed_row_def
        new_row_def row_a_running_def step_row_def)
qed

text \<open>C27: Finishing the running attempt with a valid output makes the step SUCCEEDED with that
  output, moves the task to the next step, saves the checkpoint when there is one, and, at the
  last step, ends the task as SUCCEEDED without an owner; the events record it.\<close>

theorem finish_step_succeeds:
  assumes "wf_db d" "running_step e lease a d t s" "fault e = NoFault"
    and "so_error out = []" "raw_val (so_output out) = Some v" "0 < raw_len (so_output out)"
    and "raw_len (so_output out) \<le> max_json_bytes"
    and "so_checkpoint out = raw_column c" "raw_len (raw_column c) \<le> max_json_bytes"
  shows "\<exists>d' t'. finish_step e lease a out d = (d', Inr ()) \<and>
    find_task (lt_task_id lease) d' = Some t' \<and>
    t_current_step t' = Suc (t_current_step t) \<and>
    t_checkpoint t' = (case c of None \<Rightarrow> t_checkpoint t | Some x \<Rightarrow> x) \<and>
    (if Suc (t_current_step t) = length (steps_of (lt_task_id lease) d)
     then t_status t' = StatusSucceeded \<and> t_worker_id t' = None \<and> t_lease_expires_at t' = None
     else live_lease (clk e 0) t' lease) \<and>
    steps_of (lt_task_id lease) d' =
      set_step (s_id s) (succeed_step (clk e 1) v) (steps_of (lt_task_id lease) d) \<and>
    map fst (log_of (lt_task_id lease) d') = map fst (log_of (lt_task_id lease) d) @
      (if Suc (t_current_step t) = length (steps_of (lt_task_id lease) d)
       then [STEP_SUCCEEDED, TASK_SUCCEEDED] else [STEP_SUCCEEDED])"
  using assms by (rule finish_with_output)

lemma finish_step_succeeds_witness:
  "\<exists>d' t'. finish_step (env_at 300) tok attempt_a good db_started = (d', Inr ()) \<and>
    find_task ''t'' d' = Some t' \<and> t_current_step t' = 1"
  using finish_step_succeeds [OF wf_scenario(3) running_scenario, of good "echo_of (JNum 7 0)" None]
  by (auto simp: good_def good_length max_json_bytes_def env_at_def tok_def claimed_row_def new_row_def)

lemma finish_with_error:
  assumes "wf_db d" "running_step e lease a d t s" "fault e = NoFault"
    and "so_error (limit_outcome out) \<noteq> []"
  shows "\<exists>d'. finish_step e lease a out d = (d', Inr ()) \<and>
    find_task (lt_task_id lease) d' = Some
      (if so_failure_class out = FailureTemporary \<and> s_attempt s < s_max_attempts s
       then leave_running StatusRetryWait
         (Some (clk e 2 + min 60 (2 ^ (s_attempt s - 1)) * 1000000)) (clk e 3) t
       else leave_running StatusFailed None (clk e 3) t) \<and>
    steps_of (lt_task_id lease) d' =
      set_step (s_id s) (fail_step_row (clk e 1) (so_error (limit_outcome out))) (steps_of (lt_task_id lease) d) \<and>
    map fst (log_of (lt_task_id lease) d') = map fst (log_of (lt_task_id lease) d) @
      (if so_failure_class out = FailureTemporary \<and> s_attempt s < s_max_attempts s
       then [STEP_FAILED, TASK_RETRY_WAIT] else [STEP_FAILED, TASK_FAILED])"
proof -
  let ?i = "lt_task_id lease" and ?a = "a\<lparr>at_max_attempts := s_max_attempts s\<rparr>"
  note r = assms(2) [unfolded running_step_def]
  have t: "find_task ?i d = Some t" using r by simp
  have s: "at_step_id a = s_id s" "s \<in> set (steps_of ?i d)" using r find_step_mem by auto
  have "0 < s_attempt s" using wf_row [OF assms(1) t] s(2) r
    by (auto simp: steps_inv_def step_inv_def step_ok_def)
  then have delay: "retry_delay (at_attempt ?a) = Some (min 60 (2 ^ (s_attempt s - 1)))"
    using r by (simp add: delay_closed)
  have cls: "so_failure_class (limit_outcome out) = so_failure_class out"
    by (simp add: limit_outcome_def Let_def)
  have "\<exists>d' x. finish_failed e lease ?a (limit_outcome out) d = Commit d' x"
    using delay by (cases "so_failure_class out = FailureTemporary \<and> at_attempt a < s_max_attempts s")
      (simp_all add: finish_failed_def Let_def cls)
  then obtain d' x where c: "finish_failed e lease ?a (limit_outcome out) d = Commit d' x" by blast
  note rows = finish_failed_rows [OF c t]
  have "finish_step e lease a out d = (d', Inr ())"
    using fault_free_finish [OF assms(3)] running_finish [OF assms(2)] assms(4) c rows(1) by simp
  then show ?thesis
    using rows r s(1) delay cls by simp
qed

text \<open>C28: Finishing the running attempt with an error makes the step FAILED. After a temporary
  failure with attempts left the task waits for a retry due after the delay of C4; otherwise, and
  after any permanent failure, the task is FAILED at once. Either way it has no owner any more.\<close>

theorem finish_step_fails:
  assumes "wf_db d" "running_step e lease a d t s" "fault e = NoFault"
    and "so_error (limit_outcome out) \<noteq> []"
  shows "\<exists>d'. finish_step e lease a out d = (d', Inr ()) \<and>
    find_task (lt_task_id lease) d' = Some
      (if so_failure_class out = FailureTemporary \<and> s_attempt s < s_max_attempts s
       then leave_running StatusRetryWait
         (Some (clk e 2 + min 60 (2 ^ (s_attempt s - 1)) * 1000000)) (clk e 3) t
       else leave_running StatusFailed None (clk e 3) t) \<and>
    steps_of (lt_task_id lease) d' =
      set_step (s_id s) (fail_step_row (clk e 1) (so_error (limit_outcome out))) (steps_of (lt_task_id lease) d) \<and>
    map fst (log_of (lt_task_id lease) d') = map fst (log_of (lt_task_id lease) d) @
      (if so_failure_class out = FailureTemporary \<and> s_attempt s < s_max_attempts s
       then [STEP_FAILED, TASK_RETRY_WAIT] else [STEP_FAILED, TASK_FAILED])"
  using assms by (rule finish_with_error)

lemma finish_step_fails_witness:
  "find_task ''t'' (fst (finish_step (env_at 300) tok attempt_a bad db_started)) = Some
    (leave_running StatusRetryWait (Some 1000302) 303 claimed_row)"
  using finish_step_fails [OF wf_scenario(3) running_scenario, of bad] limit_good
  by (auto simp: bad_def env_at_def tok_def row_a_running_def step_row_def)

section \<open>An attempt is finished once\<close>

lemma finish_ends_attempt:
  assumes "finish_body e lease a out d = Commit d' r"
  shows "\<exists>v. view_of (lt_task_id lease) d' = Some v \<and> attempt_over (at_step_id a) (at_attempt a) now v"
proof -
  let ?i = "lt_task_id lease"
  from finish_body_Commit [OF assms] obtain t s where t: "find_task ?i d = Some t"
      and s: "find_step ?i (at_step_id a) d = Some s" "s_attempt s = at_attempt a"
      and b: "(so_error (limit_outcome out) \<noteq> [] \<and>
        finish_failed e lease (a\<lparr>at_max_attempts := s_max_attempts s\<rparr>) (limit_outcome out) d = Commit d' r) \<or>
       (so_error (limit_outcome out) = [] \<and>
        finish_succeeded e lease (a\<lparr>at_max_attempts := s_max_attempts s\<rparr>) (limit_outcome out) (s_index s) d
          = Commit d' r)"
    by blast
  note mem = find_step_mem [OF s(1)]
  have over: "steps_of ?i d' = set_step (at_step_id a) g (steps_of ?i d) \<Longrightarrow> s_id (g s) = s_id s \<Longrightarrow>
      s_attempt (g s) = s_attempt s \<Longrightarrow> s_status (g s) \<noteq> StepRunning \<Longrightarrow> find_task ?i d' = Some t' \<Longrightarrow> ?thesis" for g t'
    using set_step_image [of s "steps_of ?i d" "at_step_id a" g] mem s(2)
    by (auto simp: view_of_def attempt_over_def)
  from b show ?thesis
  proof (elim disjE conjE)
    assume "finish_failed e lease (a\<lparr>at_max_attempts := s_max_attempts s\<rparr>) (limit_outcome out) d = Commit d' r"
    note rows = finish_failed_rows [OF this t]
    show ?thesis by (rule over [OF rows(2) [simplified] _ _ _ rows(3)]) simp_all
  next
    assume c: "finish_succeeded e lease (a\<lparr>at_max_attempts := s_max_attempts s\<rparr>) (limit_outcome out)
      (s_index s) d = Commit d' r"
    then obtain v where "raw_val (so_output (limit_outcome out)) = Some v"
      by (auto simp: finish_succeeded_def json_valid_def split: if_splits)
    note rows = finish_succeeded_rows [OF c t this]
    show ?thesis by (rule over [OF rows(2) [simplified] _ _ _ rows(3)]) simp_all
  qed
qed

lemma attempt_over_refused:
  assumes wf: "wf_db d" and v: "view_of (lt_task_id lease) d = Some v"
    and over: "attempt_over (at_step_id a) (at_attempt a) now v"
  shows "\<exists>x. finish_step e lease a out d = (d, Inl x)"
proof -
  from over view_of_parts [OF v] obtain s where s: "s \<in> set (steps_of (lt_task_id lease) d)" "s_id s = at_step_id a"
      "at_attempt a < s_attempt s \<or> at_attempt a = s_attempt s \<and> s_status s \<noteq> StepRunning"
    by (auto simp: attempt_over_def)
  have "finish_body e lease a out d \<noteq> Commit d' r" for d' r
  proof
    assume "finish_body e lease a out d = Commit d' r"
    from finish_body_Commit [OF this] obtain s' where s': "find_step (lt_task_id lease) (at_step_id a) d = Some s'"
        "s_status s' = StepRunning" "s_attempt s' = at_attempt a" by blast
    from find_step_only [OF wf s'(1) s(1,2)] s(3) s'(2,3) show False by simp
  qed
  then obtain x where "finish_body e lease a out d = Rollback (Inl x)"
    using finish_admits(2) by (metis sum.exhaust txn.exhaust)
  then show ?thesis by (simp add: finish_step_def Let_def)
qed

text \<open>C29: An attempt is finished at most once. After a committed finish, no later finish of the same
  attempt, by any worker and with any outcome, has an effect; it is answered with an error.\<close>

theorem attempt_finished_once:
  assumes "reachable st (d, now)" "clock_ok now e"
    and "finish_step e lease a out d = (d1, Inr ())"
    and "run (sys_step st) (d1, clk e 10) acts (d2, now2)"
    and "lt_task_id lease' = lt_task_id lease" "at_step_id b = at_step_id a" "at_attempt b = at_attempt a"
    and "fault e = NoFault"
  shows "\<exists>x. finish_step e' lease' b out' d2 = (d2, Inl x)"
proof -
  have wf: "wf_db d" using assms(1) reachable_wf_db by fastforce
  have "wf_db (perform st (FinishStep e lease a out) d)" by (rule perform_wf [OF wf]) simp
  then have wf1: "wf_db d1" using assms(3) by simp
  from assms(3) have "finish_body e lease a out d = Commit d1 (Inr ())"
    using finish_admits(2) assms(8) by (cases "finish_body e lease a out d") (auto simp: finish_step_def Let_def)
  from finish_ends_attempt [OF this] obtain v where v: "view_of (lt_task_id lease) d1 = Some v"
      "attempt_over (at_step_id a) (at_attempt a) (clk e 10) v" by blast
  from attempt_over.lasts [OF assms(4) wf1 v] obtain v' where
      "view_of (lt_task_id lease) d2 = Some v'" "attempt_over (at_step_id a) (at_attempt a) now2 v'" by blast
  then show ?thesis
    using attempt_over_refused [OF run_wf [OF assms(4) wf1], of lease' v' b] assms(5-7) by simp
qed

lemma attempt_finished_once_witness:
  "\<exists>x. finish_step (env_at 400) tok attempt_a bad db_finished = (db_finished, Inl x)"
  using attempt_finished_once [OF reach_started _ run_finish run_nil, of tok attempt_a]
  by (auto simp: env_at_def clock_ok_def mono_def)

section \<open>Failures of the connection\<close>

text \<open>C30: A commit whose response is lost is invisible: as long as the confirming query can be made
  and nobody interferes, StartStep, WaitForApproval, DecideApproval and FinishStep leave the same
  database and give the same answer as without the failure.\<close>

theorem lost_commit_answered:
  assumes "wf_db d" "fault e = CommitLost" "\<not> later_fails e" "later e = (\<lambda>x. x)"
    and "decision \<in> {''approved'', ''rejected''}" "at_task_id a = lt_task_id lease"
  shows "start_step e lease sid d = start_step (e\<lparr>fault := NoFault\<rparr>) lease sid d \<and>
    wait_for_approval e lease sid d = wait_for_approval (e\<lparr>fault := NoFault\<rparr>) lease sid d \<and>
    decide_approval e tid sid decision d = decide_approval (e\<lparr>fault := NoFault\<rparr>) tid sid decision d \<and>
    finish_step e lease a out d = finish_step (e\<lparr>fault := NoFault\<rparr>) lease a out d"
  using assms(5,6)
  by (auto simp: start_step_confirmed wait_confirmed decide_confirmed finish_confirmed
      intro: start_confirmed.lost_answered [OF assms(1-4)] wait_confirmed.lost_answered [OF assms(1-4)]
        decide_confirmed.lost_answered [OF assms(1-4)] finish_confirmed.lost_answered [OF assms(1-4)])

lemma lost_commit_answered_witness:
  "finish_step (env_at 300\<lparr>fault := CommitLost\<rparr>) tok attempt_a good db_started = (db_finished, Inr ())"
proof -
  have "env_at 300\<lparr>fault := NoFault\<rparr> = env_at 300" by (simp add: env_at_def)
  moreover have "later (env_at 300) = (\<lambda>x. x)" "\<not> later_fails (env_at 300)" "at_task_id attempt_a = lt_task_id tok"
    by (simp_all add: env_at_def attempt_a_def tok_def)
  ultimately show ?thesis
    using lost_commit_answered [OF wf_scenario(3), of "env_at 300\<lparr>fault := CommitLost\<rparr>" "''approved''" attempt_a tok]
    by (simp add: run_finish)
qed

text \<open>A commit the database refused is never reported as done: the database is as before, and
  StartStep, WaitForApproval and FinishStep answer an error.\<close>

theorem refused_commit_reported:
  assumes "wf_db d" "fault e = CommitRejected" "later e = (\<lambda>x. x)" "at_task_id a = lt_task_id lease"
  shows "(\<exists>x. start_step e lease sid d = (d, Inl x)) \<and> (\<exists>x. wait_for_approval e lease sid d = (d, Inl x)) \<and>
    (\<exists>x. finish_step e lease a out d = (d, Inl x)) \<and> fst (decide_approval e tid sid decision d) = d"
proof (intro conjI)
  show "\<exists>x. start_step e lease sid d = (d, Inl x)"
    unfolding start_step_confirmed by (rule start_confirmed.refused_error [OF assms(1-3) start_admits(2)])
  show "\<exists>x. wait_for_approval e lease sid d = (d, Inl x)"
    unfolding wait_confirmed by (rule wait_confirmed.refused_error [OF assms(1-3) wait_admits(2)])
  show "\<exists>x. finish_step e lease a out d = (d, Inl x)"
    unfolding finish_confirmed [OF assms(4)]
    by (rule finish_confirmed.refused_error [OF assms(1-3)]) (simp add: finish_own_def finish_admits(2))
  show "fst (decide_approval e tid sid decision d) = d"
    using decide_confirmed.refused_reported [OF assms(1-3)] decide_confirmed
    by (cases "decision = ''approved'' \<or> decision = ''rejected''") (auto simp: decide_approval_def)
qed

lemma refused_commit_reported_witness:
  "\<exists>x. finish_step (env_at 300\<lparr>fault := CommitRejected\<rparr>) tok attempt_a good db_started = (db_started, Inl x)"
proof -
  have "later (env_at 300) = (\<lambda>x. x)" "at_task_id attempt_a = lt_task_id tok"
    by (simp_all add: env_at_def attempt_a_def tok_def)
  then show ?thesis
    using refused_commit_reported [OF wf_scenario(3), of "env_at 300\<lparr>fault := CommitRejected\<rparr>" attempt_a tok] by simp
qed

section \<open>Cancellation and deadlines\<close>

text \<open>A task whose cancellation was requested or whose deadline has passed makes no progress by
  its owner: RenewLease, StartStep, WaitForApproval and FinishStep leave the database alone and
  answer an error, even with the live lease.\<close>

theorem no_progress_after_cancel_or_deadline:
  assumes "find_task (lt_task_id lease) d = Some t" "t_cancel_requested t \<or> overdue (clk e 0) t"
  shows "(\<exists>x. renew_lease st e lease d = (d, Inl x)) \<and> (\<exists>x. start_step e lease sid d = (d, Inl x)) \<and>
    (\<exists>x. wait_for_approval e lease sid d = (d, Inl x)) \<and> (\<exists>x. finish_step e lease a out d = (d, Inl x))"
  using assms renew.cancelled_no_progress [of lease d t st e] renew.overdue_no_progress [of lease d t e st]
    start.cancelled_no_progress [of lease d t e sid] start.overdue_no_progress [of lease d t e sid]
    await.cancelled_no_progress [of lease d t e sid] await.overdue_no_progress [of lease d t e sid]
    finish.cancelled_no_progress [of lease d t e a out] finish.overdue_no_progress [of lease d t e a out]
  by (auto simp: prod_eq_iff)

lemma no_progress_after_cancel_or_deadline_witness:
  "\<exists>x. finish_step (env_at 61000000) tok attempt_a good db_started = (db_started, Inl x)"
  using no_progress_after_cancel_or_deadline [of tok db_started claimed_row "env_at 61000000"] task_read(2)
  by (simp add: tok_def overdue_def claimed_row_def)

lemma cancel_by_status:
  assumes "wf_db d" "find_task i d = Some t" "fault e = NoFault"
  shows "case t_status t of
      StatusCancelled \<Rightarrow> cancel_task e i d = (d, Inr CancelledSynchronously)
    | StatusSucceeded \<Rightarrow> cancel_task e i d = (d, Inl ErrConflict)
    | StatusFailed \<Rightarrow> cancel_task e i d = (d, Inl ErrConflict)
    | StatusTimedOut \<Rightarrow> cancel_task e i d = (d, Inl ErrConflict)
    | StatusRunning \<Rightarrow>
        (\<exists>d'. cancel_task e i d = (d', Inr CancellationRequested) \<and>
          view_of i d' = Some (t\<lparr>t_cancel_requested := True, t_updated_at := clk e 1\<rparr>, steps_of i d, log_of i d))
    | _ \<Rightarrow>
        (\<exists>d' s. cancel_task e i d = (d', Inr CancelledSynchronously) \<and>
          find_task i d' = Some (leave_running StatusCancelled None (clk e 4) t) \<and>
          step_at i (t_current_step t) d = Some s \<and>
          steps_of i d' = set_step (s_id s) (fail_step_row (clk e 2) ''user_cancelled'') (steps_of i d) \<and>
          map fst (log_of i d') = map fst (log_of i d) @ [STEP_FAILED, TASK_CANCELLED])"
proof (cases "is_terminal_status (t_status t) \<or> t_status t = StatusRunning")
  case True
  with assms(2,3) show ?thesis
    by (cases "t_status t") (auto simp: cancel_task_def cancel_body_def lock_task_def view_of_def view_simps)
next
  case False
  note inv = wf_row [OF assms(1,2)]
  have "t_status t \<noteq> StatusSucceeded" using False by auto
  then obtain s where s: "step_at i (t_current_step t) d = Some s"
    using inv current_of_None [of t "steps_of i d"] current_of_step_at [OF assms(2)]
    by (cases "step_at i (t_current_step t) d") auto
  have "s_status s \<noteq> StepSucceeded"
    using inv step_at_mem [OF s] current_ok_not_succeeded [of "t_status t" s]
    by (auto simp: steps_inv_def step_inv_def position_ok_def)
  with s False assms(2,3) show ?thesis
    by (cases "t_status t") (auto simp: cancel_task_def cancel_body_def lock_task_def finish_controlled_task_def
        finish_controlled_step_def cancelled_outcome_def Let_def view_simps leave_running_def fail_step_row_def [abs_def])
qed

text \<open>CancelTask without failures, by the status of the task. A cancelled task answers again
  that it is cancelled; any other final task is a conflict; a running task keeps its owner and
  gets the request; every other task is CANCELLED at once, its current step FAILED, and its log
  ends with the step's failure and the cancellation.\<close>

theorem cancel_task_by_status:
  assumes "wf_db d" "find_task i d = Some t" "fault e = NoFault"
  shows "case t_status t of
      StatusCancelled \<Rightarrow> cancel_task e i d = (d, Inr CancelledSynchronously)
    | StatusSucceeded \<Rightarrow> cancel_task e i d = (d, Inl ErrConflict)
    | StatusFailed \<Rightarrow> cancel_task e i d = (d, Inl ErrConflict)
    | StatusTimedOut \<Rightarrow> cancel_task e i d = (d, Inl ErrConflict)
    | StatusRunning \<Rightarrow>
        (\<exists>d'. cancel_task e i d = (d', Inr CancellationRequested) \<and>
          view_of i d' = Some (t\<lparr>t_cancel_requested := True, t_updated_at := clk e 1\<rparr>, steps_of i d, log_of i d))
    | _ \<Rightarrow>
        (\<exists>d' s. cancel_task e i d = (d', Inr CancelledSynchronously) \<and>
          find_task i d' = Some (leave_running StatusCancelled None (clk e 4) t) \<and>
          step_at i (t_current_step t) d = Some s \<and>
          steps_of i d' = set_step (s_id s) (fail_step_row (clk e 2) ''user_cancelled'') (steps_of i d) \<and>
          map fst (log_of i d') = map fst (log_of i d) @ [STEP_FAILED, TASK_CANCELLED])"
  using assms by (rule cancel_by_status)

lemma cancel_task_by_status_witness:
  "\<exists>d'. cancel_task (env_at 400) ''t'' db_waiting = (d', Inr CancelledSynchronously)"
proof -
  obtain t where "find_task ''t'' db_waiting = Some t" "t_status t = StatusWaitingApproval"
    by (simp add: db_waiting_def find_task_def row_at_def claimed_row_def new_row_def)
  with cancel_task_by_status [OF wf_scenario(6) this(1), of "env_at 400"] show ?thesis
    by (auto simp: env_at_def)
qed

section \<open>Creation\<close>

lemma step_rows_shape: "insert_steps new_id tid i sds d = Inr d' \<Longrightarrow>
    map (\<lambda>s. (s_type s, Some (s_input s), int (s_max_attempts s), int (s_timeout_seconds s)))
      (step_rows new_id tid i sds) =
    map (\<lambda>sd. (sd_type sd, raw_val (sd_input sd), sd_max_attempts sd, sd_timeout_seconds sd)) sds"
proof (induction sds arbitrary: i d)
  case (Cons sd sds)
  from Cons.prems obtain sid input d1 where
      parts: "new_id (Suc i) = Inr sid" "to_jsonb (sd_input sd) = Some input"
        "positive_int4 (sd_max_attempts sd)" "positive_int4 (sd_timeout_seconds sd)"
        "insert_steps new_id tid (Suc i) sds d1 = Inr d'"
    by (auto split: sum.splits option.splits if_splits)
  with Cons.IH [OF parts(5)] to_jsonb_val [OF parts(2)] show ?case by (simp add: new_step_def positive_int4_def)
qed simp

lemma sort_key_sorted: "sorted (map f xs) \<Longrightarrow> sort_key f xs = xs"
  by (induction xs) (auto simp: insort_is_Cons)

lemma create_body_no_return: "create_body e tid new_id td d \<noteq> Rollback (Inr x)"
  by (auto simp: create_body_def Let_def split: sum.splits)

lemma create_task_Inr: "create_task e new_id td d = (d', Inr ld) \<Longrightarrow>
    \<exists>tid. new_id 0 = Inr tid \<and> create_body e tid new_id td d = Commit d' (Inr tid) \<and>
      load_task (later e d') (later e d') tid = Inr ld"
proof -
  assume c: "create_task e new_id td d = (d', Inr ld)"
  then obtain tid where tid: "new_id 0 = Inr tid" by (auto simp: create_task_def split: sum.splits)
  obtain d1 r where run: "run_tx e d (create_body e tid new_id td d) = (d1, r)" by fastforce
  from c tid run obtain y where y: "r = Inr y" "d1 = d'" "load_task (later e d') (later e d') tid = Inr ld"
    by (auto simp: create_task_def split: sum.splits if_splits)
  from run_tx_Inr [OF run [unfolded y]] create_body_no_return
  have body: "create_body e tid new_id td d = Commit d' (Inr y)" by blast
  from create_body_Commit [OF this] have "y = tid" by simp
  with tid body y show ?thesis by blast
qed

lemma fresh_steps: "wf_db d \<Longrightarrow> find_task tid d = None \<Longrightarrow> steps_of tid d = []"
  using steps_task [of d _ tid] by (cases "steps_of tid d") fastforce+

lemma created_rows:
  assumes "wf_db d" "create_task e new_id td d = (d', Inr ld)" "later e = (\<lambda>x. x)"
  shows "\<exists>tid. new_id 0 = Inr tid \<and> find_task tid d = None \<and> find_task tid d' = Some (ld_task ld) \<and>
    ld_task ld = new_task e tid td \<and> ld_steps ld = steps_of tid d' \<and>
    map s_index (ld_steps ld) = [0..<length (td_steps td)] \<and>
    map (\<lambda>s. (s_type s, Some (s_input s), int (s_max_attempts s), int (s_timeout_seconds s))) (ld_steps ld) =
      map (\<lambda>sd. (sd_type sd, raw_val (sd_input sd), sd_max_attempts sd, sd_timeout_seconds sd)) (td_steps td) \<and>
    (\<forall>s \<in> set (ld_steps ld). s_status s = StepPending \<and> s_attempt s = 0 \<and>
      s_idempotency_key s = tid @ '':'' @ s_id s)"
proof -
  from create_task_Inr [OF assms(2)] assms(3) obtain tid where tid: "new_id 0 = Inr tid"
      and c: "create_body e tid new_id td d = Commit d' (Inr tid)" and ld: "load_task d' d' tid = Inr ld"
    by auto
  from create_body_Commit [OF c] obtain d2 where fresh: "find_task tid d = None"
      and ins: "insert_steps new_id tid 0 (td_steps td) (d\<lparr>tasks := tasks d @ [new_task e tid td]\<rparr>) = Inr d2"
      and rows: "tasks d' = tasks d @ [new_task e tid td]" "steps d' = steps d @ step_rows new_id tid 0 (td_steps td)"
    by blast
  let ?ss = "step_rows new_id tid 0 (td_steps td)"
  have len: "length ?ss = length (td_steps td)" using insert_steps_Inr [OF ins] by simp
  have "filter (\<lambda>s. s_task_id s = tid) ?ss = ?ss"
    using step_rows_task by (fastforce simp: filter_id_conv)
  then have ss: "steps_of tid d' = ?ss"
    using fresh_steps [OF assms(1) fresh] rows(2) by (simp add: steps_of_def)
  have id: "t_id (new_task e tid td) = tid" by (simp add: new_task_def)
  then have t: "find_task tid d' = Some (new_task e tid td)"
    using fresh rows(1) by (simp add: find_task_def row_at_append row_at_single)
  have ix: "map s_index ?ss = [0..<length (td_steps td)]"
    using step_rows_index [OF len] by simp
  then have "sort_key s_index ?ss = ?ss"
    by (intro sort_key_sorted) simp
  with ld t ss have "ld_task ld = new_task e tid td" "ld_steps ld = ?ss"
    by (auto simp: load_task_def)
  then show ?thesis
    using tid fresh t ss ix step_rows_shape [OF ins] step_rows_task by fastforce
qed

lemma create_loads: "(case snd (create_task (env_at 0) ids (task_def ''echo'') empty_db) of
    Inl x \<Rightarrow> False | Inr ld \<Rightarrow> True)"
  by code_simp

text \<open>C35: A created task is loaded as it was defined: its steps in the order of the definition with
  their types, inputs and limits, all pending, the task SCHEDULED when its time is in the future
  and RUNNABLE otherwise, at its first step, never claimed.\<close>

theorem created_task_is_loaded:
  assumes "wf_db d" "create_task e new_id td d = (d', Inr ld)" "later e = (\<lambda>x. x)"
  shows "\<exists>tid. new_id 0 = Inr tid \<and> find_task tid d = None \<and> find_task tid d' = Some (ld_task ld) \<and>
    ld_task ld = new_task e tid td \<and> ld_steps ld = steps_of tid d' \<and>
    map s_index (ld_steps ld) = [0..<length (td_steps td)] \<and>
    map (\<lambda>s. (s_type s, Some (s_input s), int (s_max_attempts s), int (s_timeout_seconds s))) (ld_steps ld) =
      map (\<lambda>sd. (sd_type sd, raw_val (sd_input sd), sd_max_attempts sd, sd_timeout_seconds sd)) (td_steps td) \<and>
    (\<forall>s \<in> set (ld_steps ld). s_status s = StepPending \<and> s_attempt s = 0 \<and>
      s_idempotency_key s = tid @ '':'' @ s_id s)"
  using assms by (rule created_rows)

lemma created_task_is_loaded_witness:
  "\<exists>ld. create_task (env_at 0) ids (task_def ''echo'') empty_db = (db_new ''echo'', Inr ld) \<and>
    map s_type (ld_steps ld) = [''echo'', ''echo'']"
proof -
  obtain ld where ld: "create_task (env_at 0) ids (task_def ''echo'') empty_db = (db_new ''echo'', Inr ld)"
    using create_loads run_create
    by (cases "create_task (env_at 0) ids (task_def ''echo'') empty_db") (auto split: sum.splits)
  from created_task_is_loaded [OF wf_empty ld] have "ld_steps ld = steps_of ''t'' (db_new ''echo'')"
    by (auto simp: env_at_def)
  moreover have "map s_type (steps_of ''t'' (db_new ''echo'')) = [''echo'', ''echo'']" by code_simp
  ultimately show ?thesis using ld by simp
qed

text \<open>A creation that reports an error, other than a failed read of the task it created or a lost
  commit response, leaves no trace.\<close>

theorem failed_creation_leaves_nothing:
  assumes "create_task e new_id td d = (d', Inl x)" "fault e \<noteq> CommitLost" "\<not> later_fails e" "later e = (\<lambda>x. x)"
  shows "d' = d"
proof (cases "new_id 0")
  case (Inr tid)
  show ?thesis
  proof (cases "create_body e tid new_id td d")
    case (Commit d1 r)
    from create_body_Commit [OF Commit] have "find_task tid d1 = Some (new_task e tid td)" "r = Inr tid"
      by (auto simp: find_task_def row_at_append row_at_single new_task_def split: option.splits)
    with assms Inr Commit show ?thesis
      by (cases "fault e") (auto simp: create_task_def load_task_def)
  qed (use assms(1) Inr in \<open>auto simp: create_task_def split: prod.splits sum.splits if_splits\<close>)
qed (use assms(1) in \<open>simp add: create_task_def\<close>)

lemma failed_creation_leaves_nothing_witness:
  "\<exists>d' x. create_task (env_at 500) ids (task_def ''echo'') (db_new ''echo'') = (d', Inl x) \<and> d' = db_new ''echo''"
proof -
  have no: "(case snd (create_task (env_at 500) ids (task_def ''echo'') (db_new ''echo'')) of
      Inl x \<Rightarrow> True | Inr ld \<Rightarrow> False)" by code_simp
  obtain d' r where c: "create_task (env_at 500) ids (task_def ''echo'') (db_new ''echo'') = (d', r)" by fastforce
  with no obtain x where "r = Inl x" by (cases r) auto
  with c failed_creation_leaves_nothing [of "env_at 500" ids "task_def ''echo''" "db_new ''echo''" d' x]
  show ?thesis by (simp add: env_at_def)
qed

section \<open>Resolving inputs\<close>

text \<open>C36: An input the check of its creation lets through resolves exactly when the values it refers
  to are there: the previous output (for which the first step may not ask) and the checkpoint.
  An input the check refuses never resolves.\<close>

theorem checked_input_resolves:
  "(\<exists>r. resolve_input (raw_of v) (raw_column p) (raw_of c) = Inr r) \<longleftrightarrow>
     validate_input_references (raw_of v) (p \<noteq> None \<and> p \<noteq> Some JNull) = Inr () \<and>
     \<not> (uses_ref ''checkpoint'' v \<and> c = JNull)"
proof -
  let ?p = "case p of None \<Rightarrow> JNull | Some x \<Rightarrow> x"
  have "(\<exists>r. resolve_input (raw_of v) (raw_column p) (raw_of c) = Inr r) \<longleftrightarrow> (\<exists>r. resolve_value v ?p c = Inr r)"
    unfolding resolve_input_columns by (auto split: sum.splits)
  also have "\<dots> \<longleftrightarrow> validate_references v (?p \<noteq> JNull) = Inr () \<and> (uses_ref ''checkpoint'' v \<longrightarrow> c \<noteq> JNull)"
    unfolding resolve_value_iff(1) using validate_allow_previous(1) [of v] by (cases "?p = JNull") auto
  finally show ?thesis by (cases p) (auto simp: validate_input_references_def)
qed

text \<open>
  An approval has no output. A step right after it that refers to the previous output is accepted
  at creation and can never be started.
\<close>

lemma resolve_without_previous: "uses_ref ''previous_output'' v \<Longrightarrow>
    \<exists>x. resolve_input (raw_of v) (raw_column None) (raw_of c) = Inl x"
  using resolve_value_iff(1) [of v JNull c] unfolding resolve_input_columns
  by (auto split: sum.splits)

text \<open>C38: A step that follows an approval and refers to \<open>previous_output\<close> can never be started: in
  every reachable state StartStep answers an error and changes nothing, so its attempts are never
  spent and the task stays in the hands of its workers until it is cancelled or times out.\<close>

theorem step_after_approval_cannot_start:
  assumes "reachable st (d, now)" "p \<in> set (steps_of i d)" "s \<in> set (steps_of i d)"
    and "s_type p = step_type_approval" "s_index s = Suc (s_index p)"
    and "uses_ref ''previous_output'' (s_input s)" "s_resolved_input s = None" "lt_task_id lease = i"
  shows "\<exists>x. start_step e lease (s_id s) d = (d, Inl x)"
proof -
  have wf: "wf_db d" using assms(1) reachable_wf_db by fastforce
  then obtain t where t: "find_task i d = Some t" using steps_task [OF _ assms(3)] by blast
  note inv = wf_row [OF wf t]
  have out: "s_output p = None"
    using inv assms(2,4) by (auto simp: steps_inv_def step_inv_def step_ok_def)
  have only: "q \<in> set (steps_of i d) \<Longrightarrow> s_index q = s_index p \<Longrightarrow> q = p" for q
    using inv index_inj [of "steps_of i d" p q] assms(2) by (auto simp: steps_inv_def)
  have "\<exists>x. resolved_input_of i s c d = Inl x" for c
  proof (cases "find (\<lambda>q. s_index q = s_index s - 1 \<and> s_status q = StepSucceeded) (steps_of i d)")
    case (Some q)
    then have "q = p" using only assms(5) by (auto simp: find_Some_iff)
    with Some out assms(5,7) resolve_without_previous [OF assms(6), of c]
    show ?thesis by (auto simp: resolved_input_of_def)
  qed (use assms(5,7) in \<open>simp add: resolved_input_of_def\<close>)
  then have bad: "resolved_input_of i s c d \<noteq> Inr r" for c r by (metis Inl_Inr_False)
  have "start_body e lease (s_id s) d \<noteq> Commit d' r" for d' r
  proof
    assume "start_body e lease (s_id s) d = Commit d' r"
    then obtain s' c r' where "find_step i (s_id s) d = Some s'" "resolved_input_of i s' c d = Inr r'"
      using assms(8) by (auto simp: start_body_def split: sum.splits option.splits if_splits)
    moreover from this(1) find_step_only [OF wf _ assms(3)] have "s' = s" by auto
    ultimately show False using bad by simp
  qed
  then obtain x where "start_body e lease (s_id s) d = Rollback (Inl x)"
    using start_admits(2) by (metis sum.exhaust txn.exhaust)
  then show ?thesis by (simp add: start_step_def Let_def)
qed

lemma step_after_approval_cannot_start_witness:
  "\<exists>x. start_step (env_at 500) tok2 ''b'' (perform st0 (ClaimTask (env_at 400) ''v'') db_approved) =
    (perform st0 (ClaimTask (env_at 400) ''v'') db_approved, Inl x)"
proof -
  let ?d = "perform st0 (ClaimTask (env_at 400) ''v'') db_approved"
  let ?p = "row_a_waiting\<lparr>s_approval_decision := Some ''approved'', s_status := StepSucceeded,
    s_finished_at := Some 301\<rparr>"
  have "steps_of ''t'' ?d = [?p, row_b]" by code_simp
  moreover have "uses_ref ''previous_output'' (s_input row_b)" by code_simp
  moreover have "reachable st0 (?d, clk (env_at 400) 10)"
    using reach_perform [OF reach_approved, of "ClaimTask (env_at 400) ''v''"] by simp
  ultimately show ?thesis
    using step_after_approval_cannot_start [of st0 ?d "clk (env_at 400) 10" ?p "''t''" row_b tok2 "env_at 500"]
    by (simp add: row_a_waiting_def step_row_def row_b_def step_type_approval_def tok2_def)
qed

end
