(* ===== verification/Scheduler.thy ===== *)
theory Scheduler
  imports Store_Operations
begin

text \<open>
  \<open>internal/scheduler/scheduler.go\<close>: the polling loop around \<open>ProcessDueControl\<close>. A call of the
  store has its own environment; the context of the loop ends when the list of environments does.
\<close>

section \<open>The loop\<close>

record scheduler_options =
  so_poll_interval :: int

text \<open>\<open>New\<close>: a non-positive poll interval is one second (in nanoseconds).\<close>

definition new_scheduler :: "scheduler_options \<Rightarrow> scheduler_options" where
  "new_scheduler opts =
     (if so_poll_interval opts \<le> 0 then opts\<lparr>so_poll_interval := 1000000000\<rparr> else opts)"

text \<open>
  Why the inner loop stops: the context is done, the scan failed (logged), nothing was due.
\<close>

datatype scan_end = ContextDone | ScanFailed err | NothingDue

fun scan :: "env list \<Rightarrow> db \<Rightarrow> db \<times> nat \<times> scan_end" where
  "scan [] d = (d, 0, ContextDone)"
| "scan (e # es) d =
     (case process_due_control e d of
        (d', Inl x) \<Rightarrow> (d', 0, ScanFailed x)
      | (d', Inr False) \<Rightarrow> (d', 0, NothingDue)
      | (d', Inr True) \<Rightarrow> (case scan es d' of (d'', n, r) \<Rightarrow> (d'', Suc n, r)))"

text \<open>\<open>Run\<close>: one inner loop per poll, the waits between them; other clients act in the waits.\<close>

fun run_scheduler :: "(env list \<times> (db \<Rightarrow> db)) list \<Rightarrow> db \<Rightarrow> db" where
  "run_scheduler [] d = d"
| "run_scheduler ((es, wait) # polls) d = run_scheduler polls (wait (fst (scan es d)))"

section \<open>One transition\<close>

text \<open>How many control transitions a task can still go through: waking up, and ending.\<close>

fun control_left :: "task_status \<Rightarrow> nat" where
  "control_left StatusScheduled = 2"
| "control_left StatusRetryWait = 2"
| "control_left StatusRunnable = 1"
| "control_left StatusRunning = 1"
| "control_left StatusWaitingApproval = 1"
| "control_left _ = 0"

definition control_budget :: "db \<Rightarrow> nat" where
  "control_budget d = sum_list (map (\<lambda>t. control_left (t_status t)) (tasks d))"

lemma control_left_pos: "0 < control_left st \<longleftrightarrow> \<not> is_terminal_status st"
  by (cases st) auto

lemma tasks_frame [simp]:
  "tasks (update_step i sid g d) = tasks d" "tasks (insert_event now i ty p d) = tasks d"
  "tasks (update_task i f d) = update_at t_id i f (tasks d)"
  "tasks (finish_controlled_step e i k reason d) = tasks d"
  by (simp_all add: update_step_def insert_event_def update_task_def finish_controlled_step_def split: option.splits)

definition woken :: "env \<Rightarrow> task \<Rightarrow> task" where
  "woken e t =
     (if t_cancel_requested t then leave_running StatusCancelled None (clk e 4) t
      else if overdue (clk e 1) t then leave_running StatusTimedOut None (clk e 4) t
      else if t_status t = StatusRetryWait
      then t\<lparr>t_status := StatusRunnable, t_retry_at := None, t_updated_at := clk e 2\<rparr>
      else t\<lparr>t_status := StatusRunnable, t_updated_at := clk e 2\<rparr>)"

lemma process_due_rows:
  assumes "wf_db d" "process_due_body e d = Commit d' r" "due_candidate e d = Some t"
  shows "r = Inr True \<and> tasks d' = update_at t_id (t_id t) (\<lambda>u. if t_id u = t_id t then woken e t else u) (tasks d)"
proof -
  have t: "find_task (t_id t) d = Some t" "t \<in> set (tasks d)"
    using assms due_candidate_Some [OF assms(3)] by (auto simp: wf_db_def intro: find_task_distinct)
  have only: "u \<in> set (tasks d) \<Longrightarrow> t_id u = t_id t \<Longrightarrow> u = t" for u
    using assms(1) t(2) by (auto simp: wf_db_def distinct_map dest: inj_onD)
  have "r = Inr True \<and> (\<exists>f. tasks d' = update_at t_id (t_id t) f (tasks d) \<and> f t = woken e t)"
  proof (cases "t_cancel_requested t \<or> overdue (clk e 1) t")
    case True
    with assms(2,3) show ?thesis
      by (auto simp: process_due_body_def woken_def finish_controlled_task_def Let_def overdue_alt
          cancelled_outcome_def timed_out_outcome_def leave_running_def split: if_splits)
  next
    case False
    with assms(2,3) t(1) show ?thesis
      by (auto simp: process_due_body_def woken_def wake_retry_task_def wake_scheduled_task_def overdue_alt
          split: if_splits)
  qed
  then obtain f where f: "r = Inr True" "tasks d' = update_at t_id (t_id t) f (tasks d)" "f t = woken e t"
    by blast
  have "update_at t_id (t_id t) f (tasks d) =
      update_at t_id (t_id t) (\<lambda>u. if t_id u = t_id t then f t else u) (tasks d)"
    unfolding update_at_def by (intro map_cong refl) (auto dest: only)
  with f(1,2) show ?thesis unfolding f(3) by simp
qed

lemma budget_drop:
  assumes "distinct (map t_id ts)" "t \<in> set ts" "control_left (t_status t') < control_left (t_status t)"
  shows "sum_list (map (\<lambda>u. control_left (t_status u))
      (update_at t_id (t_id t) (\<lambda>u. if t_id u = t_id t then t' else u) ts)) <
    sum_list (map (\<lambda>u. control_left (t_status u)) ts)"
  using assms
proof (induction ts)
  case (Cons u us)
  show ?case
  proof (cases "u = t")
    case True
    then have "update_at t_id (t_id t) (\<lambda>u. if t_id u = t_id t then t' else u) us = us"
      using Cons.prems(1) unfolding update_at_def by (intro map_idI) (auto simp: rev_image_eqI)
    with True Cons.prems(3) show ?thesis by (simp add: update_at_def)
  next
    case False
    with Cons have "t_id u \<noteq> t_id t" by (auto simp: rev_image_eqI)
    with Cons False show ?thesis by (simp add: update_at_def)
  qed
qed simp

lemma process_due_spends: "wf_db d \<Longrightarrow> process_due_control e d = (d', Inr True) \<Longrightarrow>
    control_budget d' < control_budget d"
proof -
  assume wf: "wf_db d" and p: "process_due_control e d = (d', Inr True)"
  then have body: "process_due_body e d = Commit d' (Inr True)"
    using run_tx_Inr [of e d "process_due_body e d" d' True]
    by (auto simp: process_due_control_def process_due_body_def split: option.splits if_splits sum.splits)
  then obtain t where t: "due_candidate e d = Some t"
    by (auto simp: process_due_body_def split: option.splits)
  from due_candidate_Some [OF t] have due: "due (clk e 0) t" "t \<in> set (tasks d)" by auto
  have "control_left (t_status (woken e t)) < control_left (t_status t)"
    using body t due control_left_pos [of "t_status t"]
    by (auto simp: woken_def leave_running_def due_def process_due_body_def wake_scheduled_task_def overdue_alt
        split: if_splits option.splits)
  with process_due_rows [OF wf body t] budget_drop [OF _ due(2)] wf show ?thesis
    by (simp add: control_budget_def wf_db_def)
qed

section \<open>The properties\<close>

lemma urgent_handled:
  assumes "wf_db d" "fault e = NoFault" "mono (clk e)" "due_candidate e d = Some t"
  shows "\<exists>d'. process_due_control e d = (d', Inr True) \<and>
    find_task (t_id t) d = Some t \<and> find_task (t_id t) d' = Some (woken e t) \<and>
    (\<forall>u \<in> set (tasks d). due (clk e 0) u \<and> \<not> row_locked e (t_id u) \<longrightarrow>
      due_priority (clk e 0) t \<le> due_priority (clk e 0) u)"
proof -
  note cand = due_candidate_Some [OF assms(4)]
  have t: "find_task (t_id t) d = Some t" using cand assms(1) by (auto simp: wf_db_def intro: find_task_distinct)
  have "clk e 0 \<le> clk e 1" using assms(3) by (simp add: monoD)
  with cand have "t_cancel_requested t \<or> overdue (clk e 1) t \<or>
      (t_status t = StatusRetryWait \<and> at_or_before (t_retry_at t) (clk e 1)) \<or>
      (t_status t = StatusScheduled \<and> t_run_at t \<le> clk e 1)"
    by (auto simp: due_def overdue_alt [symmetric] at_or_before_def split: option.splits)
  with assms(4) t have "\<exists>d'. process_due_body e d = Commit d' (Inr True)"
    by (auto simp: process_due_body_def wake_scheduled_task_def overdue_alt split: if_splits)
  then obtain d' where d': "process_due_body e d = Commit d' (Inr True)" by blast
  have "find_task (t_id t) d' = Some (woken e t)"
  proof -
    have id: "t_id (woken e u) = t_id u" for u by (simp add: woken_def leave_running_def)
    with process_due_rows [OF assms(1) d' assms(4)] t show ?thesis
      by (simp add: find_task_def row_at_update)
  qed
  moreover have "due_priority (clk e 0) t \<le> due_priority (clk e 0) u"
    if "u \<in> set (tasks d)" "due (clk e 0) u" "\<not> row_locked e (t_id u)" for u
  proof -
    have "due_order (clk e 0) t \<le> due_order (clk e 0) u"
      using first_by_least [OF assms(4) [unfolded due_candidate_def], of u] that by simp
    then show ?thesis by (auto simp: due_order_def)
  qed
  ultimately show ?thesis
    using assms(2) d' t by (auto simp: process_due_control_def)
qed

lemma retrying_due: "due_candidate (env_at 1000400) db_retrying =
    Some (leave_running StatusRetryWait (Some 1000302) 303 claimed_row)"
  by code_simp

text \<open>C34: A scan handles the most urgent due task that no other transaction has locked: a requested
  cancellation ends it as CANCELLED, else a passed deadline as TIMED_OUT, else it is woken up to
  RUNNABLE; cancellations come before deadlines, deadlines before wake-ups, then the earlier due
  time, then the id.\<close>

theorem process_due_by_priority:
  assumes "wf_db d" "fault e = NoFault" "mono (clk e)" "due_candidate e d = Some t"
  shows "\<exists>d'. process_due_control e d = (d', Inr True) \<and>
    find_task (t_id t) d = Some t \<and> find_task (t_id t) d' = Some (woken e t) \<and>
    (\<forall>u \<in> set (tasks d). due (clk e 0) u \<and> \<not> row_locked e (t_id u) \<longrightarrow>
      due_priority (clk e 0) t \<le> due_priority (clk e 0) u)"
  using assms by (rule urgent_handled)

lemma process_due_by_priority_witness:
  "\<exists>d'. process_due_control (env_at 1000400) db_retrying = (d', Inr True) \<and>
    map_option t_status (find_task ''t'' d') = Some StatusRunnable"
  using process_due_by_priority [OF wf_scenario(5) _ _ retrying_due]
  by (auto simp: env_at_def mono_def woken_def leave_running_def claimed_row_def new_row_def overdue_def)

lemma scan_wf: "wf_db d \<Longrightarrow> wf_db (fst (process_due_control e d))"
  using perform_wf [of d "ProcessDueControl e" undefined] by simp

lemma scan_spends: "wf_db d \<Longrightarrow> scan es d = (d', n, r) \<Longrightarrow> n \<le> control_budget d \<and>
    (r = ContextDone \<longrightarrow> n = length es) \<and> wf_db d'"
proof (induction es arbitrary: d d' n r)
  case (Cons e es)
  obtain d1 q where p: "process_due_control e d = (d1, q)" by fastforce
  have wf1: "wf_db d1" using scan_wf [OF Cons.prems(1), of e] p by simp
  show ?case
  proof (cases "q = Inr True")
    case True
    obtain d2 m r2 where s: "scan es d1 = (d2, m, r2)" by (cases "scan es d1") auto
    from Cons.IH [OF wf1 s] process_due_spends [OF Cons.prems(1) p [unfolded True]] Cons.prems(2) p True s
    show ?thesis by auto
  next
    case False
    with Cons.prems p wf1 show ?thesis by (auto split: sum.splits bool.splits)
  qed
qed simp

lemma budget_bound: "control_budget d \<le> 2 * length (tasks d)"
proof -
  have two: "control_left st \<le> 2" for st by (cases st) auto
  have "sum_list (map (\<lambda>t. control_left (t_status t)) ts) \<le> 2 * length ts" for ts :: "task list"
  proof (induction ts)
    case (Cons t ts)
    with two [of "t_status t"] show ?case by simp
  qed simp
  then show ?thesis by (simp add: control_budget_def)
qed

text \<open>The scheduler's inner loop ends by itself, whatever the clock shows and however many tasks
  are due: each round spends one of at most two control transitions per task, so after as many
  rounds as the tasks have left it stops with nothing due (or with a failed scan).\<close>

theorem scan_terminates:
  assumes "wf_db d" "control_budget d < length es"
  shows "\<exists>d' n r. scan es d = (d', n, r) \<and> n \<le> control_budget d \<and> r \<noteq> ContextDone \<and>
    control_budget d \<le> 2 * length (tasks d)"
proof -
  obtain d' n r where s: "scan es d = (d', n, r)" by (cases "scan es d") auto
  with scan_spends [OF assms(1) s] assms(2) budget_bound [of d] s show ?thesis by auto
qed

lemma scan_terminates_witness:
  "\<exists>d' n r. scan (map env_at [1000400, 1000500, 1000600]) db_retrying = (d', n, r) \<and> n \<le> 2 \<and> r \<noteq> ContextDone"
proof -
  have "control_budget db_retrying = 2" by code_simp
  with scan_terminates [OF wf_scenario(5), of "map env_at [1000400, 1000500, 1000600]"] show ?thesis by auto
qed

lemma process_due_fault: "process_due_body (e\<lparr>fault := f\<rparr>) d = process_due_body e d"
proof -
  have fields: "clk (e\<lparr>fault := f\<rparr>) = clk e" "row_locked (e\<lparr>fault := f\<rparr>) = row_locked e" by simp_all
  show ?thesis
    unfolding process_due_body_def due_candidate_def finish_controlled_task_def finish_controlled_step_def
      wake_retry_task_def wake_scheduled_task_def fields
    by (rule refl)
qed

text \<open>When a scan without failures says that nothing is due, nothing is: no task is cancelled and
  unfinished, past its deadline, or waiting for a time that has come, unless another transaction
  holds its row.\<close>

theorem idle_scan_means_nothing_due:
  assumes "wf_db d" "mono (clk e)" "process_due_control e d = (d', Inr False)"
  shows "d' = d \<and> (\<forall>t \<in> set (tasks d). due (clk e 0) t \<longrightarrow> row_locked e (t_id t))"
proof (cases "due_candidate e d")
  case None
  then show ?thesis
    using assms(3) by (auto simp: process_due_control_def process_due_body_def due_candidate_def filter_empty_conv
        split: if_splits)
next
  case (Some t)
  have "due_candidate (e\<lparr>fault := NoFault\<rparr>) d = Some t"
    using Some by (simp add: due_candidate_def)
  then obtain d'' where "run_tx (e\<lparr>fault := NoFault\<rparr>) d (process_due_body e d) = (d'', Inr True)"
    using urgent_handled [OF assms(1), of "e\<lparr>fault := NoFault\<rparr>" t] assms(2)
    by (auto simp: process_due_control_def process_due_fault)
  moreover have "process_due_body e d = Rollback (Inr False) \<or> process_due_body e d = Commit d' (Inr False)"
    using assms(3) unfolding process_due_control_def by (rule run_tx_Inr)
  ultimately show ?thesis by auto
qed

lemma idle_scan: "process_due_control (env_at 400) db_retrying = (db_retrying, Inr False)"
  by code_simp

lemma idle_scan_means_nothing_due_witness:
  "\<not> list_ex (due 400) (tasks db_retrying)"
  using idle_scan_means_nothing_due [OF wf_scenario(5) _ idle_scan] by (auto simp: env_at_def mono_def list_ex_iff)

text \<open>A scan in which nothing fails and no row is locked, after the time \<open>now\<close>.\<close>

definition quiet_scan :: "time \<Rightarrow> env \<Rightarrow> bool" where
  "quiet_scan now e \<longleftrightarrow> fault e = NoFault \<and> mono (clk e) \<and> row_locked e = (\<lambda>_. False) \<and> now \<le> clk e 0"

lemma due_later: "due now t \<Longrightarrow> now \<le> now' \<Longrightarrow> due now' t"
  by (auto simp: due_def at_or_before_def split: option.splits)

lemma quiet_scan_result:
  assumes "wf_db d" "quiet_scan now e"
  shows "(\<exists>d'. process_due_control e d = (d', Inr True)) \<or>
    (process_due_control e d = (d, Inr False) \<and> (\<forall>t \<in> set (tasks d). \<not> due now t))"
proof (cases "due_candidate e d")
  case None
  with assms(2) have "process_due_control e d = (d, Inr False)"
    by (simp add: process_due_control_def process_due_body_def quiet_scan_def)
  moreover have "\<not> due (clk e 0) t" if "t \<in> set (tasks d)" for t
    using None that assms(2) by (auto simp: due_candidate_def quiet_scan_def filter_empty_conv)
  ultimately show ?thesis using due_later assms(2) by (auto simp: quiet_scan_def)
next
  case (Some t)
  with urgent_handled [OF assms(1) _ _ Some] assms(2) show ?thesis by (auto simp: quiet_scan_def)
qed

lemma quiet_scans:
  assumes "wf_db d" "list_all (quiet_scan now) es" "control_budget d < length es"
  shows "\<exists>d' n. scan es d = (d', n, NothingDue) \<and> (\<forall>t \<in> set (tasks d'). \<not> due now t)"
  using assms
proof (induction es arbitrary: d)
  case (Cons e es)
  from Cons.prems have e: "quiet_scan now e" and es: "list_all (quiet_scan now) es" by simp_all
  from quiet_scan_result [OF Cons.prems(1) e] show ?case
  proof (elim disjE exE conjE)
    fix d1 assume p: "process_due_control e d = (d1, Inr True)"
    have "wf_db d1" using scan_wf [OF Cons.prems(1), of e] p by simp
    moreover have "control_budget d1 < length es" using process_due_spends [OF Cons.prems(1) p] Cons.prems(3) by simp
    ultimately obtain d' n where "scan es d1 = (d', n, NothingDue)" "\<forall>t \<in> set (tasks d'). \<not> due now t"
      using Cons.IH es by blast
    with p show ?thesis by simp
  qed simp
qed simp

text \<open>C33: A poll of the scheduler that nothing disturbs leaves no due control behind: after its inner loop
  every task that was asked to be cancelled or whose deadline had passed when the poll began is in
  a terminal status, and none still waits for a time of its retry or its start that had come.\<close>

theorem poll_leaves_nothing_due:
  assumes "wf_db d" "list_all (quiet_scan now) es" "control_budget d < length es"
  shows "\<exists>d' n. scan es d = (d', n, NothingDue) \<and>
    (\<forall>i t. find_task i d' = Some t \<longrightarrow>
      is_terminal_status (t_status t) \<or>
      \<not> t_cancel_requested t \<and> \<not> overdue now t \<and>
      (t_status t = StatusRetryWait \<longrightarrow> (\<forall>x. t_retry_at t = Some x \<longrightarrow> now < x)) \<and>
      (t_status t = StatusScheduled \<longrightarrow> now < t_run_at t))"
proof -
  from quiet_scans [OF assms] obtain d' n where s: "scan es d = (d', n, NothingDue)" "\<forall>t \<in> set (tasks d'). \<not> due now t"
    by blast
  have "t \<in> set (tasks d')" if "find_task i d' = Some t" for i t
    using that by (auto simp: find_task_def row_at_def find_Some_iff)
  with s show ?thesis
    by (intro exI [of _ d'] exI [of _ n]) (fastforce simp: due_def at_or_before_def overdue_def split: option.splits)
qed

lemma poll_leaves_nothing_due_witness:
  "\<exists>d' n. scan (map env_at [61000000, 61000100, 61000200]) db_retrying = (d', n, NothingDue) \<and>
    map_option t_status (find_task ''t'' d') = Some StatusTimedOut"
proof -
  let ?es = "map env_at [61000000, 61000100, 61000200]"
  have "control_budget db_retrying = 2" by code_simp
  moreover have "list_all (quiet_scan 61000000) ?es"
    by (simp add: quiet_scan_def) (simp add: env_at_def)
  ultimately obtain d' n where "scan ?es db_retrying = (d', n, NothingDue)"
    using poll_leaves_nothing_due [OF wf_scenario(5), of 61000000 ?es] by auto
  moreover have "map_option t_status (find_task ''t'' (fst (scan ?es db_retrying))) = Some StatusTimedOut" by code_simp
  ultimately show ?thesis by (metis fst_conv)
qed

end
