(* ===== verification/Go_Std.thy ===== *)
theory Go_Std
  imports Json
begin

text \<open>
  What the program uses of Go's standard library: \<open>time.ParseDuration\<close>, \<open>strconv.Atoi\<close>,
  \<open>strings.TrimSpace\<close>, \<open>time.Parse\<close> with the layout RFC3339Nano, and the decoding of a JSON
  object into a struct. Strings are the bytes of their UTF-8 encoding.
\<close>

section \<open>Digits\<close>

definition is_digit :: "char \<Rightarrow> bool" where
  "is_digit c \<longleftrightarrow> (48::nat) \<le> of_char c \<and> of_char c \<le> (57::nat)"

definition digit_value :: "char \<Rightarrow> int" where
  "digit_value c = int (of_char c) - 48"

definition number_of :: "string \<Rightarrow> int" where
  "number_of ds = foldl (\<lambda>n c. 10 * n + digit_value c) 0 ds"

section \<open>time.ParseDuration\<close>

text \<open>
  \<open>leadingInt\<close> fails when the number passes \<open>2^63\<close>; \<open>leadingFraction\<close> drops the digits that
  would. The product of the fraction is exact here, a \<open>float64\<close> in the library.
\<close>

definition max_uint63 :: int where
  "max_uint63 = 2 ^ 63"

definition leading_int :: "string \<Rightarrow> (int \<times> string) option" where
  "leading_int s =
     (let n = number_of (takeWhile is_digit s) in
      if n > max_uint63 then None else Some (n, dropWhile is_digit s))"

fun fraction_digits :: "string \<Rightarrow> int \<Rightarrow> int \<Rightarrow> int \<times> int" where
  "fraction_digits [] x scale = (x, scale)"
| "fraction_digits (c # cs) x scale =
     (if x > (max_uint63 - 1) div 10 \<or> 10 * x + digit_value c > max_uint63 then (x, scale)
      else fraction_digits cs (10 * x + digit_value c) (10 * scale))"

definition unit_table :: "(string \<times> int) list" where
  "unit_table =
     [(''ns'', 1), (''us'', 1000), ([CHR 0xC2, CHR 0xB5, CHR ''s''], 1000),
      ([CHR 0xCE, CHR 0xBC, CHR ''s''], 1000), (''ms'', 1000000), (''s'', 1000000000),
      (''m'', 60000000000), (''h'', 3600000000000)]"

text \<open>One term: a number with an optional fraction and a unit; what is left of the text.\<close>

definition duration_term :: "string \<Rightarrow> (int \<times> string) option" where
  "duration_term s =
     (case leading_int s of
        None \<Rightarrow> None
      | Some (v, s1) \<Rightarrow>
          (let pre = (s1 \<noteq> s);
               dotted = (s1 \<noteq> [] \<and> hd s1 = CHR ''.'');
               fs = (if dotted then takeWhile is_digit (tl s1) else []);
               s2 = (if dotted then dropWhile is_digit (tl s1) else s1);
               u = takeWhile (\<lambda>c. \<not> (c = CHR ''.'' \<or> is_digit c)) s2;
               s3 = dropWhile (\<lambda>c. \<not> (c = CHR ''.'' \<or> is_digit c)) s2
           in if \<not> pre \<and> fs = [] then None
              else case map_of unit_table u of
                None \<Rightarrow> None
              | Some unit \<Rightarrow>
                  (let (f, scale) = fraction_digits fs 0 1;
                       total = v * unit + f * unit div scale
                   in if v > max_uint63 div unit \<or> total > max_uint63 then None else Some (total, s3))))"

text \<open>The loop over the terms; each takes at least one character, so \<open>length s\<close> rounds suffice.\<close>

fun duration_terms :: "nat \<Rightarrow> string \<Rightarrow> int \<Rightarrow> int option" where
  "duration_terms 0 s d = (if s = [] then Some d else None)"
| "duration_terms (Suc n) s d =
     (if s = [] then Some d
      else case duration_term s of
        None \<Rightarrow> None
      | Some (v, rest) \<Rightarrow> if d + v > max_uint63 then None else duration_terms n rest (d + v))"

definition parse_duration :: "string \<Rightarrow> int option" where
  "parse_duration s =
     (let neg = (s \<noteq> [] \<and> hd s = CHR ''-'');
          body = (if s \<noteq> [] \<and> (hd s = CHR ''-'' \<or> hd s = CHR ''+'') then tl s else s)
      in if body = ''0'' then Some 0
         else if body = [] then None
         else case duration_terms (length body) body 0 of
           None \<Rightarrow> None
         | Some d \<Rightarrow> if neg then Some (- d) else if d > max_uint63 - 1 then None else Some d)"

lemma duration_term_shorter: "duration_term s = Some (v, rest) \<Longrightarrow> length rest < length s"
proof -
  assume t: "duration_term s = Some (v, rest)"
  let ?p = "\<lambda>c. \<not> (c = CHR ''.'' \<or> is_digit c)"
  from t obtain s2 where s2: "length s2 \<le> length s" "takeWhile ?p s2 \<noteq> []" "rest = dropWhile ?p s2"
  proof -
    have ne: "map_of unit_table [] = None" by (simp add: unit_table_def)
    from t obtain s1 where s1: "s1 = dropWhile is_digit s"
      by (auto simp: duration_term_def leading_int_def Let_def split: if_splits)
    define s2 where "s2 = (if s1 \<noteq> [] \<and> hd s1 = CHR ''.'' then dropWhile is_digit (tl s1) else s1)"
    have "length s2 \<le> length s"
      using length_dropWhile_le [of is_digit s] length_dropWhile_le [of is_digit "tl s1"]
      by (simp add: s2_def s1) (meson diff_le_self le_trans)
    moreover have "takeWhile ?p s2 \<noteq> []" "rest = dropWhile ?p s2"
      using t ne by (auto simp: duration_term_def leading_int_def Let_def s2_def s1
          split: if_splits option.splits prod.splits)
    ultimately show ?thesis by (rule that)
  qed
  have "length (takeWhile ?p s2) + length (dropWhile ?p s2) = length s2"
    by (metis length_append takeWhile_dropWhile_id)
  moreover have "0 < length (takeWhile ?p s2)" using s2(2) by blast
  ultimately show ?thesis using s2(1) unfolding s2(3) by linarith
qed

text \<open>The number of rounds is enough: more of them give the same result.\<close>

lemma duration_terms_enough: "length s \<le> n \<Longrightarrow> duration_terms n s d = duration_terms (length s) s d"
proof (induction n arbitrary: s d rule: less_induct)
  case (less n)
  show ?case
  proof (cases s)
    case (Cons c cs)
    with less.prems obtain m where n: "n = Suc m" "length cs \<le> m" by (cases n) auto
    have "duration_terms m rest x = duration_terms (length cs) rest x"
      if "duration_term s = Some (v, rest)" for v rest x
    proof -
      from duration_term_shorter [OF that] Cons have "length rest \<le> length cs" by simp
      with n less.IH [of m rest x] less.IH [of "length cs" rest x] show ?thesis by simp
    qed
    with Cons n show ?thesis by (auto split: option.splits)
  qed (cases n, simp_all)
qed

section \<open>strconv.Atoi\<close>

text \<open>An optional sign and at least one digit, within the 64 bits of an \<open>int\<close>.\<close>

definition atoi :: "string \<Rightarrow> int option" where
  "atoi s =
     (let neg = (s \<noteq> [] \<and> hd s = CHR ''-'');
          body = (if s \<noteq> [] \<and> (hd s = CHR ''-'' \<or> hd s = CHR ''+'') then tl s else s);
          n = (if neg then - number_of body else number_of body)
      in if body = [] \<or> \<not> list_all is_digit body then None
         else if n < - (2 ^ 63) \<or> n \<ge> 2 ^ 63 then None
         else Some n)"

section \<open>strings.TrimSpace\<close>

text \<open>The encodings of the characters \<open>unicode.IsSpace\<close> accepts.\<close>

definition space_encodings :: "string list" where
  "space_encodings =
     map (\<lambda>n. [char_of (n::nat)]) [9, 10, 11, 12, 13, 32] @
     [[CHR 0xC2, CHR 0x85], [CHR 0xC2, CHR 0xA0], [CHR 0xE1, CHR 0x9A, CHR 0x80]] @
     map (\<lambda>n. [CHR 0xE2, CHR 0x80, char_of (n::nat)]) ([128..<139] @ [168, 169, 175]) @
     [[CHR 0xE2, CHR 0x81, CHR 0x9F], [CHR 0xE3, CHR 0x80, CHR 0x80]]"

definition starts_with :: "string \<Rightarrow> string \<Rightarrow> bool" where
  "starts_with p s \<longleftrightarrow> take (length p) s = p"

fun strip_prefixes :: "nat \<Rightarrow> string list \<Rightarrow> string \<Rightarrow> string" where
  "strip_prefixes 0 ps s = s"
| "strip_prefixes (Suc n) ps s =
     (case find (\<lambda>p. starts_with p s) ps of
        None \<Rightarrow> s
      | Some p \<Rightarrow> strip_prefixes n ps (drop (length p) s))"

definition trim_space :: "string \<Rightarrow> string" where
  "trim_space s =
     (let left = strip_prefixes (length s) space_encodings s
      in rev (strip_prefixes (length left) (map rev space_encodings) (rev left)))"

section \<open>time.Parse with RFC3339Nano\<close>

text \<open>
  \<open>YYYY-MM-DDThh:mm:ss\<close>, an optional fraction and a zone \<open>Z\<close> or \<open>+hh:mm\<close>; the hour may have one
  digit and the fraction a comma, as the library allows. The result is in microseconds since 1970,
  finer digits being lost when the time is sent to the database.
\<close>

definition fixed_number :: "nat \<Rightarrow> string \<Rightarrow> (int \<times> string) option" where
  "fixed_number n s =
     (if n \<le> length s \<and> list_all is_digit (take n s) then Some (number_of (take n s), drop n s) else None)"

definition expect :: "char \<Rightarrow> string \<Rightarrow> string option" where
  "expect c s = (if s \<noteq> [] \<and> hd s = c then Some (tl s) else None)"

definition leap_year :: "int \<Rightarrow> bool" where
  "leap_year y \<longleftrightarrow> y mod 4 = 0 \<and> (y mod 100 \<noteq> 0 \<or> y mod 400 = 0)"

definition days_in :: "int \<Rightarrow> int \<Rightarrow> int" where
  "days_in y m =
     (if m = 2 then (if leap_year y then 29 else 28) else if m \<in> {4, 6, 9, 11} then 30 else 31)"

definition days_before_year :: "int \<Rightarrow> int" where
  "days_before_year y = (let k = y - 1 in 365 * k + k div 4 - k div 100 + k div 400)"

definition unix_day :: "int \<Rightarrow> int \<Rightarrow> int \<Rightarrow> int" where
  "unix_day y m d =
     days_before_year y + sum_list (map (days_in y) [1..m - 1]) + (d - 1) - days_before_year 1970"

definition parse_hour :: "string \<Rightarrow> (int \<times> string) option" where
  "parse_hour s = (case fixed_number 2 s of Some x \<Rightarrow> Some x | None \<Rightarrow> fixed_number 1 s)"

definition parse_fraction :: "string \<Rightarrow> int \<times> string" where
  "parse_fraction s =
     (if length s \<ge> 2 \<and> (hd s = CHR ''.'' \<or> hd s = CHR '','') \<and> is_digit (s ! 1)
      then (number_of (take 6 (takeWhile is_digit (tl s) @ ''000000'')), dropWhile is_digit (tl s))
      else (0, s))"

definition parse_zone :: "string \<Rightarrow> int option" where
  "parse_zone s =
     (if s = ''Z'' then Some 0
      else if length s = 6 \<and> (hd s = CHR ''+'' \<or> hd s = CHR ''-'') \<and> s ! 3 = CHR '':'' then
        (case (fixed_number 2 (take 2 (drop 1 s)), fixed_number 2 (drop 4 s)) of
           (Some (h, _), Some (m, _)) \<Rightarrow>
             (if h > 24 \<or> m > 60 then None
              else Some ((if hd s = CHR ''-'' then -1 else 1) * (h * 3600 + m * 60)))
         | _ \<Rightarrow> None)
      else None)"

fun parse_fields :: "(nat \<times> char) list \<Rightarrow> string \<Rightarrow> (int list \<times> string) option" where
  "parse_fields [] s = Some ([], s)"
| "parse_fields ((n, c) # fs) s =
     (case (if n = 0 then parse_hour s else fixed_number n s) of
        None \<Rightarrow> None
      | Some (x, s1) \<Rightarrow>
          (case expect c s1 of
             None \<Rightarrow> None
           | Some s2 \<Rightarrow> map_option (\<lambda>(xs, r). (x # xs, r)) (parse_fields fs s2)))"

definition parse_rfc3339 :: "string \<Rightarrow> int option" where
  "parse_rfc3339 s =
     (case parse_fields [(4, CHR ''-''), (2, CHR ''-''), (2, CHR ''T''), (0, CHR '':''), (2, CHR '':'')] s of
        Some ([y, m, d, h, mi], rest) \<Rightarrow>
          (case fixed_number 2 rest of
             None \<Rightarrow> None
           | Some (sec, rest1) \<Rightarrow>
               (let (micros, rest2) = parse_fraction rest1 in
                case parse_zone rest2 of
                  None \<Rightarrow> None
                | Some offset \<Rightarrow>
                    (if m < 1 \<or> m > 12 \<or> d < 1 \<or> d > days_in y m \<or> h \<ge> 24 \<or> mi \<ge> 60 \<or> sec \<ge> 60 then None
                     else Some ((unix_day y m d * 86400 + h * 3600 + mi * 60 + sec - offset) * 1000000 + micros))))
      | _ \<Rightarrow> None)"

section \<open>Decoding an object into a struct\<close>

text \<open>
  A field of a struct takes the values of the keys that equal its name up to case, in the order
  of the document: the last one stays. Case is folded as in \<open>encoding/json\<close>: of the characters
  beyond ASCII only the long s and the Kelvin sign fold to an ASCII letter. \<open>null\<close> leaves a
  boolean as it is, and makes a pointer nil.
\<close>

definition upper :: "char \<Rightarrow> char" where
  "upper c = (let n = (of_char c :: nat) in if 97 \<le> n \<and> n \<le> 122 then char_of (n - 32) else c)"

fun fold_name :: "string \<Rightarrow> string" where
  "fold_name [] = []"
| "fold_name [a] = [upper a]"
| "fold_name [a, b] =
     (if a = CHR 0xC5 \<and> b = CHR 0xBF then ''S'' else upper a # fold_name [b])"
| "fold_name (a # b # c # s) =
     (if a = CHR 0xC5 \<and> b = CHR 0xBF then CHR ''S'' # fold_name (c # s)
      else if a = CHR 0xE2 \<and> b = CHR 0x84 \<and> c = CHR 0xAA then CHR ''K'' # fold_name s
      else upper a # fold_name (b # c # s))"

fun object_fields :: "json \<Rightarrow> (string \<times> json) list option" where
  "object_fields (JObj kvs) = Some kvs"
| "object_fields JNull = Some []"
| "object_fields _ = None"

definition matching :: "string \<Rightarrow> (string \<times> json) list \<Rightarrow> json list" where
  "matching name kvs = map snd (filter (\<lambda>kv. fold_name (fst kv) = fold_name name) kvs)"

text \<open>A field of type \<open>json.RawMessage\<close>; a missing one is the empty message.\<close>

definition raw_field :: "string \<Rightarrow> (string \<times> json) list \<Rightarrow> json option" where
  "raw_field name kvs = (let vs = matching name kvs in if vs = [] then None else Some (last vs))"

text \<open>Fields of type \<open>bool\<close>, \<open>*int\<close> and \<open>string\<close>; \<open>None\<close> is a value of the wrong type.\<close>

fun decode_bools :: "json list \<Rightarrow> bool \<Rightarrow> bool option" where
  "decode_bools [] b = Some b"
| "decode_bools (JBool c # vs) b = decode_bools vs c"
| "decode_bools (JNull # vs) b = decode_bools vs b"
| "decode_bools (_ # vs) b = None"

definition bool_field :: "string \<Rightarrow> (string \<times> json) list \<Rightarrow> bool option" where
  "bool_field name kvs = decode_bools (matching name kvs) False"

definition int64 :: "int \<Rightarrow> bool" where
  "int64 n \<longleftrightarrow> - (2 ^ 63) \<le> n \<and> n < 2 ^ 63"

fun decode_ints :: "json list \<Rightarrow> int option \<Rightarrow> int option option" where
  "decode_ints [] p = Some p"
| "decode_ints (JNum n 0 # vs) p = (if int64 n then decode_ints vs (Some n) else None)"
| "decode_ints (JNull # vs) p = decode_ints vs None"
| "decode_ints (_ # vs) p = None"

definition int_pointer_field :: "string \<Rightarrow> (string \<times> json) list \<Rightarrow> int option option" where
  "int_pointer_field name kvs = decode_ints (matching name kvs) None"

fun decode_strings :: "json list \<Rightarrow> string \<Rightarrow> string option" where
  "decode_strings [] s = Some s"
| "decode_strings (JStr t # vs) s = decode_strings vs t"
| "decode_strings (JNull # vs) s = decode_strings vs s"
| "decode_strings (_ # vs) s = None"

definition string_field :: "string \<Rightarrow> (string \<times> json) list \<Rightarrow> string option" where
  "string_field name kvs = decode_strings (matching name kvs) []"

text \<open>\<open>DisallowUnknownFields\<close>: every key folds to the name of a field.\<close>

definition known_fields :: "string list \<Rightarrow> (string \<times> json) list \<Rightarrow> bool" where
  "known_fields names kvs \<longleftrightarrow> list_all (\<lambda>kv. list_ex (\<lambda>n. fold_name n = fold_name (fst kv)) names) kvs"

end
