(* ===== verification/Executor.thy ===== *)
theory Executor
  imports Go_Std Store_Steps
begin

text \<open>
  \<open>internal/executor/executor.go\<close>: the step types, the check of their inputs when a task is
  created, their execution and the classification of its errors. What the execution meets in
  the world, a context that ends and the replies of the fake tool, is its environment.
\<close>

section \<open>Errors\<close>

text \<open>The \<open>bool\<close> of a failed request or read says whether the error wraps the context's deadline.\<close>

datatype exec_cause =
    UnknownStepType string
  | InvalidEchoInput
  | InvalidSleepInput
  | InvalidSleepDuration
  | ContextDeadline
  | ContextCanceled
  | InvalidFlakyInput
  | ControlledPermanentFailure
  | ControlledTemporaryFailure
  | FakeToolURLMissing
  | FakeToolBadRequest
  | FakeToolRequest bool
  | FakeToolRead bool
  | FakeToolConflict
  | FakeToolStatus nat
  | InvalidFakeToolResult

text \<open>An error is a \<open>*Failure\<close> with its class or a plain error.\<close>

datatype exec_error = Failure failure_class exec_cause | Plain exec_cause

fun cause_of :: "exec_error \<Rightarrow> exec_cause" where
  "cause_of (Failure c x) = x"
| "cause_of (Plain x) = x"

fun is_deadline :: "exec_cause \<Rightarrow> bool" where
  "is_deadline ContextDeadline = True"
| "is_deadline (FakeToolRequest b) = b"
| "is_deadline (FakeToolRead b) = b"
| "is_deadline _ = False"

fun classify :: "exec_error \<Rightarrow> failure_class" where
  "classify (Failure c x) = c"
| "classify (Plain x) = (if is_deadline x then FailureTemporary else FailurePermanent)"

section \<open>The check of an input\<close>

datatype input_error =
    UnknownType string
  | NotAnObject
  | RequiresValue
  | RequiresDuration
  | DurationNotPositive
  | NegativeFailures
  | PermanentAndTemporary

text \<open>Decoding into \<open>map[string]json.RawMessage\<close>, and the fields of \<open>flakyInput\<close>.\<close>

fun object_of :: "raw \<Rightarrow> (string \<times> json) list option" where
  "object_of r = (case raw_val r of None \<Rightarrow> None | Some j \<Rightarrow> object_fields j)"

record flaky_input =
  fi_temporary_failures :: "int option"
  fi_permanent :: bool
  fi_value :: "json option"

definition flaky_of :: "(string \<times> json) list \<Rightarrow> flaky_input option" where
  "flaky_of kvs =
     (case (int_pointer_field ''temporary_failures'' kvs, bool_field ''permanent'' kvs) of
        (Some t, Some p) \<Rightarrow>
          Some \<lparr>fi_temporary_failures = t, fi_permanent = p, fi_value = raw_field ''value'' kvs\<rparr>
      | _ \<Rightarrow> None)"

definition validate_echo :: "raw \<Rightarrow> input_error + unit" where
  "validate_echo input =
     (case object_of input of
        None \<Rightarrow> Inl NotAnObject
      | Some kvs \<Rightarrow> (if map_of kvs ''value'' = None then Inl RequiresValue else Inr ()))"

definition validate_sleep :: "raw \<Rightarrow> input_error + unit" where
  "validate_sleep input =
     (case object_of input of
        None \<Rightarrow> Inl NotAnObject
      | Some kvs \<Rightarrow>
          (case map_of kvs ''duration'' of
             Some (JStr s) \<Rightarrow>
               (case parse_duration s of
                  None \<Rightarrow> Inl DurationNotPositive
                | Some d \<Rightarrow> if d \<le> 0 then Inl DurationNotPositive else Inr ())
           | Some JNull \<Rightarrow> Inl DurationNotPositive
           | _ \<Rightarrow> Inl RequiresDuration))"

definition validate_flaky :: "raw \<Rightarrow> input_error + unit" where
  "validate_flaky input =
     (case Option.bind (object_of input) flaky_of of
        None \<Rightarrow> Inl NotAnObject
      | Some f \<Rightarrow>
          (if (case fi_temporary_failures f of Some n \<Rightarrow> n < 0 | None \<Rightarrow> False) then Inl NegativeFailures
           else if fi_permanent f \<and> (case fi_temporary_failures f of Some n \<Rightarrow> n \<noteq> 0 | None \<Rightarrow> False)
             then Inl PermanentAndTemporary
           else if fi_value f = None then Inl RequiresValue
           else Inr ()))"

definition validate_fake_tool :: "raw \<Rightarrow> input_error + unit" where
  "validate_fake_tool input =
     (case object_of input of
        None \<Rightarrow> Inl RequiresValue
      | Some kvs \<Rightarrow>
          (if bool_field ''block_first_response'' kvs = None \<or> raw_field ''value'' kvs = None
           then Inl RequiresValue else Inr ()))"

section \<open>Execution\<close>

text \<open>
  \<open>xe_interrupt d\<close> says how the context ends when it ends before a timer of \<open>d\<close> nanoseconds does:
  by its deadline or by a cancellation, the two errors \<open>ctx.Err()\<close> has; \<open>xe_request_ok\<close> whether a
  request can be built for the URL; \<open>xe_post\<close> the tool's reply to a body.
\<close>

datatype context_end = CtxDeadline | CtxCanceled

fun context_err :: "context_end \<Rightarrow> exec_cause" where
  "context_err CtxDeadline = ContextDeadline"
| "context_err CtxCanceled = ContextCanceled"

datatype http_reply = RequestError bool | ReadError bool | Reply nat raw

record exec_env =
  xe_interrupt :: "int \<Rightarrow> context_end option"
  xe_request_ok :: "string \<Rightarrow> bool"
  xe_post :: "string \<Rightarrow> json \<Rightarrow> http_reply"

record exec_options =
  eo_fake_tool_url :: string

type_synonym executor = "exec_env \<Rightarrow> step_attempt \<Rightarrow> exec_options \<Rightarrow> exec_error + raw"

definition value_output :: "json \<Rightarrow> raw" where
  "value_output v = raw_of (JObj [(''value'', v)])"

definition execute_echo :: executor where
  "execute_echo xe attempt opts =
     (case Option.bind (object_fields (at_resolved_input attempt)) (raw_field ''value'') of
        None \<Rightarrow> Inl (Plain InvalidEchoInput)
      | Some v \<Rightarrow> Inr (value_output v))"

definition execute_sleep :: executor where
  "execute_sleep xe attempt opts =
     (case Option.bind (object_fields (at_resolved_input attempt)) (string_field ''duration'') of
        None \<Rightarrow> Inl (Plain InvalidSleepInput)
      | Some s \<Rightarrow>
          (case parse_duration s of
             None \<Rightarrow> Inl (Plain InvalidSleepDuration)
           | Some d \<Rightarrow>
               (if d \<le> 0 then Inl (Plain InvalidSleepDuration)
                else case xe_interrupt xe d of
                  Some x \<Rightarrow> Inl (Plain (context_err x))
                | None \<Rightarrow> Inr (raw_of (JObj [(''slept'', JStr s)])))))"

definition execute_flaky :: executor where
  "execute_flaky xe attempt opts =
     (case Option.bind (object_fields (at_resolved_input attempt)) flaky_of of
        None \<Rightarrow> Inl (Failure FailurePermanent InvalidFlakyInput)
      | Some f \<Rightarrow>
          (case fi_value f of
             None \<Rightarrow> Inl (Failure FailurePermanent InvalidFlakyInput)
           | Some v \<Rightarrow>
               (if fi_permanent f then Inl (Failure FailurePermanent ControlledPermanentFailure)
                else if int (at_attempt attempt) \<le> (case fi_temporary_failures f of None \<Rightarrow> 0 | Some n \<Rightarrow> n)
                  then Inl (Failure FailureTemporary ControlledTemporaryFailure)
                else Inr (value_output v))))"

definition invocation_body :: "step_attempt \<Rightarrow> json" where
  "invocation_body attempt =
     JObj [(''idempotency_key'', JStr (at_idempotency_key attempt)),
       (''payload'', at_resolved_input attempt)]"

definition execute_fake_tool :: executor where
  "execute_fake_tool xe attempt opts =
     (if eo_fake_tool_url opts = [] then Inl (Failure FailurePermanent FakeToolURLMissing)
      else if \<not> xe_request_ok xe (eo_fake_tool_url opts @ ''/invoke'')
        then Inl (Failure FailurePermanent FakeToolBadRequest)
      else case xe_post xe (eo_fake_tool_url opts @ ''/invoke'') (invocation_body attempt) of
        RequestError b \<Rightarrow> Inl (Failure FailureTemporary (FakeToolRequest b))
      | ReadError b \<Rightarrow> Inl (Failure FailureTemporary (FakeToolRead b))
      | Reply status body \<Rightarrow>
          (if status = 409 then Inl (Failure FailurePermanent FakeToolConflict)
           else if status \<noteq> 200 then
             Inl (Failure (if status = 408 \<or> status = 429 \<or> status \<ge> 500
                           then FailureTemporary else FailurePermanent) (FakeToolStatus status))
           else if raw_len body > max_json_bytes \<or> \<not> json_valid body
             then Inl (Failure FailurePermanent InvalidFakeToolResult)
           else Inr body))"

section \<open>The table of implementations\<close>

record implementation =
  im_validate :: "raw \<Rightarrow> input_error + unit"
  im_execute :: executor

fun implementations :: "string \<Rightarrow> implementation option" where
  "implementations name =
     (if name = ''echo'' then Some \<lparr>im_validate = validate_echo, im_execute = execute_echo\<rparr>
      else if name = ''sleep'' then Some \<lparr>im_validate = validate_sleep, im_execute = execute_sleep\<rparr>
      else if name = ''flaky'' then Some \<lparr>im_validate = validate_flaky, im_execute = execute_flaky\<rparr>
      else if name = ''fake_tool'' then Some \<lparr>im_validate = validate_fake_tool, im_execute = execute_fake_tool\<rparr>
      else None)"

declare implementations.simps [simp del]

definition validate_step_input :: "string \<Rightarrow> raw \<Rightarrow> input_error + unit" where
  "validate_step_input step_type input =
     (case implementations step_type of
        None \<Rightarrow> Inl (UnknownType step_type)
      | Some im \<Rightarrow> im_validate im input)"

text \<open>\<open>Execute\<close>: no implementation saves a checkpoint.\<close>

definition execute_step :: "exec_env \<Rightarrow> step_attempt \<Rightarrow> exec_options \<Rightarrow> exec_error + raw \<times> raw" where
  "execute_step xe attempt opts =
     (case implementations (at_step_type attempt) of
        None \<Rightarrow> Inl (Plain (UnknownStepType (at_step_type attempt)))
      | Some im \<Rightarrow>
          (case im_execute im xe attempt opts of
             Inl x \<Rightarrow> Inl x
           | Inr output \<Rightarrow> Inr (output, raw_nil)))"

section \<open>The contract of an implementation\<close>

text \<open>
  What creation checks stays true of the resolved input, an attempt on a checked input does not
  fail because of its input, and a successful attempt yields one JSON document. \<open>clear\<close> is what
  the input must satisfy beyond the check.
\<close>

fun input_cause :: "exec_cause \<Rightarrow> bool" where
  "input_cause (UnknownStepType t) = True"
| "input_cause InvalidEchoInput = True"
| "input_cause InvalidSleepInput = True"
| "input_cause InvalidSleepDuration = True"
| "input_cause InvalidFlakyInput = True"
| "input_cause _ = False"

text \<open>
  The check of sleep looks its key up as it is written, the execution up to case: they agree on an
  object in which one key only is \<open>duration\<close> up to case. The other types need nothing more.
\<close>

fun one_duration :: "json \<Rightarrow> bool" where
  "one_duration (JObj kvs) = (length (matching ''duration'' kvs) = 1)"
| "one_duration _ = True"

definition clear_input :: "string \<Rightarrow> json \<Rightarrow> bool" where
  "clear_input ty j \<longleftrightarrow> (if ty = ''sleep'' then one_duration j else True)"

lemma clear_types: "clear_input ''sleep'' = one_duration" "clear_input ''echo'' = (\<lambda>_. True)"
    "clear_input ''flaky'' = (\<lambda>_. True)" "clear_input ''fake_tool'' = (\<lambda>_. True)"
  by (simp_all add: clear_input_def fun_eq_iff)

locale step_implementation =
  fixes validate :: "raw \<Rightarrow> input_error + unit" and clear :: "json \<Rightarrow> bool" and execute :: executor
  assumes resolved_stays_valid: "validate (raw_of j) = Inr () \<Longrightarrow> validate_references j True = Inr () \<Longrightarrow>
      resolve_value j p c = Inr r \<Longrightarrow> validate (raw_of r) = Inr () \<and> (clear j \<longrightarrow> clear r)"
    and valid_input_runs: "validate (raw_of (at_resolved_input a)) = Inr () \<Longrightarrow>
      clear (at_resolved_input a) \<Longrightarrow> execute xe a opts = Inl x \<Longrightarrow> \<not> input_cause (cause_of x)"
    and output_is_json: "execute xe a opts = Inr out \<Longrightarrow> json_valid out"
begin

text \<open>What the check at creation is for: the attempts of a step it let through.\<close>

lemma created_input_runs:
  assumes "validate (raw_of j) = Inr ()" "validate_references j True = Inr ()"
    and "resolve_value j p c = Inr (at_resolved_input a)" "clear j"
  shows "(\<exists>out. execute xe a opts = Inr out \<and> json_valid out) \<or>
    (\<exists>x. execute xe a opts = Inl x \<and> \<not> input_cause (cause_of x))"
  using valid_input_runs [of a xe opts] resolved_stays_valid [OF assms(1-3)] assms(4) output_is_json
  by (cases "execute xe a opts") auto

end

lemma resolve_object: "resolve_value (JObj kvs) p c = Inr r \<Longrightarrow> map_of kvs reference_key = None \<Longrightarrow>
    \<exists>fs. r = JObj fs \<and> resolve_fields kvs p c = Inr fs"
  by (auto split: sum.splits)

lemma resolve_fields_rel: "resolve_fields kvs p c = Inr fs \<Longrightarrow>
    list_all2 (\<lambda>kv kv'. fst kv = fst kv' \<and> resolve_value (snd kv) p c = Inr (snd kv')) kvs fs"
  by (induction kvs arbitrary: fs) (auto split: sum.splits)

lemma rel_matching:
  assumes "list_all2 (\<lambda>kv kv'. fst kv = fst kv' \<and> R (snd kv) (snd kv')) kvs fs"
  shows "list_all2 R (matching name kvs) (matching name fs)"
  using assms by (induction rule: list_all2_induct) (auto simp: matching_def)

lemma rel_decode_bools: "list_all2 (\<lambda>v v'. resolve_value v p c = Inr v') vs ws \<Longrightarrow>
    decode_bools vs b = Some x \<Longrightarrow> decode_bools ws b = Some x"
proof (induction vs ws arbitrary: b rule: list_all2_induct)
  case (Cons v vs w ws)
  then show ?case by (cases v) auto
qed simp

lemma rel_decode_ints: "list_all2 (\<lambda>v v'. resolve_value v p c = Inr v') vs ws \<Longrightarrow>
    decode_ints vs b = Some x \<Longrightarrow> decode_ints ws b = Some x"
proof (induction vs ws arbitrary: b rule: list_all2_induct)
  case (Cons v vs w ws)
  show ?case
  proof (cases v)
    case (JNum n s)
    with Cons show ?thesis by (cases s) (auto split: if_splits)
  qed (use Cons in auto)
qed simp

lemma rel_map_of: "list_all2 (\<lambda>kv kv'. fst kv = fst kv' \<and> R (snd kv) (snd kv')) kvs fs \<Longrightarrow>
    (case (map_of kvs k, map_of fs k) of (None, None) \<Rightarrow> True | (Some v, Some w) \<Rightarrow> R v w | _ \<Rightarrow> False)"
  by (induction rule: list_all2_induct) (auto split: option.splits)

lemma rel_raw_field: "list_all2 (\<lambda>kv kv'. fst kv = fst kv' \<and> R (snd kv) (snd kv')) kvs fs \<Longrightarrow>
    raw_field name kvs = None \<longleftrightarrow> raw_field name fs = None"
  using rel_matching [of R kvs fs name] by (auto simp: raw_field_def Let_def)

text \<open>An object with a reference at its top has no other field.\<close>

lemma reference_alone: "validate_references (JObj kvs) True = Inr () \<Longrightarrow> map_of kvs reference_key = Some x \<Longrightarrow>
    kvs = [(reference_key, x)]"
  by (cases kvs) (auto split: if_splits)

lemma valid_object: "validate_references (JObj kvs) True = Inr () \<Longrightarrow> (k, v) \<in> set kvs \<Longrightarrow> k \<noteq> reference_key \<Longrightarrow>
    map_of kvs reference_key = None"
  using reference_alone [of kvs] by (cases "map_of kvs reference_key") auto

lemma raw_field_mem: "raw_field name kvs = Some v \<Longrightarrow>
    \<exists>k. (k, v) \<in> set kvs \<and> fold_name k = fold_name name"
proof -
  assume "raw_field name kvs = Some v"
  then have "v \<in> set (matching name kvs)" by (auto simp: raw_field_def Let_def split: if_splits)
  then show ?thesis by (auto simp: matching_def)
qed

lemma value_not_ref: "fold_name reference_key \<noteq> fold_name ''value''" "''value'' \<noteq> reference_key"
    "''duration'' \<noteq> reference_key"
  by code_simp+

lemma single_matching: "length (matching k kvs) = 1 \<Longrightarrow> map_of kvs k = Some v \<Longrightarrow> matching k kvs = [v]"
proof -
  assume one: "length (matching k kvs) = 1" and v: "map_of kvs k = Some v"
  from map_of_SomeD [OF v] have "v \<in> set (matching k kvs)" by (force simp: matching_def)
  with one show ?thesis by (cases "matching k kvs") auto
qed

lemma matching_exact: "map_of kvs k = Some v \<Longrightarrow> matching k kvs \<noteq> []"
  by (force simp: matching_def filter_empty_conv dest: map_of_SomeD)

lemmas validate_defs = validate_echo_def validate_sleep_def validate_flaky_def validate_fake_tool_def
lemmas execute_defs = execute_echo_def execute_sleep_def execute_flaky_def execute_fake_tool_def

text \<open>The four implementations provide it.\<close>

lemma object_json: "object_of (raw_of j) = object_fields j"
  by simp

lemma valid_resolved_object:
  assumes "object_fields j = Some kvs" "(k, v) \<in> set kvs" "k \<noteq> reference_key"
    and "validate_references j True = Inr ()" "resolve_value j p c = Inr r"
  shows "\<exists>fs. object_fields r = Some fs \<and> (one_duration j \<longrightarrow> one_duration r) \<and>
    list_all2 (\<lambda>kv kv'. fst kv = fst kv' \<and> resolve_value (snd kv) p c = Inr (snd kv')) kvs fs"
proof -
  from assms(1,2) have j: "j = JObj kvs" by (cases j) auto
  with valid_object [of kvs k v] assms(2-4) have "map_of kvs reference_key = None" by simp
  with resolve_object [of kvs p c r] assms(5) j obtain fs where fs: "r = JObj fs" "resolve_fields kvs p c = Inr fs"
    by auto
  note rel = resolve_fields_rel [OF fs(2)]
  from list_all2_lengthD [OF rel_matching [OF rel]] j fs rel show ?thesis by simp
qed

interpretation echo: step_implementation validate_echo "\<lambda>_. True" execute_echo
proof
  fix j p c r
  assume a: "validate_echo (raw_of j) = Inr ()" "validate_references j True = Inr ()" "resolve_value j p c = Inr r"
  from a(1) obtain kvs v where kvs: "object_fields j = Some kvs" "map_of kvs ''value'' = Some v"
    unfolding validate_echo_def object_json by (auto split: option.splits if_splits)
  from valid_resolved_object [OF kvs(1) map_of_SomeD [OF kvs(2)] value_not_ref(2) a(2,3)] obtain fs where
      fs: "object_fields r = Some fs" "one_duration j \<longrightarrow> one_duration r"
        "list_all2 (\<lambda>kv kv'. fst kv = fst kv' \<and> resolve_value (snd kv) p c = Inr (snd kv')) kvs fs"
    by blast
  from rel_map_of [OF fs(3), of "''value''"] kvs(2) fs(1,2)
  show "validate_echo (raw_of r) = Inr () \<and> (True \<longrightarrow> True)"
    unfolding validate_echo_def object_json by (auto split: option.splits)
next
  fix a xe opts x
  assume "validate_echo (raw_of (at_resolved_input a)) = Inr ()" "execute_echo xe a opts = Inl x"
  then show "\<not> input_cause (cause_of x)"
    unfolding validate_echo_def object_json
    by (auto simp: execute_echo_def raw_field_def Let_def dest: matching_exact split: option.splits if_splits)
qed (auto simp: execute_echo_def value_output_def split: option.splits)

lemma validate_sleep_Inr: "validate_sleep (raw_of j) = Inr () \<longleftrightarrow>
    (\<exists>kvs s d. object_fields j = Some kvs \<and> map_of kvs ''duration'' = Some (JStr s) \<and>
      parse_duration s = Some d \<and> 0 < d)"
  unfolding validate_sleep_def object_json by (auto split: option.splits json.splits if_splits)

lemma context_err_not_input [simp]: "\<not> input_cause (context_err x)"
  by (cases x) simp_all

interpretation sleep: step_implementation validate_sleep one_duration execute_sleep
proof
  fix j p c r
  assume a: "validate_sleep (raw_of j) = Inr ()" "validate_references j True = Inr ()" "resolve_value j p c = Inr r"
  from a(1) obtain kvs s d where kvs: "object_fields j = Some kvs" "map_of kvs ''duration'' = Some (JStr s)"
      and d: "parse_duration s = Some d" "0 < d"
    unfolding validate_sleep_Inr by blast
  from valid_resolved_object [OF kvs(1) map_of_SomeD [OF kvs(2)] value_not_ref(3) a(2,3)] obtain fs where
      fs: "object_fields r = Some fs" "one_duration j \<longrightarrow> one_duration r"
        "list_all2 (\<lambda>kv kv'. fst kv = fst kv' \<and> resolve_value (snd kv) p c = Inr (snd kv')) kvs fs"
    by blast
  from rel_map_of [OF fs(3), of "''duration''"] kvs(2) have "map_of fs ''duration'' = Some (JStr s)"
    by (auto split: option.splits)
  with fs d show "validate_sleep (raw_of r) = Inr () \<and> (one_duration j \<longrightarrow> one_duration r)"
    unfolding validate_sleep_Inr by blast
next
  fix a xe opts x
  assume v: "validate_sleep (raw_of (at_resolved_input a)) = Inr ()" and keys: "one_duration (at_resolved_input a)"
    and x: "execute_sleep xe a opts = Inl x"
  from v obtain kvs s d where kvs: "object_fields (at_resolved_input a) = Some kvs"
      "map_of kvs ''duration'' = Some (JStr s)" and d: "parse_duration s = Some d" "0 < d"
    unfolding validate_sleep_Inr by blast
  from kvs keys have "at_resolved_input a = JObj kvs" by (cases "at_resolved_input a") auto
  with single_matching [OF _ kvs(2)] keys have "string_field ''duration'' kvs = Some s"
    by (simp add: string_field_def)
  with kvs d x show "\<not> input_cause (cause_of x)"
    by (auto simp: execute_sleep_def split: option.splits)
qed (auto simp: execute_sleep_def split: option.splits if_splits)

lemma flaky_fields: "list_all2 (\<lambda>kv kv'. fst kv = fst kv' \<and> resolve_value (snd kv) p c = Inr (snd kv')) kvs fs \<Longrightarrow>
    flaky_of kvs = Some f \<Longrightarrow> \<exists>f'. flaky_of fs = Some f' \<and>
      fi_temporary_failures f' = fi_temporary_failures f \<and> fi_permanent f' = fi_permanent f \<and>
      (fi_value f' = None \<longleftrightarrow> fi_value f = None)"
  using rel_decode_ints [OF rel_matching, of p c kvs fs "''temporary_failures''" None]
    rel_decode_bools [OF rel_matching, of p c kvs fs "''permanent''" False] rel_raw_field [of _ kvs fs "''value''"]
  by (auto simp: flaky_of_def int_pointer_field_def bool_field_def split: option.splits)

interpretation flaky: step_implementation validate_flaky "\<lambda>_. True" execute_flaky
proof
  fix j p c r
  assume a: "validate_flaky (raw_of j) = Inr ()" "validate_references j True = Inr ()" "resolve_value j p c = Inr r"
  from a(1) obtain kvs f v where kvs: "object_fields j = Some kvs" "flaky_of kvs = Some f"
      and v: "fi_value f = Some v"
    unfolding validate_flaky_def object_json by (auto split: option.splits if_splits bind_splits)
  from v kvs(2) have "raw_field ''value'' kvs = Some v" by (auto simp: flaky_of_def split: option.splits)
  then obtain k where k: "(k, v) \<in> set kvs" "fold_name k = fold_name ''value''" using raw_field_mem by blast
  then have "k \<noteq> reference_key" using value_not_ref(1) by auto
  from valid_resolved_object [OF kvs(1) k(1) this a(2,3)] obtain fs where
      fs: "object_fields r = Some fs" "one_duration j \<longrightarrow> one_duration r"
        "list_all2 (\<lambda>kv kv'. fst kv = fst kv' \<and> resolve_value (snd kv) p c = Inr (snd kv')) kvs fs"
    by blast
  from flaky_fields [OF fs(3) kvs(2)] fs(1,2) a(1) kvs
  show "validate_flaky (raw_of r) = Inr () \<and> (True \<longrightarrow> True)"
    unfolding validate_flaky_def object_json by (auto split: if_splits)
next
  fix a xe opts x
  assume "validate_flaky (raw_of (at_resolved_input a)) = Inr ()" "execute_flaky xe a opts = Inl x"
  then show "\<not> input_cause (cause_of x)"
    unfolding validate_flaky_def object_json
    by (auto simp: execute_flaky_def split: option.splits if_splits bind_splits)
qed (auto simp: execute_flaky_def value_output_def split: option.splits if_splits)

interpretation fake_tool: step_implementation validate_fake_tool "\<lambda>_. True" execute_fake_tool
proof
  fix j p c r
  assume a: "validate_fake_tool (raw_of j) = Inr ()" "validate_references j True = Inr ()"
    "resolve_value j p c = Inr r"
  from a(1) obtain kvs v b where kvs: "object_fields j = Some kvs" "raw_field ''value'' kvs = Some v"
      "bool_field ''block_first_response'' kvs = Some b"
    unfolding validate_fake_tool_def object_json by (auto split: option.splits if_splits)
  then obtain k where k: "(k, v) \<in> set kvs" "fold_name k = fold_name ''value''" using raw_field_mem by blast
  then have "k \<noteq> reference_key" using value_not_ref(1) by auto
  from valid_resolved_object [OF kvs(1) k(1) this a(2,3)] obtain fs where
      fs: "object_fields r = Some fs" "one_duration j \<longrightarrow> one_duration r"
        "list_all2 (\<lambda>kv kv'. fst kv = fst kv' \<and> resolve_value (snd kv) p c = Inr (snd kv')) kvs fs"
    by blast
  from rel_decode_bools [OF rel_matching [OF fs(3)]] kvs(3)
  have "bool_field ''block_first_response'' fs = Some b" by (auto simp: bool_field_def)
  with rel_raw_field [OF fs(3), of "''value''"] kvs(2) fs(1,2)
  show "validate_fake_tool (raw_of r) = Inr () \<and> (True \<longrightarrow> True)"
    unfolding validate_fake_tool_def object_json by auto
next
  fix a xe opts x
  assume "execute_fake_tool xe a opts = Inl x"
  then show "\<not> input_cause (cause_of x)"
    by (auto simp: execute_fake_tool_def split: http_reply.splits if_splits)
qed (auto simp: execute_fake_tool_def split: http_reply.splits if_splits)

section \<open>The dispatcher\<close>

lemma implementations_cases: "implementations ty = Some im \<longleftrightarrow>
    (ty = ''echo'' \<and> im = \<lparr>im_validate = validate_echo, im_execute = execute_echo\<rparr>) \<or>
    (ty = ''sleep'' \<and> im = \<lparr>im_validate = validate_sleep, im_execute = execute_sleep\<rparr>) \<or>
    (ty = ''flaky'' \<and> im = \<lparr>im_validate = validate_flaky, im_execute = execute_flaky\<rparr>) \<or>
    (ty = ''fake_tool'' \<and> im = \<lparr>im_validate = validate_fake_tool, im_execute = execute_fake_tool\<rparr>)"
  by (auto simp: implementations.simps)

lemma implementation_contract: "implementations ty = Some im \<Longrightarrow>
    step_implementation (im_validate im) (clear_input ty) (im_execute im)"
  unfolding implementations_cases
  using echo.step_implementation_axioms sleep.step_implementation_axioms flaky.step_implementation_axioms
    fake_tool.step_implementation_axioms by (auto simp: clear_types)

lemma sleep_causes: "execute_sleep xe a opts = Inl x \<Longrightarrow>
    x \<in> {Plain InvalidSleepInput, Plain InvalidSleepDuration, Plain ContextDeadline, Plain ContextCanceled}"
proof -
  have "context_err c = ContextDeadline \<or> context_err c = ContextCanceled" for c by (cases c) simp_all
  then show "execute_sleep xe a opts = Inl x \<Longrightarrow>
      x \<in> {Plain InvalidSleepInput, Plain InvalidSleepDuration, Plain ContextDeadline, Plain ContextCanceled}"
    by (auto simp: execute_sleep_def split: option.splits if_splits)
qed

text \<open>C37: A step whose input the creation checked is not failed because of this input once its
  references are resolved, with one exception: an attempt ends with an output that is one JSON
  document, or fails for a reason outside the input (the time limit, the tool, a failure the input
  asks for). The exception is a sleep whose input has several keys that are \<open>duration\<close> up to case:
  the check reads only the one in lower case, the execution decodes each of them and may refuse it.\<close>

theorem accepted_input_executes:
  assumes "validate_step_input (at_step_type a) (raw_of j) = Inr ()" "validate_input_references (raw_of j) allow = Inr ()"
    and "resolve_input (raw_of j) (raw_column p) (raw_of c) = Inr (raw_of (at_resolved_input a))"
  shows "(\<exists>out. execute_step xe a opts = Inr (out, raw_nil) \<and> json_valid out) \<or>
    (\<exists>x. execute_step xe a opts = Inl x \<and> \<not> input_cause (cause_of x)) \<or>
    (at_step_type a = ''sleep'' \<and> \<not> one_duration j \<and>
      execute_step xe a opts \<in> {Inl (Plain InvalidSleepInput), Inl (Plain InvalidSleepDuration)})"
proof -
  from assms(1) obtain im where im: "implementations (at_step_type a) = Some im" "im_validate im (raw_of j) = Inr ()"
    by (auto simp: validate_step_input_def split: option.splits)
  have refs: "validate_references j True = Inr ()"
    using assms(2) validate_allow_previous(1) [of j] by (cases allow) (auto simp: validate_input_references_def)
  have res: "resolve_value j (case p of None \<Rightarrow> JNull | Some x \<Rightarrow> x) c = Inr (at_resolved_input a)"
    using assms(3) unfolding resolve_input_columns by (auto simp: raw_of_def split: sum.splits)
  show ?thesis
  proof (cases "clear_input (at_step_type a) j")
    case True
    from step_implementation.created_input_runs [OF implementation_contract [OF im(1)] im(2) refs res True, of xe opts]
    show ?thesis using im(1) by (elim disjE exE) (auto simp: execute_step_def)
  next
    case False
    then have sleep: "at_step_type a = ''sleep''" "\<not> one_duration j" by (auto simp: clear_input_def split: if_splits)
    then have ex: "execute_step xe a opts = (case execute_sleep xe a opts of Inl x \<Rightarrow> Inl x | Inr out \<Rightarrow> Inr (out, raw_nil))"
      by (simp add: execute_step_def implementations.simps)
    show ?thesis
    proof (cases "execute_sleep xe a opts")
      case (Inl x)
      with sleep_causes [OF Inl] ex sleep show ?thesis by auto
    next
      case (Inr out)
      with sleep.output_is_json [OF Inr] ex show ?thesis by auto
    qed
  qed
qed

lemma accepted_input_executes_witness:
  "(\<exists>out. execute_step \<lparr>xe_interrupt = (\<lambda>_. None), xe_request_ok = (\<lambda>_. True), xe_post = (\<lambda>_ _. RequestError True)\<rparr>
      \<lparr>at_step_id = ''a'', at_task_id = ''t'', at_step_index = 1, at_step_type = ''echo'', at_attempt = 1,
       at_max_attempts = 3, at_idempotency_key = ''t:a'', at_resolved_input = JObj [(''value'', JNum 7 0)],
       at_timeout_seconds = 30\<rparr> \<lparr>eo_fake_tool_url = []\<rparr> = Inr (out, raw_nil) \<and> json_valid out)"
proof -
  let ?j = "JObj [(''value'', JObj [(''$ref'', JStr ''previous_output'')])]"
  let ?a = "\<lparr>at_step_id = ''a'', at_task_id = ''t'', at_step_index = 1, at_step_type = ''echo'', at_attempt = 1,
       at_max_attempts = 3, at_idempotency_key = ''t:a'', at_resolved_input = JObj [(''value'', JNum 7 0)],
       at_timeout_seconds = 30\<rparr>"
  let ?xe = "\<lparr>xe_interrupt = (\<lambda>_. None), xe_request_ok = (\<lambda>_. True), xe_post = (\<lambda>_ _. RequestError True)\<rparr>"
  have "validate_step_input ''echo'' (raw_of ?j) = Inr ()" by code_simp
  moreover have "validate_input_references (raw_of ?j) True = Inr ()" by code_simp
  moreover have "resolve_input (raw_of ?j) (raw_column (Some (JNum 7 0))) (raw_of (JObj [])) =
      Inr (raw_of (JObj [(''value'', JNum 7 0)]))" by code_simp
  moreover have "execute_step ?xe ?a \<lparr>eo_fake_tool_url = []\<rparr> \<noteq> Inl x" for x
    by (auto simp: execute_step_def implementations.simps execute_echo_def raw_field_def matching_def)
  ultimately show ?thesis
    using accepted_input_executes [of ?a ?j True "Some (JNum 7 0)" "JObj []" ?xe "\<lparr>eo_fake_tool_url = []\<rparr>"] by auto
qed

section \<open>Which failures are retried\<close>

lemma echo_causes: "execute_echo xe a opts = Inl x \<Longrightarrow> x = Plain InvalidEchoInput"
  by (auto simp: execute_echo_def split: option.splits)

lemma flaky_causes: "execute_flaky xe a opts = Inl x \<Longrightarrow>
    x \<in> {Failure FailurePermanent InvalidFlakyInput, Failure FailurePermanent ControlledPermanentFailure,
      Failure FailureTemporary ControlledTemporaryFailure}"
  by (auto simp: execute_flaky_def split: option.splits if_splits)

lemma tool_causes: "execute_fake_tool xe a opts = Inl x \<Longrightarrow>
    x \<in> {Failure FailurePermanent FakeToolURLMissing, Failure FailurePermanent FakeToolBadRequest,
      Failure FailurePermanent FakeToolConflict, Failure FailurePermanent InvalidFakeToolResult} \<or>
    (\<exists>b. x = Failure FailureTemporary (FakeToolRequest b) \<or> x = Failure FailureTemporary (FakeToolRead b)) \<or>
    (\<exists>n. x = Failure (if n = 408 \<or> n = 429 \<or> 500 \<le> n then FailureTemporary else FailurePermanent) (FakeToolStatus n))"
proof -
  assume x: "execute_fake_tool xe a opts = Inl x"
  show ?thesis
  proof (cases "eo_fake_tool_url opts = [] \<or> \<not> xe_request_ok xe (eo_fake_tool_url opts @ ''/invoke'')")
    case False
    with x have r: "(case xe_post xe (eo_fake_tool_url opts @ ''/invoke'') (invocation_body a) of
        RequestError b \<Rightarrow> Inl (Failure FailureTemporary (FakeToolRequest b))
      | ReadError b \<Rightarrow> Inl (Failure FailureTemporary (FakeToolRead b))
      | Reply status body \<Rightarrow>
          (if status = 409 then Inl (Failure FailurePermanent FakeToolConflict)
           else if status \<noteq> 200 then
             Inl (Failure (if status = 408 \<or> status = 429 \<or> status \<ge> 500
                           then FailureTemporary else FailurePermanent) (FakeToolStatus status))
           else if raw_len body > max_json_bytes \<or> \<not> json_valid body
             then Inl (Failure FailurePermanent InvalidFakeToolResult)
           else Inr body)) = Inl x"
      by (simp add: execute_fake_tool_def)
    show ?thesis
    proof (cases "xe_post xe (eo_fake_tool_url opts @ ''/invoke'') (invocation_body a)")
      case (Reply status body)
      with r have r: "(if status = 409 then Inl (Failure FailurePermanent FakeToolConflict)
           else if status \<noteq> 200 then
             Inl (Failure (if status = 408 \<or> status = 429 \<or> status \<ge> 500
                           then FailureTemporary else FailurePermanent) (FakeToolStatus status))
           else if raw_len body > max_json_bytes \<or> \<not> json_valid body
             then Inl (Failure FailurePermanent InvalidFakeToolResult)
           else Inr body) = Inl x" by simp
      show ?thesis
      proof (cases "status = 409 \<or> status = 200")
        case True
        with r have "x = Failure FailurePermanent FakeToolConflict \<or> x = Failure FailurePermanent InvalidFakeToolResult"
          by (cases "status = 409") (simp_all split: if_split_asm)
        then show ?thesis by blast
      next
        case False
        with r have "x = Failure (if status = 408 \<or> status = 429 \<or> status \<ge> 500
            then FailureTemporary else FailurePermanent) (FakeToolStatus status)" by simp
        then show ?thesis by blast
      qed
    next
      case (RequestError b)
      with r have "x = Failure FailureTemporary (FakeToolRequest b)" by simp
      then show ?thesis by blast
    next
      case (ReadError b)
      with r have "x = Failure FailureTemporary (FakeToolRead b)" by simp
      then show ?thesis by blast
    qed
  next
    case True
    with x have "x = Failure FailurePermanent FakeToolURLMissing \<or> x = Failure FailurePermanent FakeToolBadRequest"
      by (cases "eo_fake_tool_url opts = []") (simp_all add: execute_fake_tool_def)
    then show ?thesis by blast
  qed
qed

text \<open>An attempt that failed is retried exactly for these reasons: the time limit, a failure the
  flaky step was told to have, a request to the tool that got no answer, and an answer of the tool
  with status 408, 429 or 500 and above. Wrong inputs, conflicts, unknown step types and a
  cancelled context are permanent.\<close>

theorem retryable_failures:
  assumes "execute_step xe a opts = Inl x"
  shows "classify x = FailureTemporary \<longleftrightarrow>
    (case cause_of x of
       ContextDeadline \<Rightarrow> True
     | ControlledTemporaryFailure \<Rightarrow> True
     | FakeToolRequest b \<Rightarrow> True
     | FakeToolRead b \<Rightarrow> True
     | FakeToolStatus n \<Rightarrow> n = 408 \<or> n = 429 \<or> 500 \<le> n
     | _ \<Rightarrow> False)"
proof -
  consider (unknown) "x = Plain (UnknownStepType (at_step_type a))" | (echo) "execute_echo xe a opts = Inl x"
    | (sleep) "execute_sleep xe a opts = Inl x" | (flaky) "execute_flaky xe a opts = Inl x"
    | (tool) "execute_fake_tool xe a opts = Inl x"
    using assms by (auto simp: execute_step_def implementations.simps split: option.splits sum.splits if_splits)
  then show ?thesis
  proof cases
    case tool
    from tool_causes [OF this] show ?thesis by (auto split: if_splits)
  qed (auto dest!: echo_causes sleep_causes flaky_causes)
qed

lemma retryable_failures_witness:
  "\<exists>x. execute_step \<lparr>xe_interrupt = (\<lambda>_. None), xe_request_ok = (\<lambda>_. True), xe_post = (\<lambda>_ _. Reply 503 raw_nil)\<rparr>
      \<lparr>at_step_id = ''a'', at_task_id = ''t'', at_step_index = 0, at_step_type = ''fake_tool'', at_attempt = 1,
       at_max_attempts = 3, at_idempotency_key = ''t:a'', at_resolved_input = JNull, at_timeout_seconds = 30\<rparr>
      \<lparr>eo_fake_tool_url = ''u''\<rparr> = Inl x \<and> classify x = FailureTemporary"
proof -
  let ?xe = "\<lparr>xe_interrupt = (\<lambda>_. None), xe_request_ok = (\<lambda>_. True), xe_post = (\<lambda>_ _. Reply 503 raw_nil)\<rparr>"
  let ?a = "\<lparr>at_step_id = ''a'', at_task_id = ''t'', at_step_index = 0, at_step_type = ''fake_tool'', at_attempt = 1,
       at_max_attempts = 3, at_idempotency_key = ''t:a'', at_resolved_input = JNull, at_timeout_seconds = 30\<rparr>"
  have e: "execute_step ?xe ?a \<lparr>eo_fake_tool_url = ''u''\<rparr> = Inl (Failure FailureTemporary (FakeToolStatus 503))"
    by (simp add: execute_step_def implementations.simps execute_fake_tool_def)
  with retryable_failures [OF e] show ?thesis by simp
qed

section \<open>Where the check and the execution differ\<close>

text \<open>
  \<open>validateSleep\<close> looks the key up as it is written, \<open>executeSleep\<close> up to case: an input with both
  \<open>duration\<close> and \<open>DURATION\<close> is accepted and then fails: the exception above happens.
\<close>

lemma sleep_check_differs:
  "validate_step_input ''sleep'' (raw_of (JObj [(''DURATION'', JNum 5 0), (''duration'', JStr ''1s'')])) = Inr ()"
  "execute_sleep xe (a\<lparr>at_resolved_input := JObj [(''DURATION'', JNum 5 0), (''duration'', JStr ''1s'')]\<rparr>) opts =
    Inl (Plain InvalidSleepInput)"
proof -
  show "validate_step_input ''sleep'' (raw_of (JObj [(''DURATION'', JNum 5 0), (''duration'', JStr ''1s'')])) = Inr ()"
    by code_simp
  have "string_field ''duration'' [(''DURATION'', JNum 5 0), (''duration'', JStr ''1s'')] = None" by code_simp
  then show "execute_sleep xe (a\<lparr>at_resolved_input := JObj [(''DURATION'', JNum 5 0), (''duration'', JStr ''1s'')]\<rparr>) opts =
      Inl (Plain InvalidSleepInput)"
    by (simp add: execute_sleep_def)
qed

end
