(* ===== verification/Worker.thy ===== *)
theory Worker
  imports Executor Store_Claim Store_Approval Store_Control Store_Create
begin

text \<open>
  \<open>internal/worker/worker.go\<close>: the execution of a claimed task, the monitor that renews its lease
  and looks for a cancellation, and the slots of a worker process. A call of the store has its
  own environment; what other clients and the goroutine beside this one commit before it is a
  function on the database.
\<close>

section \<open>Options\<close>

record worker_options =
  wo_worker_id :: string
  wo_concurrency :: int
  wo_poll_interval :: int
  wo_heartbeat_interval :: int
  wo_cancellation_interval :: int
  wo_fake_tool_url :: string

definition positive_or :: "int \<Rightarrow> int \<Rightarrow> int" where
  "positive_or n fallback = (if n \<le> 0 then fallback else n)"

definition new_worker :: "worker_options \<Rightarrow> worker_options" where
  "new_worker opts =
     opts\<lparr>wo_concurrency := positive_or (wo_concurrency opts) 1,
       wo_poll_interval := positive_or (wo_poll_interval opts) 1000000000,
       wo_heartbeat_interval := positive_or (wo_heartbeat_interval opts) (10 * 1000000000),
       wo_cancellation_interval := positive_or (wo_cancellation_interval opts) 1000000000\<rparr>"

section \<open>Control transitions\<close>

text \<open>\<open>cancelClaim\<close> and \<open>timeoutClaim\<close>; the errors \<open>finalizeControl\<close> returns are only logged. Others may
  act between the two calls of \<open>timeoutClaim\<close>.\<close>

definition cancel_claim :: "env \<Rightarrow> lease_token \<Rightarrow> db \<Rightarrow> db" where
  "cancel_claim e lease d = fst (cancel_owned_task e lease d)"

definition timeout_claim :: "env \<Rightarrow> (db \<Rightarrow> db) \<Rightarrow> env \<Rightarrow> lease_token \<Rightarrow> db \<Rightarrow> db" where
  "timeout_claim e others e' lease d =
     (case timeout_owned_task e lease d of
        (d', Inl x) \<Rightarrow> (if x = ErrCancelled then cancel_claim e' lease (others d') else d')
      | (d', Inr _) \<Rightarrow> d')"

section \<open>The outcome of an execution\<close>

text \<open>The texts of the errors; the text of a failed request or read is its transport's.\<close>

fun error_text :: "string \<Rightarrow> exec_cause \<Rightarrow> string" where
  "error_text transport (UnknownStepType t) = ''unknown step type '' @ encode_str t"
| "error_text transport InvalidEchoInput = ''invalid echo input''"
| "error_text transport InvalidSleepInput = ''invalid sleep input''"
| "error_text transport InvalidSleepDuration = ''invalid sleep duration''"
| "error_text transport ContextDeadline = ''context deadline exceeded''"
| "error_text transport ContextCanceled = ''context canceled''"
| "error_text transport InvalidFlakyInput = ''invalid flaky input''"
| "error_text transport ControlledPermanentFailure = ''controlled_permanent_failure''"
| "error_text transport ControlledTemporaryFailure = ''controlled_temporary_failure''"
| "error_text transport FakeToolURLMissing = ''fake tool URL is not configured''"
| "error_text transport FakeToolBadRequest = transport"
| "error_text transport (FakeToolRequest b) = ''fake tool request: '' @ transport"
| "error_text transport (FakeToolRead b) = ''read fake tool response: '' @ transport"
| "error_text transport FakeToolConflict = ''fake tool idempotency conflict''"
| "error_text transport (FakeToolStatus n) = ''fake tool status '' @ digits n"
| "error_text transport InvalidFakeToolResult = ''invalid fake tool result''"

definition outcome_of :: "string \<Rightarrow> exec_error + raw \<times> raw \<Rightarrow> step_outcome" where
  "outcome_of transport result =
     (case result of
        Inr (output, checkpoint) \<Rightarrow>
          \<lparr>so_output = output, so_checkpoint = checkpoint, so_error = [], so_failure_class = NoClass\<rparr>
      | Inl x \<Rightarrow>
          \<lparr>so_output = raw_nil, so_checkpoint = raw_nil,
           so_error = (if is_deadline (cause_of x) then ''step_timeout'' else error_text transport (cause_of x)),
           so_failure_class = classify x\<rparr>)"

section \<open>executeClaim\<close>

text \<open>
  One turn of the loop: the state of the task's context at its head and after the execution (or
  the wait), the environments of the calls, and what others commit before the \<open>k\<close>-th call.
\<close>

datatype context_state = Live | DeadlineExceeded | Canceled

record turn =
  tn_head :: context_state
  tn_load :: env
  tn_step :: env
  tn_exec :: exec_env
  tn_transport :: string
  tn_after :: context_state
  tn_finish :: env
  tn_control :: "nat \<Rightarrow> env"
  tn_others :: "nat \<Rightarrow> db \<Rightarrow> db"

datatype stop =
    ContextOver
  | LoadFailed err
  | NothingToDo
  | WaitingForApproval "err + unit"
  | StartRejected err
  | TimedOut
  | Interrupted
  | FinishRejected err
  | AttemptFailed
  | OutOfTurns

datatype turn_end = Continue | Stop stop

definition load_claimed :: "env \<Rightarrow> string \<Rightarrow> db \<Rightarrow> err + loaded_task" where
  "load_claimed e tid d = (if fault e = StatementFails then Inl ErrDatabase else load_task d (later e d) tid)"

definition approval_turn :: "lease_token \<Rightarrow> turn \<Rightarrow> string \<Rightarrow> db \<Rightarrow> db \<times> turn_end" where
  "approval_turn lease tn sid d =
     (let (d1, r) = wait_for_approval (tn_step tn) lease sid d; d2 = tn_others tn 2 d1
      in if r = Inl ErrCancelled then (cancel_claim (tn_control tn 0) lease d2, Stop (WaitingForApproval r))
         else if r = Inl ErrDeadlineExceeded \<or> tn_after tn = DeadlineExceeded
           then (timeout_claim (tn_control tn 0) (tn_others tn 4) (tn_control tn 1) lease d2, Stop (WaitingForApproval r))
         else (d1, Stop (WaitingForApproval r)))"

definition finish_turn ::
  "lease_token \<Rightarrow> turn \<Rightarrow> step_attempt \<Rightarrow> exec_error + raw \<times> raw \<Rightarrow> db \<Rightarrow> db \<times> turn_end" where
  "finish_turn lease tn attempt result d =
     (case finish_step (tn_finish tn) lease attempt (outcome_of (tn_transport tn) result) d of
        (d1, Inl x) \<Rightarrow>
          (if x = ErrDeadlineExceeded
           then (timeout_claim (tn_control tn 0) (tn_others tn 4) (tn_control tn 1) lease (tn_others tn 3 d1), Stop TimedOut)
           else (d1, Stop (FinishRejected x)))
      | (d1, Inr _) \<Rightarrow> (d1, case result of Inl x \<Rightarrow> Stop AttemptFailed | Inr _ \<Rightarrow> Continue))"

definition step_turn :: "string \<Rightarrow> lease_token \<Rightarrow> turn \<Rightarrow> string \<Rightarrow> db \<Rightarrow> db \<times> turn_end" where
  "step_turn url lease tn sid d =
     (case start_step (tn_step tn) lease sid d of
        (d1, Inl x) \<Rightarrow> (d1, Stop (StartRejected x))
      | (d1, Inr attempt) \<Rightarrow>
          (let result = execute_step (tn_exec tn) attempt \<lparr>eo_fake_tool_url = url\<rparr>;
               d2 = tn_others tn 2 d1
           in if tn_after tn = DeadlineExceeded
              then (timeout_claim (tn_control tn 0) (tn_others tn 4) (tn_control tn 1) lease d2, Stop TimedOut)
              else if tn_after tn \<noteq> Live then (d2, Stop Interrupted)
              else finish_turn lease tn attempt result d2))"

definition execute_turn :: "string \<Rightarrow> lease_token \<Rightarrow> turn \<Rightarrow> db \<Rightarrow> db \<times> turn_end" where
  "execute_turn url lease tn d =
     (if tn_head tn \<noteq> Live then (d, Stop ContextOver)
      else
        (let d0 = tn_others tn 0 d in
         case load_claimed (tn_load tn) (lt_task_id lease) d0 of
           Inl x \<Rightarrow> (d0, Stop (LoadFailed x))
         | Inr ld \<Rightarrow>
             (if t_status (ld_task ld) \<noteq> StatusRunning \<or> t_current_step (ld_task ld) \<ge> length (ld_steps ld)
              then (d0, Stop NothingToDo)
              else
                (let s = ld_steps ld ! t_current_step (ld_task ld); d1 = tn_others tn 1 d0
                 in if s_type s = step_type_approval then approval_turn lease tn (s_id s) d1
                    else step_turn url lease tn (s_id s) d1))))"

text \<open>The loop, over the turns the environment provides.\<close>

fun execute_claim :: "string \<Rightarrow> lease_token \<Rightarrow> turn list \<Rightarrow> db \<Rightarrow> db \<times> stop" where
  "execute_claim url lease [] d = (d, OutOfTurns)"
| "execute_claim url lease (tn # tns) d =
     (case execute_turn url lease tn d of
        (d', Continue) \<Rightarrow> execute_claim url lease tns d'
      | (d', Stop why) \<Rightarrow> (d', why))"

section \<open>monitorControl\<close>

text \<open>A tick of one of the two tickers, or the end of the context; \<open>None\<close> is another round.\<close>

datatype tick = ContextDone | HeartbeatTick env env | CancellationTick env env

datatype monitor_end = MonitorDone | HeartbeatStopped err | PollingStopped err | CancellationSeen

fun monitor_tick :: "store \<Rightarrow> lease_token \<Rightarrow> tick \<Rightarrow> db \<Rightarrow> db \<times> monitor_end option" where
  "monitor_tick st lease ContextDone d = (d, Some MonitorDone)"
| "monitor_tick st lease (HeartbeatTick e control) d =
     (case renew_lease st e lease d of
        (d', Inr _) \<Rightarrow> (d', None)
      | (d', Inl x) \<Rightarrow>
          ((if x = ErrCancelled then cancel_claim control lease d' else d'), Some (HeartbeatStopped x)))"
| "monitor_tick st lease (CancellationTick e control) d =
     (case cancellation_requested e lease d of
        Inl x \<Rightarrow> (d, Some (PollingStopped x))
      | Inr requested \<Rightarrow>
          (if requested then (cancel_claim control lease d, Some CancellationSeen) else (d, None)))"

fun monitor_control ::
  "store \<Rightarrow> lease_token \<Rightarrow> (tick \<times> (db \<Rightarrow> db)) list \<Rightarrow> db \<Rightarrow> db \<times> monitor_end" where
  "monitor_control st lease [] d = (d, MonitorDone)"
| "monitor_control st lease ((tick, others) # ticks) d =
     (case monitor_tick st lease tick (others d) of
        (d', None) \<Rightarrow> monitor_control st lease ticks d'
      | (d', Some why) \<Rightarrow> (d', why))"

section \<open>runSlot and Run\<close>

text \<open>A round of a slot: the environment of its claim, the turns of the execution, and what others
  do while it waits for its next poll.\<close>

record slot_round =
  sl_claim :: env
  sl_turns :: "turn list"
  sl_idle :: "db \<Rightarrow> db"

fun run_slot :: "store \<Rightarrow> worker_options \<Rightarrow> slot_round list \<Rightarrow> db \<Rightarrow> db" where
  "run_slot st opts [] d = d"
| "run_slot st opts (rd # rds) d =
     (case claim_task st (sl_claim rd) (wo_worker_id opts) d of
        (d', Inr c) \<Rightarrow>
          run_slot st opts rds (fst (execute_claim (wo_fake_tool_url opts) (cl_token c) (sl_turns rd) d'))
      | (d', Inl x) \<Rightarrow> run_slot st opts rds (sl_idle rd d'))"

text \<open>\<open>Run\<close> refuses a worker without an id; its slots run side by side, each other's \<open>others\<close>.\<close>

definition run_worker :: "store \<Rightarrow> worker_options \<Rightarrow> slot_round list \<Rightarrow> db \<Rightarrow> err + db" where
  "run_worker st opts rds d = (if wo_worker_id opts = [] then Inl ErrWorkerRequired else Inr (run_slot st opts rds d))"

end
