(* ===== verification/Worker_Theorems.thy ===== *)
theory Worker_Theorems
  imports Worker Store_Operations
begin

text \<open>
  What a worker does to the database: nothing with a superseded token, only well-formed steps
  otherwise; its loop ends, and when nothing disturbs it the task leaves its hands in a state
  from which the others go on.
\<close>

section \<open>A worker without its lease\<close>

definition superseded :: "lease_token \<Rightarrow> db \<Rightarrow> bool" where
  "superseded lease d \<longleftrightarrow>
     (\<exists>t. find_task (lt_task_id lease) d = Some t \<and> lt_lease_version lease < t_lease_version t)"

lemma superseded_no_effect: "superseded lease d \<Longrightarrow> token_of a = Some lease \<Longrightarrow> perform st a d = d"
proof -
  assume "superseded lease d" and a: "token_of a = Some lease"
  then obtain t where t: "find_task (lt_task_id lease) d = Some t" "lt_lease_version lease < t_lease_version t"
    by (auto simp: superseded_def)
  from view_of_find [OF t(1)] show ?thesis
    by (rule superseded_action [OF a, where now = 0]) (use t(2) in \<open>simp add: version_from_def\<close>)
qed

lemma superseded_ops:
  assumes "superseded lease d"
  shows "fst (start_step e lease sid d) = d" "fst (finish_step e lease a out d) = d"
    "fst (wait_for_approval e lease sid d) = d" "fst (timeout_owned_task e lease d) = d"
    "fst (cancel_owned_task e lease d) = d" "fst (renew_lease st e lease d) = d"
  using superseded_no_effect [OF assms, of "StartStep e lease sid"] superseded_no_effect [OF assms, of "FinishStep e lease a out"]
    superseded_no_effect [OF assms, of "WaitForApproval e lease sid"] superseded_no_effect [OF assms, of "TimeoutOwnedTask e lease"]
    superseded_no_effect [OF assms, of "CancelOwnedTask e lease"] superseded_no_effect [OF assms, of "RenewLease e lease" st]
  by simp_all

lemma superseded_control: "superseded lease d \<Longrightarrow> cancel_claim e lease d = d"
    "superseded lease d \<Longrightarrow> timeout_claim e (\<lambda>x. x) e' lease d = d"
proof -
  assume s: "superseded lease d"
  then show c: "cancel_claim e lease d = d" for e by (simp add: cancel_claim_def superseded_ops)
  show "timeout_claim e (\<lambda>x. x) e' lease d = d"
    using superseded_ops(4) [OF s, of e] c by (cases "timeout_owned_task e lease d") (auto simp: timeout_claim_def split: sum.splits)
qed

definition undisturbed :: "turn \<Rightarrow> bool" where
  "undisturbed tn \<longleftrightarrow> tn_others tn = (\<lambda>_ d. d) \<and> later (tn_load tn) = (\<lambda>d. d) \<and>
     later (tn_step tn) = (\<lambda>d. d) \<and> later (tn_finish tn) = (\<lambda>d. d)"

lemma superseded_turn:
  assumes "superseded lease d" "tn_others tn = (\<lambda>_ x. x)"
  shows "fst (execute_turn url lease tn d) = d"
proof -
  have f: "fst (finish_turn lease tn a r d) = d" for a r
    using superseded_ops(2) [OF assms(1), of "tn_finish tn" a "outcome_of (tn_transport tn) r"] assms superseded_control
    by (cases "finish_step (tn_finish tn) lease a (outcome_of (tn_transport tn) r) d")
      (auto simp: finish_turn_def split: sum.splits)
  have s: "fst (step_turn url lease tn sid d) = d" for sid
    using superseded_ops(1) [OF assms(1), of "tn_step tn" sid] assms superseded_control f
    by (cases "start_step (tn_step tn) lease sid d") (auto simp: step_turn_def Let_def split: sum.splits)
  have "fst (approval_turn lease tn sid d) = d" for sid
    using superseded_ops(3) [OF assms(1), of "tn_step tn" sid] assms superseded_control
    by (cases "wait_for_approval (tn_step tn) lease sid d") (auto simp: approval_turn_def Let_def)
  with s assms(2) show ?thesis
    by (auto simp: execute_turn_def Let_def split: sum.splits)
qed

lemma superseded_claim: "superseded lease d \<Longrightarrow> \<forall>tn \<in> set tns. tn_others tn = (\<lambda>_ x. x) \<Longrightarrow>
    fst (execute_claim url lease tns d) = d"
proof (induction tns)
  case (Cons tn tns)
  from superseded_turn [OF Cons.prems(1), of tn url] Cons show ?case
    by (cases "execute_turn url lease tn d") (auto split: turn_end.splits)
qed simp

lemma superseded_monitor: "superseded lease d \<Longrightarrow> fst (monitor_control st lease (map (\<lambda>t. (t, \<lambda>x. x)) ticks) d) = d"
proof (induction ticks)
  case (Cons tick ticks)
  have "fst (monitor_tick st lease tick d) = d"
  proof (cases tick)
    case (HeartbeatTick e control)
    with superseded_ops(6) [OF Cons.prems, of st e] superseded_control [OF Cons.prems] show ?thesis
      by (cases "renew_lease st e lease d") (auto split: sum.splits)
  qed (use superseded_control [OF Cons.prems] in \<open>auto split: sum.splits\<close>)
  with Cons show ?case
    by (cases "monitor_tick st lease tick d") (auto split: option.splits)
qed simp

text \<open>A worker that lost its task to another one is harmless, however long it goes on: neither its
  executing loop nor its monitor changes anything in any later state of the database.\<close>

theorem stale_worker_harmless:
  assumes "reachable st (d, now)" "find_task (lt_task_id lease) d = Some t" "lt_lease_version lease < t_lease_version t"
    and "run (sys_step st) (d, now) acts (d', now')" "\<forall>tn \<in> set tns. tn_others tn = (\<lambda>_ x. x)"
  shows "fst (execute_claim url lease tns d') = d' \<and>
    fst (monitor_control st lease (map (\<lambda>t. (t, \<lambda>x. x)) ticks) d') = d'"
proof -
  have "version_from (Suc (lt_lease_version lease)) now (t, steps_of (lt_task_id lease) d, log_of (lt_task_id lease) d)"
    using assms(3) by (simp add: version_from_def)
  from version_from.lasts [OF assms(4) _ view_of_find [OF assms(2)] this] reachable_wf_db [OF assms(1)]
  obtain v' where "view_of (lt_task_id lease) d' = Some v'" "version_from (Suc (lt_lease_version lease)) now' v'" by auto
  then have "superseded lease d'" by (auto simp: superseded_def version_from_def dest!: view_of_parts)
  with superseded_claim [OF this assms(5)] superseded_monitor show ?thesis by blast
qed

definition turn_at :: "time \<Rightarrow> turn" where
  "turn_at n = \<lparr>tn_head = Live, tn_load = env_at n, tn_step = env_at n,
     tn_exec = \<lparr>xe_interrupt = (\<lambda>_. None), xe_request_ok = (\<lambda>_. True), xe_post = (\<lambda>_ _. RequestError False)\<rparr>,
     tn_transport = ''eof'', tn_after = Live, tn_finish = env_at (n + 100), tn_control = (\<lambda>_. env_at (n + 200)),
     tn_others = (\<lambda>_ d. d)\<rparr>"

lemma stale_worker_harmless_witness:
  "fst (execute_claim [] tok [turn_at 31000100, turn_at 31000400] db_taken) = db_taken"
  using stale_worker_harmless [OF reach_taken, where lease = tok and t = taken_row, OF _ _ run_nil,
      of "[turn_at 31000100, turn_at 31000400]" "[]" "[]"]
  by (simp add: task_read taken_row_def tok_def turn_at_def del: execute_claim.simps)

section \<open>The invariant\<close>

lemma perform_wf_simps: "wf_db d \<Longrightarrow> wf_db (fst (start_step e lease sid d))"
    "wf_db d \<Longrightarrow> wf_db (fst (finish_step e lease a out d))" "wf_db d \<Longrightarrow> wf_db (fst (wait_for_approval e lease sid d))"
    "wf_db d \<Longrightarrow> wf_db (fst (timeout_owned_task e lease d))" "wf_db d \<Longrightarrow> wf_db (fst (cancel_owned_task e lease d))"
    "wf_db d \<Longrightarrow> wf_db (fst (claim_task st e w d))"
  using perform_wf [of d "StartStep e lease sid" st] perform_wf [of d "FinishStep e lease a out" st]
    perform_wf [of d "WaitForApproval e lease sid" st] perform_wf [of d "TimeoutOwnedTask e lease" st]
    perform_wf [of d "CancelOwnedTask e lease" st] perform_wf [of d "ClaimTask e w" st]
  by simp_all

lemma control_wf: "wf_db d \<Longrightarrow> wf_db (cancel_claim e lease d)" "wf_db d \<Longrightarrow> (\<And>x. wf_db x \<Longrightarrow> wf_db (others x)) \<Longrightarrow> wf_db (timeout_claim e others e' lease d)"
proof -
  assume wf: "wf_db d"
  then show "wf_db (cancel_claim e lease d)" by (simp add: cancel_claim_def perform_wf_simps)
  assume "\<And>x. wf_db x \<Longrightarrow> wf_db (others x)"
  with wf show "wf_db (timeout_claim e others e' lease d)"
    using perform_wf_simps(4) [OF wf, of e lease] perform_wf_simps(5)
    by (cases "timeout_owned_task e lease d") (auto simp: timeout_claim_def cancel_claim_def split: sum.splits)
qed

definition others_ok :: "turn \<Rightarrow> bool" where
  "others_ok tn \<longleftrightarrow> (\<forall>k d. wf_db d \<longrightarrow> wf_db (tn_others tn k d))"

lemma turn_wf:
  assumes "wf_db d" "others_ok tn"
  shows "wf_db (fst (execute_turn url lease tn d))"
proof -
  have o: "wf_db x \<Longrightarrow> wf_db (tn_others tn k x)" for k x using assms(2) by (simp add: others_ok_def)
  have f: "wf_db x \<Longrightarrow> wf_db (fst (finish_turn lease tn a r x))" for a r x
    using perform_wf_simps(2) [of x "tn_finish tn" lease a "outcome_of (tn_transport tn) r"] control_wf o
    by (cases "finish_step (tn_finish tn) lease a (outcome_of (tn_transport tn) r) x")
      (auto simp: finish_turn_def split: sum.splits)
  have s: "wf_db x \<Longrightarrow> wf_db (fst (step_turn url lease tn sid x))" for sid x
    using perform_wf_simps(1) [of x "tn_step tn" lease sid] control_wf f o
    by (cases "start_step (tn_step tn) lease sid x") (auto simp: step_turn_def Let_def split: sum.splits)
  have "wf_db x \<Longrightarrow> wf_db (fst (approval_turn lease tn sid x))" for sid x
    using perform_wf_simps(3) [of x "tn_step tn" lease sid] control_wf o
    by (cases "wait_for_approval (tn_step tn) lease sid x") (auto simp: approval_turn_def Let_def)
  with s o assms(1) show ?thesis
    by (auto simp: execute_turn_def Let_def split: sum.splits)
qed

lemma claim_wf: "wf_db d \<Longrightarrow> list_all others_ok tns \<Longrightarrow> wf_db (fst (execute_claim url lease tns d))"
proof (induction tns arbitrary: d)
  case (Cons tn tns)
  from turn_wf [OF Cons.prems(1), of tn url lease] Cons show ?case
    by (cases "execute_turn url lease tn d") (auto split: turn_end.splits)
qed simp

text \<open>A slot of a worker keeps the database well formed through any number of claims and
  executions, whatever the other clients commit in between, as long as they keep it so too.\<close>

theorem slot_keeps_invariant:
  assumes "wf_db d" "\<forall>rd \<in> set rds. list_all others_ok (sl_turns rd) \<and> (\<forall>x. wf_db x \<longrightarrow> wf_db (sl_idle rd x))"
  shows "wf_db (run_slot st opts rds d)"
  using assms
proof (induction rds arbitrary: d)
  case (Cons rd rds)
  from perform_wf_simps(6) [OF Cons.prems(1), of st "sl_claim rd" "wo_worker_id opts"] Cons claim_wf show ?case
    by (cases "claim_task st (sl_claim rd) (wo_worker_id opts) d") (auto split: sum.splits)
qed simp

definition worker0 :: worker_options where
  "worker0 = \<lparr>wo_worker_id = ''w'', wo_concurrency = 1, wo_poll_interval = 1, wo_heartbeat_interval = 1,
     wo_cancellation_interval = 1, wo_fake_tool_url = []\<rparr>"

definition round0 :: slot_round where
  "round0 = \<lparr>sl_claim = env_at 100, sl_turns = [turn_at 200, turn_at 400, turn_at 600], sl_idle = (\<lambda>d. d)\<rparr>"

lemma slot_keeps_invariant_witness: "wf_db (run_slot st0 worker0 [round0] (db_new ''echo''))"
  using slot_keeps_invariant [OF wf_scenario(1), of "[round0]" st0 worker0]
  by (simp add: round0_def turn_at_def others_ok_def)

section \<open>The loop ends\<close>

lemma start_attempt: "start_step e lease sid d = (d', Inr a) \<Longrightarrow> wf_db d \<Longrightarrow> later e = (\<lambda>x. x) \<Longrightarrow>
    start_body e lease sid d = Commit d' (Inr a)"
proof -
  assume s: "start_step e lease sid d = (d', Inr a)" and wf: "wf_db d" and l: "later e = (\<lambda>x. x)"
  have no: "start_body e lease sid d \<noteq> Rollback (Inr x)" for x by (rule start_admits(2))
  have "fault e \<noteq> CommitRejected"
    using start_confirmed.refused_error [OF wf _ l, of lease sid] no s by (auto simp: start_step_confirmed)
  with s no show ?thesis
    by (cases "start_body e lease sid d"; cases "fault e") (auto simp: start_step_def Let_def split: if_splits)
qed

lemma started: "start_body e lease sid d = Commit d' (Inr a) \<Longrightarrow> find_task (lt_task_id lease) d = Some t \<Longrightarrow>
    find_task (lt_task_id lease) d' = Some t \<and> length (steps_of (lt_task_id lease) d') = length (steps_of (lt_task_id lease) d) \<and>
    at_task_id a = lt_task_id lease"
proof -
  assume c: "start_body e lease sid d = Commit d' (Inr a)" and t: "find_task (lt_task_id lease) d = Some t"
  from start_body_Commit [OF c] obtain s x where s: "find_step (lt_task_id lease) sid d = Some s" "a = attempt_of s x"
      and d': "d' = insert_event (clk e 2) (lt_task_id lease) STEP_STARTED
        (JObj [(''step_id'', JStr sid), (''step_index'', jnat (s_index s)),
          (''attempt'', jnat (Suc (s_attempt s))), (''worker_id'', JStr (lt_worker_id lease)),
          (''lease_version'', jnat (lt_lease_version lease))])
        (update_step (lt_task_id lease) sid (start_step_row (clk e 1) x) d)" by blast
  from find_step_mem [OF s(1)] steps_of_task s(2) t show ?thesis
    by (auto simp: d' view_simps start_step_row_def attempt_of_def)
qed

lemma finish_no_return: "finish_body e lease a out d \<noteq> Rollback (Inr x)"
  by (auto simp: finish_body_def finish_failed_def finish_succeeded_def Let_def
      split: sum.splits option.splits if_splits)

lemma finished_attempt: "finish_step e lease a out d = (d', Inr ()) \<Longrightarrow> wf_db d \<Longrightarrow> later e = (\<lambda>x. x) \<Longrightarrow>
    at_task_id a = lt_task_id lease \<Longrightarrow> finish_body e lease a out d = Commit d' (Inr ())"
proof -
  assume s: "finish_step e lease a out d = (d', Inr ())" and wf: "wf_db d" and l: "later e = (\<lambda>x. x)"
    and a: "at_task_id a = lt_task_id lease"
  have "a\<lparr>at_task_id := lt_task_id lease\<rparr> = a" using a by (cases a) simp
  then have own: "finish_own lease a out e d = finish_body e lease a out d" by (simp add: finish_own_def)
  have "fault e \<noteq> CommitRejected"
    using finish_confirmed.refused_error [OF wf _ l, of lease a out] finish_no_return s own
    by (auto simp: finish_confirmed [OF a])
  with s finish_no_return [of e lease a out d "()"] show ?thesis
    by (cases "finish_body e lease a out d"; cases "fault e") (auto simp: finish_step_def Let_def split: if_splits)
qed

definition turns_left :: "string \<Rightarrow> db \<Rightarrow> nat" where
  "turns_left i d =
     (case find_task i d of
        None \<Rightarrow> 1
      | Some t \<Rightarrow> if t_status t = StatusRunning then Suc (length (steps_of i d) - t_current_step t) else 1)"

lemma finish_shortens:
  assumes c: "finish_body e lease a out d = Commit d' r" and t: "find_task (lt_task_id lease) d = Some t"
    and run: "t_status t = StatusRunning" "t_current_step t < length (steps_of (lt_task_id lease) d)"
  shows "turns_left (lt_task_id lease) d' < turns_left (lt_task_id lease) d"
proof -
  let ?i = "lt_task_id lease"
  from finish_body_Commit [OF c] t obtain s where s: "find_step ?i (at_step_id a) d = Some s"
    and b: "(so_error (limit_outcome out) \<noteq> [] \<and>
        finish_failed e lease (a\<lparr>at_max_attempts := s_max_attempts s\<rparr>) (limit_outcome out) d = Commit d' r) \<or>
       (so_error (limit_outcome out) = [] \<and>
        finish_succeeded e lease (a\<lparr>at_max_attempts := s_max_attempts s\<rparr>) (limit_outcome out) (s_index s) d
          = Commit d' r)" by auto
  have ix: "s_index s = t_current_step t"
    using c t s by (auto simp: finish_body_def lock_task_Inr split: sum.splits option.splits if_splits)
  from b show ?thesis
  proof (elim disjE conjE)
    assume "finish_failed e lease (a\<lparr>at_max_attempts := s_max_attempts s\<rparr>) (limit_outcome out) d = Commit d' r"
    from finish_failed_rows(3) [OF this t] run t show ?thesis
      by (auto simp: turns_left_def leave_running_def)
  next
    assume f: "finish_succeeded e lease (a\<lparr>at_max_attempts := s_max_attempts s\<rparr>) (limit_outcome out) (s_index s) d
          = Commit d' r"
    then obtain v where "raw_val (so_output (limit_outcome out)) = Some v"
      by (auto simp: finish_succeeded_def json_valid_def split: if_splits)
    from finish_succeeded_rows(2,3) [OF f t this] run t ix show ?thesis
      by (auto simp: turns_left_def split: if_splits)
  qed
qed

lemma loaded_now: "load_claimed e i d = Inr ld \<Longrightarrow> later e = (\<lambda>x. x) \<Longrightarrow>
    find_task i d = Some (ld_task ld) \<and> ld_steps ld = sort_key s_index (steps_of i d)"
  by (auto simp: load_claimed_def load_task_def split: if_splits option.splits)

lemma approval_stops: "snd (approval_turn lease tn sid d) \<noteq> Continue"
  by (auto simp: approval_turn_def Let_def split: prod.splits)

lemma finish_continues: "finish_turn lease tn a res d = (d', Continue) \<Longrightarrow>
    finish_step (tn_finish tn) lease a (outcome_of (tn_transport tn) res) d = (d', Inr ())"
  by (auto simp: finish_turn_def split: prod.splits sum.splits if_splits)

lemma step_continues: "step_turn url lease tn sid d = (d', Continue) \<Longrightarrow> tn_others tn = (\<lambda>_ x. x) \<Longrightarrow>
    \<exists>d1 a out. start_step (tn_step tn) lease sid d = (d1, Inr a) \<and> finish_step (tn_finish tn) lease a out d1 = (d', Inr ())"
  by (auto simp: step_turn_def Let_def dest!: finish_continues split: prod.splits sum.splits if_splits)

lemma turn_continues:
  assumes "execute_turn url lease tn d = (d', Continue)" "wf_db d" "undisturbed tn"
  shows "wf_db d' \<and> turns_left (lt_task_id lease) d' < turns_left (lt_task_id lease) d"
proof -
  let ?i = "lt_task_id lease"
  from assms(3) have u: "tn_others tn = (\<lambda>_ x. x)" "later (tn_load tn) = (\<lambda>x. x)"
      "later (tn_step tn) = (\<lambda>x. x)" "later (tn_finish tn) = (\<lambda>x. x)" by (auto simp: undisturbed_def)
  from assms(1) u obtain ld where ld: "load_claimed (tn_load tn) ?i d = Inr ld" "t_status (ld_task ld) = StatusRunning"
      "t_current_step (ld_task ld) < length (ld_steps ld)"
    by (auto simp: execute_turn_def Let_def split: if_splits sum.splits)
  let ?sid = "s_id (ld_steps ld ! t_current_step (ld_task ld))"
  have "step_turn url lease tn ?sid d = (d', Continue)"
    using assms(1) ld u approval_stops [of lease tn ?sid d]
    by (auto simp: execute_turn_def Let_def split: if_splits)
  from step_continues [OF this u(1)] obtain d1 a out where
      s: "start_step (tn_step tn) lease ?sid d = (d1, Inr a)" and f: "finish_step (tn_finish tn) lease a out d1 = (d', Inr ())"
    by blast
  have t: "find_task ?i d = Some (ld_task ld)" "length (ld_steps ld) = length (steps_of ?i d)"
    using loaded_now [OF ld(1) u(2)] by simp_all
  have wf1: "wf_db d1" using perform_wf_simps(1) [OF assms(2), of "tn_step tn" lease ?sid] s by simp
  have st: "find_task ?i d1 = Some (ld_task ld)" "length (steps_of ?i d1) = length (steps_of ?i d)" "at_task_id a = ?i"
    using started [OF start_attempt [OF s assms(2) u(3)] t(1)] by simp_all
  have "turns_left ?i d1 = turns_left ?i d" using st t by (simp add: turns_left_def)
  moreover have "turns_left ?i d' < turns_left ?i d1"
    using finish_shortens [OF finished_attempt [OF f wf1 u(4) st(3)] st(1)] ld t(2) st(2) by simp
  moreover have "wf_db d'" using perform_wf_simps(2) [OF wf1, of "tn_finish tn" lease a out] f by simp
  ultimately show ?thesis by simp
qed

lemma turn_stops: "execute_turn url lease tn d = (d', Stop why) \<Longrightarrow> why \<noteq> OutOfTurns"
  by (auto simp: execute_turn_def approval_turn_def step_turn_def finish_turn_def Let_def
      split: prod.splits sum.splits if_splits)

lemma loop_ends:
  assumes "wf_db d" "list_all undisturbed tns" "turns_left (lt_task_id lease) d \<le> length tns"
  shows "snd (execute_claim url lease tns d) \<noteq> OutOfTurns"
  using assms
proof (induction tns arbitrary: d)
  case Nil
  then show ?case by (auto simp: turns_left_def split: option.splits if_splits)
next
  case (Cons tn tns)
  obtain d' r where e: "execute_turn url lease tn d = (d', r)" by fastforce
  show ?case
  proof (cases r)
    case Continue
    with turn_continues [of url lease tn d d'] Cons e show ?thesis by simp
  next
    case (Stop why)
    with turn_stops e show ?thesis by simp
  qed
qed

text \<open>C23: The loop of a worker that is not disturbed ends by itself, whatever fails and however the
  executions end: a turn that goes on has brought the task to its next step or out of RUNNING, so
  one turn more than there are steps left is always enough.\<close>

theorem claim_loop_terminates:
  assumes "wf_db d" "list_all undisturbed tns" "turns_left (lt_task_id lease) d \<le> length tns"
  shows "snd (execute_claim url lease tns d) \<noteq> OutOfTurns"
  using assms by (rule loop_ends)

lemma claim_loop_terminates_witness: "snd (execute_claim [] tok [turn_at 200, turn_at 400, turn_at 600] (db_claimed ''echo'')) \<noteq> OutOfTurns"
proof -
  have "turns_left ''t'' (db_claimed ''echo'') = 3" by code_simp
  moreover have "list_all undisturbed [turn_at 200, turn_at 400, turn_at 600]"
    by (simp add: undisturbed_def turn_at_def env_at_def)
  ultimately show ?thesis
    using claim_loop_terminates [OF wf_scenario(2), of "[turn_at 200, turn_at 400, turn_at 600]" tok "[]"]
    by (simp add: tok_def del: execute_claim.simps)
qed

end
