(* ===== verification/Api.thy ===== *)
theory Api
  imports Executor Store_Create Store_Approval Store_Control
begin

text \<open>
  \<open>internal/api/handler.go\<close>: the decoding and the validation of requests, the handlers and the
  answers they give, over the interface \<open>taskStore\<close>.
\<close>

section \<open>Requests\<close>

definition max_document_bytes :: nat where
  "max_document_bytes = 1048576"

text \<open>
  The body of a request: its length, the first JSON document in it, whether only blanks follow,
  and of a value in it the length of its text and whether PostgreSQL reads this text (a raw message
  keeps the text it was decoded from).
\<close>

record request_body =
  rb_length :: nat
  rb_document :: "json option"
  rb_single :: bool
  rb_span :: "json \<Rightarrow> nat \<times> bool"

record step_request =
  sr_type :: string
  sr_input :: raw
  sr_timeout_seconds :: "int option"
  sr_max_attempts :: "int option"

record task_request =
  tr_tenant_id :: "string option"
  tr_run_at :: "json option"
  tr_task_timeout_seconds :: "int option"
  tr_steps :: "step_request list"

definition empty_step_request :: step_request where
  "empty_step_request =
     \<lparr>sr_type = [], sr_input = raw_nil, sr_timeout_seconds = None, sr_max_attempts = None\<rparr>"

section \<open>Decoding\<close>

text \<open>
  A decoder writes into the value that is there: a field that is missing or null (of a pointer:
  missing) stays. An array decodes into the elements the slice already has, which only shows
  when the key occurs twice, in different case.
\<close>

definition decode_step_fields ::
  "(json \<Rightarrow> nat \<times> bool) \<Rightarrow> step_request \<Rightarrow> (string \<times> json) list \<Rightarrow> step_request option" where
  "decode_step_fields span old kvs =
     (if \<not> known_fields [''type'', ''input'', ''timeout_seconds'', ''max_attempts''] kvs then None
      else case (decode_strings (matching ''type'' kvs) (sr_type old),
                 decode_ints (matching ''timeout_seconds'' kvs) (sr_timeout_seconds old),
                 decode_ints (matching ''max_attempts'' kvs) (sr_max_attempts old)) of
        (Some ty, Some ts, Some ma) \<Rightarrow>
          Some \<lparr>sr_type = ty,
            sr_input = (case raw_field ''input'' kvs of None \<Rightarrow> sr_input old
              | Some v \<Rightarrow> Raw (fst (span v)) (Some v) (snd (span v))),
            sr_timeout_seconds = ts, sr_max_attempts = ma\<rparr>
      | _ \<Rightarrow> None)"

fun decode_elements ::
  "(json \<Rightarrow> nat \<times> bool) \<Rightarrow> step_request list \<Rightarrow> json list \<Rightarrow> step_request list option" where
  "decode_elements span mem [] = Some []"
| "decode_elements span mem (v # vs) =
     (let old = (if mem = [] then empty_step_request else hd mem) in
      case Option.bind (object_fields v) (decode_step_fields span old) of
        None \<Rightarrow> None
      | Some s \<Rightarrow> map_option ((#) s) (decode_elements span (drop 1 mem) vs))"

fun decode_step_arrays ::
  "(json \<Rightarrow> nat \<times> bool) \<Rightarrow> json list \<Rightarrow> step_request list \<Rightarrow> nat \<Rightarrow> step_request list option" where
  "decode_step_arrays span [] mem n = Some (take n mem)"
| "decode_step_arrays span (JArr vs # rest) mem n =
     (case decode_elements span mem vs of
        None \<Rightarrow> None
      | Some new \<Rightarrow>
          (if new = [] then decode_step_arrays span rest [] 0
           else decode_step_arrays span rest (new @ drop (length new) mem) (length new)))"
| "decode_step_arrays span (JNull # rest) mem n = decode_step_arrays span rest [] 0"
| "decode_step_arrays span (_ # rest) mem n = None"

fun decode_pointers :: "json list \<Rightarrow> string option \<Rightarrow> string option option" where
  "decode_pointers [] p = Some p"
| "decode_pointers (JStr s # vs) p = decode_pointers vs (Some s)"
| "decode_pointers (JNull # vs) p = decode_pointers vs None"
| "decode_pointers (_ # vs) p = None"

definition decode_task_fields :: "(json \<Rightarrow> nat \<times> bool) \<Rightarrow> (string \<times> json) list \<Rightarrow> task_request option" where
  "decode_task_fields span kvs =
     (if \<not> known_fields [''tenant_id'', ''run_at'', ''task_timeout_seconds'', ''steps''] kvs then None
      else case (decode_pointers (matching ''tenant_id'' kvs) None,
                 int_pointer_field ''task_timeout_seconds'' kvs,
                 decode_step_arrays span (matching ''steps'' kvs) [] 0) of
        (Some tenant, Some ts, Some ss) \<Rightarrow>
          Some \<lparr>tr_tenant_id = tenant, tr_run_at = raw_field ''run_at'' kvs,
            tr_task_timeout_seconds = ts, tr_steps = ss\<rparr>
      | _ \<Rightarrow> None)"

text \<open>
  \<open>MaxBytesReader\<close>, \<open>Decode\<close> and \<open>ensureEOF\<close>: a body over the limit fails in one or the other.
\<close>

definition single_document :: "request_body \<Rightarrow> (string \<times> json) list option" where
  "single_document body =
     (if rb_length body > max_document_bytes \<or> \<not> rb_single body then None
      else Option.bind (rb_document body) object_fields)"

definition decode_task_request :: "request_body \<Rightarrow> task_request option" where
  "decode_task_request body = Option.bind (single_document body) (decode_task_fields (rb_span body))"

definition decode_step_id :: "request_body \<Rightarrow> string option" where
  "decode_step_id body =
     (case single_document body of
        None \<Rightarrow> None
      | Some kvs \<Rightarrow> if known_fields [''step_id''] kvs then string_field ''step_id'' kvs else None)"

section \<open>Validation\<close>

datatype step_problem =
    BadInput
  | BadTimeout
  | BadMaxAttempts
  | InputRefused input_error
  | ReferencesRefused ref_error

datatype definition_error = BadRunAt | BadStepCount | BadTaskTimeout | BadStep nat step_problem

fun validate_run_at :: "json option \<Rightarrow> definition_error + time option" where
  "validate_run_at None = Inr None"
| "validate_run_at (Some (JStr s)) =
     (case parse_rfc3339 s of None \<Rightarrow> Inl BadRunAt | Some t \<Rightarrow> Inr (Some t))"
| "validate_run_at (Some _) = Inl BadRunAt"

definition or_default :: "int option \<Rightarrow> int \<Rightarrow> int" where
  "or_default p fallback = (case p of None \<Rightarrow> fallback | Some n \<Rightarrow> n)"

definition validate_step :: "nat \<Rightarrow> step_request \<Rightarrow> step_problem + step_definition" where
  "validate_step index step =
     (if raw_len (sr_input step) = 0 \<or> raw_len (sr_input step) > max_document_bytes
         \<or> \<not> json_valid (sr_input step) then Inl BadInput
      else if or_default (sr_timeout_seconds step) 30 \<le> 0 then Inl BadTimeout
      else if or_default (sr_max_attempts step) 3 \<le> 0 then Inl BadMaxAttempts
      else case (if sr_type step \<noteq> step_type_approval
                 then validate_step_input (sr_type step) (sr_input step) else Inr ()) of
        Inl x \<Rightarrow> Inl (InputRefused x)
      | Inr _ \<Rightarrow>
          (case validate_input_references (sr_input step) (index > 0) of
             Inl x \<Rightarrow> Inl (ReferencesRefused x)
           | Inr _ \<Rightarrow> Inr
               \<lparr>sd_type = sr_type step, sd_input = sr_input step,
                sd_timeout_seconds = or_default (sr_timeout_seconds step) 30,
                sd_max_attempts = or_default (sr_max_attempts step) 3\<rparr>))"

fun validate_steps :: "nat \<Rightarrow> step_request list \<Rightarrow> definition_error + step_definition list" where
  "validate_steps index [] = Inr []"
| "validate_steps index (s # ss) =
     (case validate_step index s of
        Inl x \<Rightarrow> Inl (BadStep index x)
      | Inr sd \<Rightarrow>
          (case validate_steps (Suc index) ss of Inl x \<Rightarrow> Inl x | Inr sds \<Rightarrow> Inr (sd # sds)))"

definition validate_definition :: "task_request \<Rightarrow> definition_error + task_definition" where
  "validate_definition input =
     (case validate_run_at (tr_run_at input) of
        Inl x \<Rightarrow> Inl x
      | Inr run_at \<Rightarrow>
          (if tr_steps input = [] \<or> length (tr_steps input) > 100 then Inl BadStepCount
           else if or_default (tr_task_timeout_seconds input) 3600 \<le> 0 then Inl BadTaskTimeout
           else case validate_steps 0 (tr_steps input) of
             Inl x \<Rightarrow> Inl x
           | Inr sds \<Rightarrow> Inr
               \<lparr>td_tenant_id = tr_tenant_id input, td_run_at = run_at,
                td_timeout_seconds = or_default (tr_task_timeout_seconds input) 3600, td_steps = sds\<rparr>))"

section \<open>The interface and the handlers\<close>

record 's task_store =
  ts_create :: "task_definition \<Rightarrow> 's \<Rightarrow> 's \<times> (err + loaded_task)"
  ts_load :: "string \<Rightarrow> 's \<Rightarrow> err + loaded_task"
  ts_events :: "string \<Rightarrow> 's \<Rightarrow> err + event list"
  ts_cancel :: "string \<Rightarrow> 's \<Rightarrow> 's \<times> (err + cancel_result)"
  ts_decide :: "string \<Rightarrow> string \<Rightarrow> string \<Rightarrow> 's \<Rightarrow> 's \<times> (err + approval_result)"

datatype reply_body =
    TaskReply loaded_task
  | EventsReply "event list"
  | ApprovalReply approval_result
  | StatusReply string
  | InvalidRequest
  | Refused definition_error
  | ErrorReply string
  | NoBody

record response =
  rs_status :: nat
  rs_body :: reply_body

definition reply :: "nat \<Rightarrow> reply_body \<Rightarrow> response" where
  "reply status body = \<lparr>rs_status = status, rs_body = body\<rparr>"

definition handle_create_task :: "'s task_store \<Rightarrow> request_body \<Rightarrow> 's \<Rightarrow> 's \<times> response" where
  "handle_create_task svc body s =
     (case decode_task_request body of
        None \<Rightarrow> (s, reply 400 InvalidRequest)
      | Some input \<Rightarrow>
     (case validate_definition input of
        Inl x \<Rightarrow> (s, reply 400 (Refused x))
      | Inr td \<Rightarrow>
     (case ts_create svc td s of
        (s', Inl x) \<Rightarrow> (s', reply 500 (ErrorReply ''create task failed''))
      | (s', Inr ld) \<Rightarrow> (s', reply 201 (TaskReply ld)))))"

definition handle_get_task :: "'s task_store \<Rightarrow> string \<Rightarrow> 's \<Rightarrow> response" where
  "handle_get_task svc i s =
     (case ts_load svc i s of
        Inl x \<Rightarrow> (if x = ErrNotFound then reply 404 (ErrorReply ''task not found'')
                 else reply 500 (ErrorReply ''load task failed''))
      | Inr ld \<Rightarrow> reply 200 (TaskReply ld))"

definition handle_get_events :: "'s task_store \<Rightarrow> string \<Rightarrow> 's \<Rightarrow> response" where
  "handle_get_events svc i s =
     (case ts_events svc i s of
        Inl x \<Rightarrow> reply 500 (ErrorReply ''load task events failed'')
      | Inr evs \<Rightarrow> reply 200 (EventsReply evs))"

definition handle_cancel_task :: "'s task_store \<Rightarrow> string \<Rightarrow> 's \<Rightarrow> 's \<times> response" where
  "handle_cancel_task svc i s =
     (case ts_cancel svc i s of
        (s', Inl x) \<Rightarrow>
          (s', if x = ErrNotFound then reply 404 (ErrorReply ''task not found'')
               else if x = ErrConflict then reply 409 (ErrorReply ''task is already terminal'')
               else reply 500 (ErrorReply ''cancel task failed''))
      | (s', Inr CancellationRequested) \<Rightarrow> (s', reply 202 (StatusReply ''cancellation_requested''))
      | (s', Inr CancelledSynchronously) \<Rightarrow> (s', reply 200 (StatusReply ''cancelled'')))"

definition handle_decide :: "'s task_store \<Rightarrow> string \<Rightarrow> request_body \<Rightarrow> string \<Rightarrow> 's \<Rightarrow> 's \<times> response" where
  "handle_decide svc i body decision s =
     (case decode_step_id body of
        None \<Rightarrow> (s, reply 400 InvalidRequest)
      | Some sid \<Rightarrow>
          (if trim_space sid = [] \<or> sid \<noteq> trim_space sid
           then (s, reply 400 (ErrorReply ''step_id is required''))
           else case ts_decide svc i sid decision s of
             (s', Inl x) \<Rightarrow>
               (s', if x = ErrNotFound then reply 404 (ErrorReply ''task or step not found'')
                    else if x = ErrConflict
                    then reply 409 (ErrorReply ''approval is not current or conflicts with a saved decision'')
                    else reply 500 (ErrorReply ''decide approval failed''))
           | (s', Inr result) \<Rightarrow> (s', reply 200 (ApprovalReply result))))"

text \<open>The routes \<open>New\<close> registers.\<close>

datatype request =
    PostTask request_body
  | GetTask string
  | GetEvents string
  | PostCancel string
  | PostApprove string request_body
  | PostReject string request_body
  | GetHealth

fun serve :: "'s task_store \<Rightarrow> request \<Rightarrow> 's \<Rightarrow> 's \<times> response" where
  "serve svc (PostTask body) s = handle_create_task svc body s"
| "serve svc (GetTask i) s = (s, handle_get_task svc i s)"
| "serve svc (GetEvents i) s = (s, handle_get_events svc i s)"
| "serve svc (PostCancel i) s = handle_cancel_task svc i s"
| "serve svc (PostApprove i body) s = handle_decide svc i body ''approved'' s"
| "serve svc (PostReject i body) s = handle_decide svc i body ''rejected'' s"
| "serve svc GetHealth s = (s, reply 204 NoBody)"

section \<open>What the handlers rely on\<close>

text \<open>
  An operation that reports an error has changed nothing, a created task can be loaded, and a
  task that cannot be loaded can be neither cancelled nor decided on.
\<close>

locale task_service =
  fixes svc :: "'s task_store"
  assumes refused_create: "ts_create svc td s = (s', Inl x) \<Longrightarrow> s' = s"
    and refused_cancel: "ts_cancel svc i s = (s', Inl x) \<Longrightarrow> s' = s"
    and refused_decide: "ts_decide svc i j y s = (s', Inl x) \<Longrightarrow> s' = s"
    and created_loads: "ts_create svc td s = (s', Inr ld) \<Longrightarrow> ts_load svc (t_id (ld_task ld)) s' = Inr ld"
    and unknown_cancel: "ts_load svc i s = Inl ErrNotFound \<Longrightarrow> snd (ts_cancel svc i s) = Inl ErrNotFound"
    and unknown_decide: "ts_load svc i s = Inl ErrNotFound \<Longrightarrow> y = ''approved'' \<or> y = ''rejected'' \<Longrightarrow>
      snd (ts_decide svc i j y s) = Inl ErrNotFound"
begin

lemma error_changes_nothing: "serve svc rq s = (s', rs) \<Longrightarrow> 400 \<le> rs_status rs \<Longrightarrow> s' = s"
  by (cases rq) (auto simp: handle_create_task_def handle_cancel_task_def handle_decide_def reply_def
      dest: refused_create refused_cancel refused_decide
      split: option.splits sum.splits prod.splits cancel_result.splits if_splits)

lemma created_is_served: "serve svc (PostTask body) s = (s', rs) \<Longrightarrow> rs_body rs = TaskReply ld \<Longrightarrow>
    rs_status rs = 201 \<and> serve svc (GetTask (t_id (ld_task ld))) s' = (s', reply 200 (TaskReply ld))"
  by (auto simp: handle_create_task_def handle_get_task_def reply_def dest!: created_loads
      split: option.splits sum.splits prod.splits)

lemma unknown_task: "serve svc (GetTask i) s = (s, rs) \<Longrightarrow> rs_status rs = 404 \<Longrightarrow>
    rs_status (snd (serve svc (PostCancel i) s)) = 404 \<and>
    rs_status (snd (serve svc (PostApprove i body) s)) \<in> {400, 404} \<and>
    rs_status (snd (serve svc (PostReject i body) s)) \<in> {400, 404}"
proof -
  assume "serve svc (GetTask i) s = (s, rs)" "rs_status rs = 404"
  then have none: "ts_load svc i s = Inl ErrNotFound"
    by (auto simp: handle_get_task_def reply_def split: sum.splits if_splits)
  obtain s1 where c: "ts_cancel svc i s = (s1, Inl ErrNotFound)"
    using unknown_cancel [OF none] by (cases "ts_cancel svc i s") simp
  have d: "\<exists>s1. ts_decide svc i j y s = (s1, Inl ErrNotFound)" if "y = ''approved'' \<or> y = ''rejected''" for j y
    using unknown_decide [OF none that, of j] by (metis prod.collapse)
  have "rs_status (snd (handle_decide svc i body y s)) \<in> {400, 404}" if y: "y = ''approved'' \<or> y = ''rejected''" for y
  proof (cases "decode_step_id body")
    case (Some sid)
    from d [OF y, of sid] obtain s1 where "ts_decide svc i sid y s = (s1, Inl ErrNotFound)" by blast
    with Some show ?thesis by (simp add: handle_decide_def reply_def)
  qed (simp add: handle_decide_def reply_def)
  with c show ?thesis by (simp add: handle_cancel_task_def reply_def)
qed

end

section \<open>The store behind the interface\<close>

text \<open>
  The store in an environment: \<open>LoadTask\<close> may see a later database in its second query, and
  every query may fail.
\<close>

definition database_store :: "env \<Rightarrow> (nat \<Rightarrow> err + string) \<Rightarrow> db task_store" where
  "database_store e new_id =
     \<lparr>ts_create = create_task e new_id,
      ts_load = (\<lambda>i d. if fault e = StatementFails then Inl ErrDatabase else load_task d (later e d) i),
      ts_events = (\<lambda>i d. if fault e = StatementFails then Inl ErrDatabase else Inr (load_events d i)),
      ts_cancel = cancel_task e,
      ts_decide = decide_approval e\<rparr>"

text \<open>
  An environment in which no one else acts between the two steps of an operation and no answer of
  a commit is lost; statements and commits may still fail.
\<close>

definition calm :: "env \<Rightarrow> env" where
  "calm e = e\<lparr>fault := (if fault e = CommitLost then NoFault else fault e), later := (\<lambda>d. d), later_fails := False\<rparr>"

lemma calm_simps [simp]: "fault (calm e) \<noteq> CommitLost" "fault e = NoFault \<Longrightarrow> fault (calm e) = NoFault"
    "later (calm e) = (\<lambda>d. d)" "\<not> later_fails (calm e)" "clk (calm e) = clk e" "row_locked (calm e) = row_locked e"
  by (simp_all add: calm_def)

lemma calm_tx: "run_tx (calm e) d x = (d', Inl y) \<Longrightarrow> d' = d \<or> (\<exists>d1. x = Commit d1 (Inl y))"
  using calm_simps(1) [of e] by (cases x; cases "fault (calm e)") (auto split: if_splits)

lemma calm_fact_check: "commit_with_fact_check (calm e) d c x = (d', Inl y) \<Longrightarrow> d' = d \<or> (\<exists>d1. x = Commit d1 (Inl y))"
  using calm_simps(1) [of e] by (cases x; cases "fault (calm e)") (auto split: if_splits)

lemma create_calm: "create_body e tid new_id td d = Commit d' r \<Longrightarrow> r = Inr tid \<and> (\<exists>ld. load_task d' d' tid = Inr ld)"
proof -
  assume "create_body e tid new_id td d = Commit d' r"
  from create_body_Commit [OF this] have "find_task tid d' = Some (new_task e tid td)" "r = Inr tid"
    by (auto simp: find_task_def row_at_append row_at_single new_task_def split: option.splits)
  then show ?thesis by (simp add: load_task_def)
qed

lemma create_no_return: "create_body e tid new_id td d \<noteq> Rollback (Inr x)"
  by (auto simp: create_body_def Let_def split: sum.splits)

lemma calm_create: "create_task (calm e) new_id td d = (d', Inl x) \<Longrightarrow> d' = d"
proof -
  assume c: "create_task (calm e) new_id td d = (d', Inl x)"
  show ?thesis
  proof (cases "new_id 0")
    case (Inr tid)
    show ?thesis
    proof (cases "run_tx (calm e) d (create_body (calm e) tid new_id td d)")
      case (Pair d1 r)
      show ?thesis
      proof (cases r)
        case (Inl y)
        with Pair Inr c calm_tx [of e d "create_body (calm e) tid new_id td d" d1 y] show ?thesis
          by (auto simp: create_task_def dest: create_calm)
      next
        case r: (Inr y)
        with Pair create_no_return have "create_body (calm e) tid new_id td d = Commit d1 (Inr y)"
          by (cases "create_body (calm e) tid new_id td d") (auto split: if_splits fault.splits)
        from create_calm [OF this] c Inr Pair r show ?thesis by (auto simp: create_task_def)
      qed
    qed
  qed (use c in \<open>simp add: create_task_def\<close>)
qed

lemma calm_created: "create_task (calm e) new_id td d = (d', Inr ld) \<Longrightarrow>
    fault (calm e) \<noteq> StatementFails \<and> load_task d' d' (t_id (ld_task ld)) = Inr ld"
proof -
  assume c: "create_task (calm e) new_id td d = (d', Inr ld)"
  then obtain tid where tid: "new_id 0 = Inr tid" by (auto simp: create_task_def split: sum.splits)
  obtain d1 r where run: "run_tx (calm e) d (create_body (calm e) tid new_id td d) = (d1, r)" by fastforce
  from c tid run obtain y where y: "r = Inr y" "d1 = d'" "load_task d' d' tid = Inr ld"
    by (auto simp: create_task_def split: sum.splits)
  have "fault (calm e) \<noteq> StatementFails"
    using run y(1) by (cases "create_body (calm e) tid new_id td d") auto
  moreover have "t_id (ld_task ld) = tid"
    using y(3) by (auto simp: load_task_def dest: find_task_id split: option.splits)
  ultimately show ?thesis using y(3) by simp
qed

lemma unknown_row: "ts_load (database_store e new_id) i s = Inl ErrNotFound \<Longrightarrow>
    find_task i s = None \<and> fault e \<noteq> StatementFails"
  by (simp add: database_store_def load_task_def split: if_splits option.splits)

interpretation database: task_service "database_store (calm e) new_id" for e new_id
proof
  fix td :: task_definition and s s' :: db and x
  assume "ts_create (database_store (calm e) new_id) td s = (s', Inl x)"
  then show "s' = s" by (auto simp: database_store_def dest: calm_create)
next
  fix i :: string and s s' :: db and x
  assume "ts_cancel (database_store (calm e) new_id) i s = (s', Inl x)"
  then have "run_tx (calm e) s (cancel_body (calm e) i s) = (s', Inl x)"
    by (simp add: database_store_def cancel_task_def)
  moreover have "cancel_body (calm e) i s \<noteq> Commit d (Inl x)" for d
    by (auto simp: cancel_body_def split: sum.splits)
  ultimately show "s' = s" using calm_tx by blast
next
  fix i j y :: string and s s' :: db and x
  assume a: "ts_decide (database_store (calm e) new_id) i j y s = (s', Inl x)"
  have "decide_body (calm e) i j y s \<noteq> Commit d (Inl x)" for d
    by (auto simp: decide_body_def approve_body_def reject_body_def Let_def split: sum.splits option.splits)
  with a show "s' = s"
    using calm_fact_check [of e s "decision_persisted i j y" "decide_body (calm e) i j y s" s' x]
    by (auto simp: database_store_def decide_approval_def split: if_splits)
next
  fix td :: task_definition and s s' :: db and ld
  assume "ts_create (database_store (calm e) new_id) td s = (s', Inr ld)"
  then show "ts_load (database_store (calm e) new_id) (t_id (ld_task ld)) s' = Inr ld"
    using calm_created [of e new_id td s s' ld] by (simp add: database_store_def)
next
  fix i :: string and s :: db
  assume "ts_load (database_store (calm e) new_id) i s = Inl ErrNotFound"
  from unknown_row [OF this] show "snd (ts_cancel (database_store (calm e) new_id) i s) = Inl ErrNotFound"
    by (simp add: database_store_def cancel_task_def cancel_body_def lock_task_def)
next
  fix i j y :: string and s :: db
  assume "ts_load (database_store (calm e) new_id) i s = Inl ErrNotFound" and y: "y = ''approved'' \<or> y = ''rejected''"
  from unknown_row [OF this(1)] have "decide_body (calm e) i j y s = Rollback (Inl ErrNotFound)"
      "fault (calm e) \<noteq> StatementFails"
    by (simp_all add: decide_body_def lock_task_def)
  with y show "snd (ts_decide (database_store (calm e) new_id) i j y s) = Inl ErrNotFound"
    unfolding database_store_def task_store.simps decide_approval_def by (elim disjE) simp_all
qed

end
