(* ===== verification/Api_Theorems.thy ===== *)
theory Api_Theorems
  imports Api Store_Operations
begin

text \<open>
  What the clients of the HTTP API see: the definitions it accepts, the status of each answer,
  and what an answer with an error leaves in the database.
\<close>

section \<open>Accepted definitions\<close>

definition valid_step_definition :: "nat \<Rightarrow> step_definition \<Rightarrow> bool" where
  "valid_step_definition i sd \<longleftrightarrow>
     json_valid (sd_input sd) \<and> raw_len (sd_input sd) \<le> max_document_bytes \<and>
     0 < sd_timeout_seconds sd \<and> int64 (sd_timeout_seconds sd) \<and>
     0 < sd_max_attempts sd \<and> int64 (sd_max_attempts sd) \<and>
     (sd_type sd = step_type_approval \<or> validate_step_input (sd_type sd) (sd_input sd) = Inr ()) \<and>
     validate_input_references (sd_input sd) (0 < i) = Inr ()"

definition int64_option :: "int option \<Rightarrow> bool" where
  "int64_option p = (case p of None \<Rightarrow> True | Some n \<Rightarrow> int64 n)"

lemma decode_ints_range: "decode_ints vs p = Some q \<Longrightarrow> int64_option p \<Longrightarrow> int64_option q"
proof (induction vs p rule: decode_ints.induct)
  case (2 n vs p)
  then show ?case by (auto simp: int64_option_def split: if_splits)
qed (auto simp: int64_option_def)

definition in_range :: "step_request \<Rightarrow> bool" where
  "in_range s \<longleftrightarrow> int64_option (sr_timeout_seconds s) \<and> int64_option (sr_max_attempts s)"

lemma empty_in_range [simp]: "in_range empty_step_request"
  by (simp add: in_range_def empty_step_request_def int64_option_def)

lemma step_fields_range: "decode_step_fields span old kvs = Some s \<Longrightarrow> in_range old \<Longrightarrow> in_range s"
  by (auto simp: decode_step_fields_def in_range_def dest: decode_ints_range split: if_splits option.splits)

lemma elements_range: "decode_elements span mem vs = Some ss \<Longrightarrow> list_all in_range mem \<Longrightarrow> list_all in_range ss"
proof (induction vs arbitrary: mem ss)
  case (Cons v vs)
  let ?old = "if mem = [] then empty_step_request else hd mem"
  from Cons.prems(1) obtain kvs s rest where parts: "decode_step_fields span ?old kvs = Some s"
      "decode_elements span (drop 1 mem) vs = Some rest" "ss = s # rest"
    by (auto simp: Let_def bind_eq_Some_conv split: option.splits)
  have "in_range ?old" "list_all in_range (drop 1 mem)" using Cons.prems(2) by (cases mem; simp)+
  with parts Cons.IH step_fields_range show ?case by auto
qed simp

lemma arrays_range: "decode_step_arrays span vs mem n = Some ss \<Longrightarrow> list_all in_range mem \<Longrightarrow> list_all in_range ss"
proof (induction span vs mem n rule: decode_step_arrays.induct)
  case (1 span mem n)
  then show ?case by (auto simp: list_all_iff dest: in_set_takeD)
next
  case (2 span vs rest mem n)
  then obtain new where new: "decode_elements span mem vs = Some new" by (auto split: option.splits)
  have "list_all in_range new" by (rule elements_range [OF new 2(4)])
  moreover have "list_all in_range (drop (length new) mem)" using 2(4) by (auto simp: list_all_iff dest: in_set_dropD)
  ultimately show ?case using 2 new by (auto split: if_splits)
qed (auto split: if_splits)

lemma request_range: "decode_task_request b = Some r \<Longrightarrow>
    list_all in_range (tr_steps r) \<and> int64_option (tr_task_timeout_seconds r)"
  by (auto simp: decode_task_request_def decode_task_fields_def bind_eq_Some_conv int_pointer_field_def
      int64_option_def [of None] dest: arrays_range decode_ints_range split: if_splits option.splits)

lemma or_default_range: "int64_option p \<Longrightarrow> int64 n \<Longrightarrow> int64 (or_default p n)"
  by (auto simp: int64_option_def or_default_def split: option.splits)

lemma valid_step: "validate_step i s = Inr sd \<Longrightarrow> in_range s \<Longrightarrow> valid_step_definition i sd"
proof -
  assume v: "validate_step i s = Inr sd" and r: "in_range s"
  have "int64 30" "int64 3" by (simp_all add: int64_def)
  with r have "int64 (or_default (sr_timeout_seconds s) 30)" "int64 (or_default (sr_max_attempts s) 3)"
    by (auto simp: in_range_def intro: or_default_range)
  with v show ?thesis
    by (auto simp: validate_step_def valid_step_definition_def split: if_splits sum.splits)
qed

lemma valid_steps: "validate_steps k ss = Inr sds \<Longrightarrow> list_all in_range ss \<Longrightarrow>
    length sds = length ss \<and> (\<forall>i < length sds. valid_step_definition (k + i) (sds ! i))"
proof (induction ss arbitrary: k sds)
  case (Cons s ss)
  from Cons.prems obtain sd rest where parts: "validate_step k s = Inr sd" "validate_steps (Suc k) ss = Inr rest"
      "sds = sd # rest" by (auto split: sum.splits)
  with Cons.IH [OF parts(2)] Cons.prems(2) valid_step [OF parts(1)] show ?case
    by (auto simp: nth_Cons split: nat.splits)
qed simp

lemma accepted_parts: "validate_definition r = Inr td \<Longrightarrow>
    validate_steps 0 (tr_steps r) = Inr (td_steps td) \<and> tr_steps r \<noteq> [] \<and> length (tr_steps r) \<le> 100 \<and>
    td_timeout_seconds td = or_default (tr_task_timeout_seconds r) 3600 \<and> 0 < td_timeout_seconds td \<and>
    td_tenant_id td = tr_tenant_id r \<and> validate_run_at (tr_run_at r) = Inr (td_run_at td)"
  by (auto simp: validate_definition_def split: sum.splits if_splits)

text \<open>C32: A definition the API accepts has 1 to 100 steps, positive limits (3600 s for the task, 30 s
  and 3 attempts for a step where none is given), an input for each step that is one JSON document
  of at most 1 MiB, passes the check of its type and, in the first step, does not refer to a
  previous output.\<close>

theorem accepted_definition_valid:
  assumes "decode_task_request b = Some r" "validate_definition r = Inr td"
  shows "0 < length (td_steps td) \<and> length (td_steps td) \<le> 100 \<and> length (td_steps td) = length (tr_steps r) \<and>
    0 < td_timeout_seconds td \<and> int64 (td_timeout_seconds td) \<and>
    (tr_task_timeout_seconds r = None \<longrightarrow> td_timeout_seconds td = 3600) \<and>
    (\<forall>i < length (td_steps td). valid_step_definition i (td_steps td ! i))"
proof -
  note parts = accepted_parts [OF assms(2)] and range = request_range [OF assms(1)]
  have "int64 3600" by (simp add: int64_def)
  with or_default_range range parts have "int64 (td_timeout_seconds td)" by simp
  with parts range valid_steps [of 0 "tr_steps r" "td_steps td"] show ?thesis
    by (auto simp: or_default_def)
qed

section \<open>Requests to evaluate\<close>

definition body_of :: "json \<Rightarrow> request_body" where
  "body_of j = \<lparr>rb_length = 1024, rb_document = Some j, rb_single = True,
     rb_span = (\<lambda>v. (length (marshal v), True))\<rparr>"

definition echo_step :: "json \<Rightarrow> (string \<times> json) list \<Rightarrow> json" where
  "echo_step v fs = JObj ([(''type'', JStr ''echo''), (''input'', echo_of v)] @ fs)"

text \<open>Two steps, the second with an attempt budget.\<close>

definition two_steps :: "int \<Rightarrow> json" where
  "two_steps n = JObj [(''steps'', JArr [echo_step (JNum 7 0) [], echo_step previous [(''max_attempts'', JNum n 0)]])]"

definition two_requests :: "int \<Rightarrow> task_request" where
  "two_requests n = \<lparr>tr_tenant_id = None, tr_run_at = None, tr_task_timeout_seconds = None,
     tr_steps = [\<lparr>sr_type = ''echo'', sr_input = raw_of (echo_of (JNum 7 0)), sr_timeout_seconds = None, sr_max_attempts = None\<rparr>,
       \<lparr>sr_type = ''echo'', sr_input = raw_of (echo_of previous), sr_timeout_seconds = None, sr_max_attempts = Some n\<rparr>]\<rparr>"

definition two_definitions :: "int \<Rightarrow> task_definition" where
  "two_definitions n = \<lparr>td_tenant_id = None, td_run_at = None, td_timeout_seconds = 3600,
     td_steps = [\<lparr>sd_type = ''echo'', sd_input = raw_of (echo_of (JNum 7 0)), sd_timeout_seconds = 30, sd_max_attempts = 3\<rparr>,
       \<lparr>sd_type = ''echo'', sd_input = raw_of (echo_of previous), sd_timeout_seconds = 30, sd_max_attempts = n\<rparr>]\<rparr>"

lemma two_lengths: "length (marshal (echo_of (JNum 7 0))) = 11" "length (marshal (echo_of previous)) = 36"
  by code_simp+

lemma folds: "fold_name ''type'' = ''TYPE''" "fold_name ''input'' = ''INPUT''"
    "fold_name ''timeout_seconds'' = ''TIMEOUT_SECONDS''" "fold_name ''max_attempts'' = ''MAX_ATTEMPTS''"
    "fold_name ''tenant_id'' = ''TENANT_ID''" "fold_name ''run_at'' = ''RUN_AT''"
    "fold_name ''task_timeout_seconds'' = ''TASK_TIMEOUT_SECONDS''" "fold_name ''steps'' = ''STEPS''"
    "fold_name ''step_id'' = ''STEP_ID''"
  by code_simp+

lemma decode_two: "int64 n \<Longrightarrow> decode_task_request (body_of (two_steps n)) = Some (two_requests n)"
  by (simp add: decode_task_request_def single_document_def body_of_def two_steps_def max_document_bytes_def
      decode_task_fields_def known_fields_def matching_def folds raw_field_def int_pointer_field_def echo_step_def
      decode_step_fields_def empty_step_request_def two_requests_def raw_of_def del: marshal.simps fold_name.simps)

lemma two_inputs:
  "validate_step_input ''echo'' (raw_of (echo_of (JNum 7 0))) = Inr ()"
  "validate_step_input ''echo'' (raw_of (echo_of previous)) = Inr ()"
  "validate_input_references (raw_of (echo_of (JNum 7 0))) False = Inr ()"
  "validate_input_references (raw_of (echo_of previous)) True = Inr ()"
  by code_simp+

lemma validate_two: "0 < n \<Longrightarrow> validate_definition (two_requests n) = Inr (two_definitions n)"
  by (simp add: validate_definition_def two_requests_def two_definitions_def or_default_def validate_step_def
      two_lengths two_inputs max_document_bytes_def step_type_approval_def del: marshal.simps)

lemma accepted_definition_valid_witness:
  "validate_definition (two_requests 2) = Inr (two_definitions 2) \<and> valid_step_definition 1 (td_steps (two_definitions 2) ! 1)"
  using accepted_definition_valid [of "body_of (two_steps 2)" "two_requests 2" "two_definitions 2"]
  by (auto simp: validate_two decode_two int64_def two_definitions_def)

section \<open>Creating a task\<close>

text \<open>The identifiers a creation of up to \<open>n\<close> steps draws are new.\<close>

definition fresh_ids :: "(nat \<Rightarrow> err + string) \<Rightarrow> nat \<Rightarrow> db \<Rightarrow> bool" where
  "fresh_ids new_id n d \<longleftrightarrow>
     (\<exists>tid sids. new_id 0 = Inr tid \<and> length sids = n \<and> (\<forall>k < n. new_id (Suc k) = Inr (sids ! k)) \<and>
       distinct sids \<and> find_task tid d = None \<and>
       (\<forall>sid \<in> set sids. sid \<notin> s_id ` set (steps d) \<and>
         tid @ '':'' @ sid \<notin> s_idempotency_key ` set (steps d)))"

text \<open>What the columns can hold: limits of 32 bits, texts without NUL, inputs PostgreSQL can read.\<close>

definition storable :: "task_definition \<Rightarrow> bool" where
  "storable td \<longleftrightarrow> positive_int4 (td_timeout_seconds td) \<and> nullable_text (td_tenant_id td) \<and>
     list_all (\<lambda>sd. positive_int4 (sd_max_attempts sd) \<and> positive_int4 (sd_timeout_seconds sd) \<and>
       to_jsonb (sd_input sd) \<noteq> None \<and> nul_free (sd_type sd)) (td_steps td)"

lemma insert_steps_ok:
  assumes "\<forall>k < length sds. new_id (Suc (i + k)) = Inr (sids ! (i + k))" "distinct sids" "i + length sds \<le> length sids"
    and "\<forall>sid \<in> set (drop i sids). sid \<notin> s_id ` set (steps d) \<and> tid @ '':'' @ sid \<notin> s_idempotency_key ` set (steps d)"
    and "\<forall>s \<in> set (steps_of tid d). s_index s < i"
    and "\<forall>sd \<in> set sds. positive_int4 (sd_max_attempts sd) \<and> positive_int4 (sd_timeout_seconds sd) \<and>
      to_jsonb (sd_input sd) \<noteq> None \<and> nul_free (sd_type sd)"
  shows "\<exists>d'. insert_steps new_id tid i sds d = Inr d'"
  using assms
proof (induction sds arbitrary: i d)
  case (Cons sd sds)
  let ?sid = "sids ! i"
  from Cons.prems(6) obtain input where input: "to_jsonb (sd_input sd) = Some input" by auto
  let ?s = "new_step tid ?sid i sd input"
  have drop: "drop i sids = ?sid # drop (Suc i) sids" using Cons.prems(3) by (simp add: Cons_nth_drop_Suc)
  have new: "new_id (Suc i) = Inr ?sid" using Cons.prems(1) by force
  have "insert_step ?s d = Inr (d\<lparr>steps := steps d @ [?s]\<rparr>)"
    using Cons.prems(4,5) drop by (force simp: insert_step_def new_step_def list_ex_iff)
  moreover have "\<exists>d'. insert_steps new_id tid (Suc i) sds (d\<lparr>steps := steps d @ [?s]\<rparr>) = Inr d'"
  proof (rule Cons.IH)
    have "?sid \<notin> set (drop (Suc i) sids)" using Cons.prems(2) drop by (metis distinct.simps(2) distinct_drop)
    then show "\<forall>sid \<in> set (drop (Suc i) sids). sid \<notin> s_id ` set (steps (d\<lparr>steps := steps d @ [?s]\<rparr>)) \<and>
        tid @ '':'' @ sid \<notin> s_idempotency_key ` set (steps (d\<lparr>steps := steps d @ [?s]\<rparr>))"
      using Cons.prems(4) drop by (auto simp: new_step_def)
    show "\<forall>k < length sds. new_id (Suc (Suc i + k)) = Inr (sids ! (Suc i + k))"
      using Cons.prems(1) by (metis add_Suc_shift length_Cons not_less_eq)
    show "\<forall>s \<in> set (steps_of tid (d\<lparr>steps := steps d @ [?s]\<rparr>)). s_index s < Suc i"
      using Cons.prems(5) by (auto simp: steps_of_def new_step_def)
  qed (use Cons.prems in auto)
  ultimately show ?case using new input Cons.prems(6) by simp
qed simp

lemma created_steps:
  assumes "wf_db d" "create_body e tid new_id td d = Commit d' r"
  shows "length (steps_of tid d') = length (td_steps td)"
proof -
  from create_body_Commit [OF assms(2)] obtain d2 where fresh: "find_task tid d = None"
      and ins: "insert_steps new_id tid 0 (td_steps td) (d\<lparr>tasks := tasks d @ [new_task e tid td]\<rparr>) = Inr d2"
      and rows: "steps d' = steps d @ step_rows new_id tid 0 (td_steps td)"
    by blast
  have "filter (\<lambda>s. s_task_id s = tid) (step_rows new_id tid 0 (td_steps td)) = step_rows new_id tid 0 (td_steps td)"
    using step_rows_task by (fastforce simp: filter_id_conv)
  moreover have "filter (\<lambda>s. s_task_id s = tid) (steps d) = []"
    using fresh_steps [OF assms(1) fresh] by (simp add: steps_of_def)
  ultimately show ?thesis using insert_steps_Inr [OF ins] rows by (simp add: steps_of_def)
qed

lemma step_rows_ids: "length (step_rows new_id tid i sds) = length sds \<Longrightarrow> k < length sds \<Longrightarrow>
    new_id (Suc (i + k)) = Inr (s_id (step_rows new_id tid i sds ! k))"
proof (induction sds arbitrary: i k)
  case (Cons sd sds)
  from Cons.prems(1) obtain sid where sid: "new_id (Suc i) = Inr sid" by (cases "new_id (Suc i)") auto
  show ?case
  proof (cases k)
    case 0
    with sid show ?thesis by (simp add: new_step_def)
  next
    case (Suc m)
    with Cons.IH [of "Suc i" m] Cons.prems sid show ?thesis by simp
  qed
qed simp

lemma create_body_ok:
  assumes "wf_db d" "new_id 0 = Inr tid" "fresh_ids new_id (length (td_steps td)) d" "storable td"
  shows "\<exists>d'. create_body e tid new_id td d = Commit d' (Inr tid)"
proof -
  let ?n = "length (td_steps td)"
  from assms(2,3) obtain sids where ids: "length sids = ?n" "\<forall>k < ?n. new_id (Suc k) = Inr (sids ! k)"
      "distinct sids" "find_task tid d = None" "\<forall>sid \<in> set sids. sid \<notin> s_id ` set (steps d) \<and>
         tid @ '':'' @ sid \<notin> s_idempotency_key ` set (steps d)"
    unfolding fresh_ids_def by auto
  let ?d = "d\<lparr>tasks := tasks d @ [new_task e tid td]\<rparr>"
  have none: "steps_of tid ?d = []"
    using fresh_steps [OF assms(1) ids(4)] by (simp add: steps_of_def)
  have task: "insert_task (new_task e tid td) d = Inr ?d"
    using ids(4) by (simp add: insert_task_Inr new_task_def)
  have "\<exists>d'. insert_steps new_id tid 0 (td_steps td) ?d = Inr d'"
    using ids assms(4) none
    by (intro insert_steps_ok [where sids = sids]) (auto simp: storable_def list_all_iff)
  with assms(4) task show ?thesis by (auto simp: create_body_def storable_def Let_def)
qed

lemma created_fresh:
  assumes "wf_db d" "new_id 0 = Inr tid" "create_body e tid new_id td d = Commit d' r"
  shows "fresh_ids new_id (length (td_steps td)) d \<and> storable td"
proof -
  let ?n = "length (td_steps td)" and ?rows = "step_rows new_id tid 0 (td_steps td)"
  from create_body_Commit [OF assms(3)] obtain d2 where c: "find_task tid d = None"
      "positive_int4 (td_timeout_seconds td)" "nullable_text (td_tenant_id td)"
      "insert_steps new_id tid 0 (td_steps td) (d\<lparr>tasks := tasks d @ [new_task e tid td]\<rparr>) = Inr d2"
    by blast
  note ins = insert_steps_Inr [OF c(4)]
  have rows: "steps d2 = steps d @ ?rows" and len: "length ?rows = ?n" using ins by simp_all
  have dist: "distinct (map s_id (steps d @ ?rows))" "distinct (map s_idempotency_key (steps d @ ?rows))"
    using insert_steps_distinct [OF c(4)] assms(1) rows by (simp_all add: wf_db_def)
  have key: "tid @ '':'' @ s_id s \<in> s_idempotency_key ` set ?rows" if "s \<in> set ?rows" for s
    using that step_rows_task [OF that] by (metis image_eqI)
  have apart: "s_id ` set ?rows \<inter> s_id ` set (steps d) = {}"
      "s_idempotency_key ` set ?rows \<inter> s_idempotency_key ` set (steps d) = {}"
    using dist by auto
  have "\<forall>sid \<in> s_id ` set ?rows. sid \<notin> s_id ` set (steps d) \<and> tid @ '':'' @ sid \<notin> s_idempotency_key ` set (steps d)"
  proof
    fix sid assume "sid \<in> s_id ` set ?rows"
    then obtain s where s: "s \<in> set ?rows" "sid = s_id s" by blast
    from apart key [OF s(1)] s show "sid \<notin> s_id ` set (steps d) \<and> tid @ '':'' @ sid \<notin> s_idempotency_key ` set (steps d)"
      by blast
  qed
  then have "fresh_ids new_id ?n d"
    unfolding fresh_ids_def using assms(2) c(1) dist(1) len step_rows_ids [of new_id tid 0 "td_steps td"]
    by (intro exI [of _ tid] exI [of _ "map s_id ?rows"]) simp
  with c ins show ?thesis by (simp add: storable_def list_all_iff)
qed

lemma create_body_ends:
  obtains (committed) d1 where "create_body e tid new_id td d = Commit d1 (Inr tid)"
  | (refused) x where "create_body e tid new_id td d = Rollback (Inl x)"
proof (cases "create_body e tid new_id td d")
  case (Rollback r)
  with create_no_return [of e tid new_id td d] refused show ?thesis by (cases r) auto
next
  case (Commit d1 r)
  with create_body_Commit [OF Commit] committed show ?thesis by simp
qed

text \<open>C17: Every answer to \<open>POST /tasks\<close>. A body that is not one document of the request's shape and a
  definition that is refused are answered 400 and change nothing. Otherwise the task is created
  exactly when the identifiers drawn for it and its steps are new, the database can store the
  definition (limits of 32 bits, no NUL in a text, inputs PostgreSQL reads) and neither a
  statement nor the COMMIT fails: then the task and its steps are added, and the answer is 201 with
  the task as it is read after the COMMIT, or 500 when the COMMIT's response is lost, this read
  fails or the task is gone by then. In all other cases the answer is 500 and nothing changes.\<close>

theorem create_answers:
  assumes "wf_db d"
  shows "case decode_task_request b of
      None \<Rightarrow> serve (database_store e new_id) (PostTask b) d = (d, reply 400 InvalidRequest)
    | Some r \<Rightarrow>
        (case validate_definition r of
           Inl x \<Rightarrow> serve (database_store e new_id) (PostTask b) d = (d, reply 400 (Refused x))
         | Inr td \<Rightarrow>
             (if fresh_ids new_id (length (td_steps td)) d \<and> storable td \<and>
                fault e \<noteq> StatementFails \<and> fault e \<noteq> CommitRejected
              then \<exists>tid d1. find_task tid d = None \<and> tasks d1 = tasks d @ [new_task e tid td] \<and>
                length (steps_of tid d1) = length (td_steps td) \<and>
                serve (database_store e new_id) (PostTask b) d = (d1,
                  if fault e = CommitLost \<or> later_fails e then reply 500 (ErrorReply ''create task failed'')
                  else (case find_task tid (later e d1) of
                      None \<Rightarrow> reply 500 (ErrorReply ''create task failed'')
                    | Some t \<Rightarrow> reply 201 (TaskReply \<lparr>ld_task = t,
                        ld_steps = sort_key s_index (steps_of tid (later e d1))\<rparr>)))
              else serve (database_store e new_id) (PostTask b) d =
                (d, reply 500 (ErrorReply ''create task failed''))))"
proof (cases "decode_task_request b")
  case (Some r)
  show ?thesis
  proof (cases "validate_definition r")
    case (Inr td)
    let ?ok = "fresh_ids new_id (length (td_steps td)) d \<and> storable td \<and>
      fault e \<noteq> StatementFails \<and> fault e \<noteq> CommitRejected"
    note defs = handle_create_task_def database_store_def create_task_def load_task_def
    show ?thesis
    proof (cases ?ok)
      case True
      then obtain tid where tid: "new_id 0 = Inr tid" by (auto simp: fresh_ids_def)
      from create_body_ok [of d new_id tid td e, OF assms tid] True obtain d1 where c: "create_body e tid new_id td d = Commit d1 (Inr tid)"
        by blast
      have "serve (database_store e new_id) (PostTask b) d = (d1,
          if fault e = CommitLost \<or> later_fails e then reply 500 (ErrorReply ''create task failed'')
          else (case find_task tid (later e d1) of
              None \<Rightarrow> reply 500 (ErrorReply ''create task failed'')
            | Some t \<Rightarrow> reply 201 (TaskReply \<lparr>ld_task = t,
                ld_steps = sort_key s_index (steps_of tid (later e d1))\<rparr>)))"
        using True Some Inr tid c by (cases "fault e") (simp_all add: defs split: option.split)
      with True Some Inr create_body_Commit [OF c] created_steps [OF assms c] show ?thesis
        by (simp del: serve.simps) blast
    next
      case False
      have "\<exists>x. create_task e new_id td d = (d, Inl x)"
      proof (cases "new_id 0")
        case (Inr tid)
        show ?thesis
        proof (cases rule: create_body_ends [of e tid new_id td d])
          case (committed d1)
          with created_fresh [OF assms Inr committed] False have "fault e = StatementFails \<or> fault e = CommitRejected"
            by blast
          with Inr committed show ?thesis by (auto simp: create_task_def)
        qed (simp add: create_task_def Inr)
      qed (simp add: create_task_def)
      then obtain x where "create_task e new_id td d = (d, Inl x)" by blast
      with Some Inr have "serve (database_store e new_id) (PostTask b) d = (d, reply 500 (ErrorReply ''create task failed''))"
        by (simp add: handle_create_task_def database_store_def)
      with Some Inr False show ?thesis by (simp del: serve.simps)
    qed
  qed (use Some in \<open>simp add: handle_create_task_def\<close>)
qed (simp add: handle_create_task_def)

definition unary_ids :: "nat \<Rightarrow> err + string" where
  "unary_ids k = Inr (replicate (Suc k) (CHR ''x''))"

lemma unary_fresh: "fresh_ids unary_ids n empty_db"
proof -
  let ?sids = "map (\<lambda>k. replicate (Suc (Suc k)) (CHR ''x'')) [0..<n]"
  have "distinct ?sids" by (auto simp: distinct_map inj_on_def replicate_eq_replicate)
  moreover have "\<forall>k < n. unary_ids (Suc k) = Inr (?sids ! k)" by (simp add: unary_ids_def)
  ultimately show ?thesis
    unfolding fresh_ids_def
    by (intro exI [of _ "replicate 1 (CHR ''x'')"] exI [of _ ?sids])
      (auto simp: unary_ids_def empty_db_def find_task_def row_at_def)
qed

text \<open>A tenant with a NUL, which the API accepts and the database refuses.\<close>

definition nul_tenant :: json where
  "nul_tenant = JObj [(''tenant_id'', JStr [CHR 0x00]), (''steps'', JArr [echo_step (JNum 7 0) [], echo_step previous [(''max_attempts'', JNum 2 0)]])]"

lemma decode_nul: "decode_task_request (body_of nul_tenant) = Some (two_requests 2\<lparr>tr_tenant_id := Some [CHR 0x00]\<rparr>)"
  by (simp add: decode_task_request_def single_document_def body_of_def nul_tenant_def max_document_bytes_def
      decode_task_fields_def known_fields_def matching_def folds raw_field_def int_pointer_field_def echo_step_def int64_def
      decode_step_fields_def empty_step_request_def two_requests_def raw_of_def del: marshal.simps fold_name.simps)

lemma validate_nul: "validate_definition (two_requests 2\<lparr>tr_tenant_id := Some [CHR 0x00]\<rparr>) =
    Inr (two_definitions 2\<lparr>td_tenant_id := Some [CHR 0x00]\<rparr>)"
  by (simp add: validate_definition_def two_requests_def two_definitions_def or_default_def validate_step_def
      two_lengths two_inputs max_document_bytes_def step_type_approval_def del: marshal.simps)

lemma two_storable: "storable (two_definitions 2)" "\<not> storable (two_definitions 3000000000)"
    "\<not> storable (two_definitions 2\<lparr>td_tenant_id := Some [CHR 0x00]\<rparr>)"
proof -
  have "to_jsonb (raw_of (echo_of (JNum 7 0))) \<noteq> None" "to_jsonb (raw_of (echo_of previous)) \<noteq> None"
    by code_simp+
  then show "storable (two_definitions 2)"
    by (simp add: storable_def two_definitions_def positive_int4_def nullable_text_def nul_free_def)
qed (simp_all add: storable_def two_definitions_def positive_int4_def nullable_text_def nul_free_def)

lemma create_answers_witness:
  "serve (database_store (env_at 0) unary_ids) (PostTask (body_of (two_steps 3000000000))) empty_db =
     (empty_db, reply 500 (ErrorReply ''create task failed'')) \<and>
   serve (database_store (env_at 0) unary_ids) (PostTask (body_of nul_tenant)) empty_db =
     (empty_db, reply 500 (ErrorReply ''create task failed'')) \<and>
   (\<exists>tid d1 t ss. tasks d1 = [new_task (env_at 0) tid (two_definitions 2)] \<and>
     serve (database_store (env_at 0) unary_ids) (PostTask (body_of (two_steps 2))) empty_db =
     (d1, reply 201 (TaskReply \<lparr>ld_task = t, ld_steps = ss\<rparr>))) \<and>
   (\<exists>tid d1. tasks d1 = [new_task (env_at 0\<lparr>fault := CommitLost\<rparr>) tid (two_definitions 2)] \<and>
     serve (database_store (env_at 0\<lparr>fault := CommitLost\<rparr>) unary_ids) (PostTask (body_of (two_steps 2))) empty_db =
     (d1, reply 500 (ErrorReply ''create task failed'')))"
proof -
  have e: "fault (env_at 0) = NoFault" "\<not> later_fails (env_at 0)" "later (env_at 0) = (\<lambda>d. d)" "tasks empty_db = []"
    by (simp_all add: env_at_def empty_db_def)
  have one: "tasks d1 = [new_task e' tid td] \<Longrightarrow> find_task tid d1 = Some (new_task e' tid td)" for d1 e' tid td
    by (simp add: find_task_def row_at_def new_task_def)
  note posted = decode_two [of 2] validate_two [of 2] two_storable unary_fresh
  have "serve (database_store (env_at 0) unary_ids) (PostTask (body_of (two_steps 3000000000))) empty_db =
      (empty_db, reply 500 (ErrorReply ''create task failed''))"
    using create_answers [OF wf_empty, of "env_at 0" unary_ids "body_of (two_steps 3000000000)"]
      decode_two [of 3000000000] validate_two [of 3000000000] two_storable by (simp add: int64_def del: serve.simps)
  moreover have "serve (database_store (env_at 0) unary_ids) (PostTask (body_of nul_tenant)) empty_db =
      (empty_db, reply 500 (ErrorReply ''create task failed''))"
    using create_answers [OF wf_empty, of "env_at 0" unary_ids "body_of nul_tenant"] decode_nul validate_nul two_storable
    by (simp del: serve.simps)
  moreover have "\<exists>tid d1. tasks d1 = [new_task (env_at 0) tid (two_definitions 2)] \<and>
      serve (database_store (env_at 0) unary_ids) (PostTask (body_of (two_steps 2))) empty_db = (d1,
        case find_task tid d1 of
          None \<Rightarrow> reply 500 (ErrorReply ''create task failed'')
        | Some t \<Rightarrow> reply 201 (TaskReply \<lparr>ld_task = t, ld_steps = sort_key s_index (steps_of tid d1)\<rparr>))"
    using create_answers [OF wf_empty, of "env_at 0" unary_ids "body_of (two_steps 2)"] posted e
    by (simp add: int64_def del: serve.simps cong: option.case_cong) blast
  then obtain tid d1 where c: "tasks d1 = [new_task (env_at 0) tid (two_definitions 2)]"
      "serve (database_store (env_at 0) unary_ids) (PostTask (body_of (two_steps 2))) empty_db = (d1,
        case find_task tid d1 of
          None \<Rightarrow> reply 500 (ErrorReply ''create task failed'')
        | Some t \<Rightarrow> reply 201 (TaskReply \<lparr>ld_task = t, ld_steps = sort_key s_index (steps_of tid d1)\<rparr>))"
    by blast
  from c(2) have "serve (database_store (env_at 0) unary_ids) (PostTask (body_of (two_steps 2))) empty_db = (d1,
      reply 201 (TaskReply \<lparr>ld_task = new_task (env_at 0) tid (two_definitions 2), ld_steps = sort_key s_index (steps_of tid d1)\<rparr>))"
    by (simp add: one [OF c(1)] del: serve.simps)
  moreover have "\<exists>tid d1. tasks d1 = [new_task (env_at 0\<lparr>fault := CommitLost\<rparr>) tid (two_definitions 2)] \<and>
      serve (database_store (env_at 0\<lparr>fault := CommitLost\<rparr>) unary_ids) (PostTask (body_of (two_steps 2))) empty_db =
        (d1, reply 500 (ErrorReply ''create task failed''))"
    using create_answers [OF wf_empty, of "env_at 0\<lparr>fault := CommitLost\<rparr>" unary_ids "body_of (two_steps 2)"] posted e
    by (simp add: int64_def del: serve.simps) blast
  ultimately show ?thesis using c(1) by blast
qed

section \<open>Errors leave no trace\<close>

lemma fault_bodies:
  "create_body (e\<lparr>fault := f\<rparr>) tid new_id td d = create_body e tid new_id td d"
  "cancel_body (e\<lparr>fault := f\<rparr>) i d = cancel_body e i d"
  "decide_body (e\<lparr>fault := f\<rparr>) i sid y d = decide_body e i sid y d"
proof -
  obtain c l x r y where e: "e = \<lparr>clk = c, row_locked = l, fault = x, later = r, later_fails = y\<rparr>" by (cases e)
  show "create_body (e\<lparr>fault := f\<rparr>) tid new_id td d = create_body e tid new_id td d"
    unfolding e create_body_def new_task_def env.simps ..
  show "cancel_body (e\<lparr>fault := f\<rparr>) i d = cancel_body e i d"
    unfolding e cancel_body_def finish_controlled_task_def finish_controlled_step_def env.simps ..
  show "decide_body (e\<lparr>fault := f\<rparr>) i sid y d = decide_body e i sid y d" for y
    unfolding e decide_body_def approve_body_def reject_body_def env.simps ..
qed

lemma create_failed:
  assumes "create_task e new_id td d = (d', Inl x)"
  shows "d' = d \<or> (d' = fst (create_task (e\<lparr>fault := NoFault\<rparr>) new_id td d) \<and>
    (fault e = CommitLost \<or> later_fails e \<or>
      (\<exists>tid. find_task tid d = None \<and> find_task tid d' \<noteq> None \<and> find_task tid (later e d') = None)))"
proof (cases "new_id 0")
  case (Inr tid)
  show ?thesis
  proof (cases rule: create_body_ends [of e tid new_id td d])
    case (committed d1)
    from create_body_Commit [OF committed] have rows: "find_task tid d = None" "find_task tid d1 \<noteq> None"
      by (auto simp: find_task_def row_at_append row_at_single new_task_def split: option.splits)
    have "fst (create_task (e\<lparr>fault := NoFault\<rparr>) new_id td d) = d1"
      by (simp add: create_task_def Inr fault_bodies committed)
    with assms Inr committed rows show ?thesis
      by (cases "fault e") (auto simp: create_task_def load_task_def split: if_splits option.splits)
  qed (use assms Inr in \<open>auto simp: create_task_def split: if_splits\<close>)
qed (use assms in \<open>simp add: create_task_def\<close>)

lemma cancel_failed:
  assumes "cancel_task e i d = (d', Inl x)"
  shows "d' = d \<or> (x = ErrDatabase \<and> fault e = CommitLost \<and> d' = fst (cancel_task (e\<lparr>fault := NoFault\<rparr>) i d))"
proof -
  have "cancel_body e i d \<noteq> Commit d1 (Inl y)" for d1 y
    by (auto simp: cancel_body_def split: sum.splits)
  with assms show ?thesis
    by (cases "cancel_body e i d"; cases "fault e") (auto simp: cancel_task_def fault_bodies)
qed

lemma decide_failed:
  assumes "decide_approval e i j y d = (d', Inl x)"
  shows "d' = d \<or> (x = ErrDatabase \<and> fault e = CommitLost \<and> d' = fst (decide_approval (e\<lparr>fault := NoFault\<rparr>) i j y d))"
proof -
  have "decide_body e i j y d \<noteq> Commit d1 (Inl z)" for d1 z
    by (auto simp: decide_body_def approve_body_def reject_body_def Let_def split: sum.splits option.splits)
  with assms show ?thesis
    by (cases "decide_body e i j y d"; cases "fault e") (auto simp: decide_approval_def fault_bodies split: if_splits)
qed

lemma decision_failed:
  assumes "handle_decide (database_store e new_id) i b y d = (d', rs)" "400 \<le> rs_status rs"
  shows "d' = d \<or> (rs_status rs = 500 \<and> fault e = CommitLost \<and>
    d' = fst (handle_decide (database_store (e\<lparr>fault := NoFault\<rparr>) new_id) i b y d))"
proof (cases "\<exists>sid. decode_step_id b = Some sid \<and> trim_space sid \<noteq> [] \<and> sid = trim_space sid")
  case True
  then obtain sid where sid: "decode_step_id b = Some sid" "trim_space sid \<noteq> []" "trim_space sid = sid" by auto
  with assms obtain x where c: "decide_approval e i sid y d = (d', Inl x)" and rs: "x = ErrDatabase \<longrightarrow> rs_status rs = 500"
    by (auto simp: handle_decide_def database_store_def reply_def split: prod.splits sum.splits if_splits)
  have "fst (handle_decide (database_store e' new_id) i b y d) = fst (decide_approval e' i sid y d)" for e'
    using sid by (auto simp: handle_decide_def database_store_def split: prod.splits sum.splits)
  with decide_failed [OF c] rs show ?thesis by auto
next
  case False
  with assms(1) show ?thesis by (auto simp: handle_decide_def split: option.splits if_splits)
qed

text \<open>C31: An answer with an error leaves no trace, except a 500 that stands for an unknown outcome: when
  the status is 400 or more the database is as it was, or the status is 500, the response of the
  COMMIT was lost or the task just created could not be read back, and the database is exactly
  what the request leaves when nothing fails. Statements and commits may fail in any way.\<close>

theorem error_leaves_no_trace:
  assumes "serve (database_store e new_id) rq d = (d', rs)" "400 \<le> rs_status rs"
  shows "d' = d \<or>
    (rs_status rs = 500 \<and> d' = fst (serve (database_store (e\<lparr>fault := NoFault\<rparr>) new_id) rq d) \<and>
     (fault e = CommitLost \<or>
      (\<exists>b. rq = PostTask b) \<and> (later_fails e \<or>
        (\<exists>tid. find_task tid d = None \<and> find_task tid d' \<noteq> None \<and> find_task tid (later e d') = None))))"
proof (cases rq)
  case (PostTask b)
  show ?thesis
  proof (cases "decode_task_request b")
    case (Some r)
    show ?thesis
    proof (cases "validate_definition r")
      case (Inr td)
      with assms Some PostTask obtain x where c: "create_task e new_id td d = (d', Inl x)"
          and rs: "rs = reply 500 (ErrorReply ''create task failed'')"
        by (auto simp: handle_create_task_def database_store_def reply_def split: prod.splits sum.splits)
      have "fst (serve (database_store e' new_id) rq d) = fst (create_task e' new_id td d)" for e'
        using PostTask Some Inr by (simp add: handle_create_task_def database_store_def split: prod.splits sum.splits)
      with create_failed [OF c] rs PostTask show ?thesis by (auto simp: reply_def simp del: serve.simps)
    qed (use assms PostTask Some in \<open>simp add: handle_create_task_def\<close>)
  qed (use assms PostTask in \<open>simp add: handle_create_task_def\<close>)
next
  case (PostCancel i)
  from assms PostCancel obtain x where c: "cancel_task e i d = (d', Inl x)" and rs: "x = ErrDatabase \<longrightarrow> rs_status rs = 500"
    by (auto simp: handle_cancel_task_def database_store_def reply_def split: prod.splits sum.splits cancel_result.splits if_splits)
  have "fst (serve (database_store e' new_id) rq d) = fst (cancel_task e' i d)" for e'
    using PostCancel by (auto simp: handle_cancel_task_def database_store_def split: prod.splits sum.splits cancel_result.splits)
  with cancel_failed [OF c] rs show ?thesis by auto
next
  case (PostApprove i b)
  with decision_failed [of e new_id i b "''approved''" d d' rs] assms show ?thesis by auto
next
  case (PostReject i b)
  with decision_failed [of e new_id i b "''rejected''" d d' rs] assms show ?thesis by auto
qed (use assms in simp_all)

lemma error_leaves_no_trace_witness:
  "(\<exists>rs. serve (database_store (env_at 0\<lparr>fault := CommitRejected\<rparr>) ids) (PostCancel ''t'') db_waiting = (db_waiting, rs)) \<and>
   fst (serve (database_store (env_at 0\<lparr>fault := CommitLost\<rparr>) ids) (PostCancel ''t'') db_waiting) =
     fst (serve (database_store (env_at 0) ids) (PostCancel ''t'') db_waiting)"
proof -
  let ?s = "\<lambda>f. serve (database_store (env_at 0\<lparr>fault := f\<rparr>) ids) (PostCancel ''t'') db_waiting"
  have st: "rs_status (snd (?s CommitRejected)) = 500" "rs_status (snd (?s CommitLost)) = 500"
    "fst (?s CommitLost) \<noteq> db_waiting"
    by code_simp+
  have same: "env_at 0\<lparr>fault := CommitLost, fault := NoFault\<rparr> = env_at 0" "fault (env_at 0\<lparr>fault := CommitRejected\<rparr>) = CommitRejected"
    by (simp_all add: env_at_def)
  have "fst (?s CommitRejected) = db_waiting"
    using error_leaves_no_trace [of "env_at 0\<lparr>fault := CommitRejected\<rparr>" ids "PostCancel ''t''" db_waiting
        "fst (?s CommitRejected)" "snd (?s CommitRejected)"] st(1) same(2)
    by (simp del: serve.simps)
  moreover have "fst (?s CommitLost) = fst (serve (database_store (env_at 0) ids) (PostCancel ''t'') db_waiting)"
    using error_leaves_no_trace [of "env_at 0\<lparr>fault := CommitLost\<rparr>" ids "PostCancel ''t''" db_waiting
        "fst (?s CommitLost)" "snd (?s CommitLost)"] st(2,3) same(1)
    by (simp del: serve.simps)
  ultimately show ?thesis by (metis prod.collapse)
qed

text \<open>
  Where no response is lost and nobody interferes the store is a \<open>task_service\<close>: an error changes
  nothing at all, a task that was created is served, and a task that is not found can be neither
  cancelled nor decided on.
\<close>

lemma calm_error_changes_nothing:
  "serve (database_store (calm e) new_id) rq d = (d', rs) \<Longrightarrow> 400 \<le> rs_status rs \<Longrightarrow> d' = d"
  by (rule database.error_changes_nothing)

lemma created_task_served:
  assumes "serve (database_store (calm e) new_id) (PostTask b) d = (d', rs)" "rs_body rs = TaskReply ld"
  shows "rs_status rs = 201 \<and> serve (database_store (calm e) new_id) (GetTask (t_id (ld_task ld))) d' =
    (d', reply 200 (TaskReply ld))"
  using assms by (rule database.created_is_served)

lemma unknown_task_refused:
  assumes "serve (database_store (calm e) new_id) (GetTask i) d = (d, rs)" "rs_status rs = 404"
  shows "rs_status (snd (serve (database_store (calm e) new_id) (PostCancel i) d)) = 404 \<and>
    rs_status (snd (serve (database_store (calm e) new_id) (PostApprove i b) d)) \<in> {400, 404}"
  using database.unknown_task [OF assms] by blast

text \<open>The answers to \<open>POST /tasks/{id}/cancel\<close> by the status of the task: 404 when there is none, 202
  for a running one, 200 for a cancelled one and for those that are cancelled at once, 409 for the
  other terminal ones.\<close>

theorem cancel_answers:
  assumes "wf_db d" "fault e = NoFault"
  shows "rs_status (snd (serve (database_store (calm e) new_id) (PostCancel i) d)) =
    (case find_task i d of
       None \<Rightarrow> 404
     | Some t \<Rightarrow>
         (case t_status t of
            StatusRunning \<Rightarrow> 202
          | StatusSucceeded \<Rightarrow> 409
          | StatusFailed \<Rightarrow> 409
          | StatusTimedOut \<Rightarrow> 409
          | _ \<Rightarrow> 200))"
proof (cases "find_task i d")
  case None
  then have "cancel_task (calm e) i d = (d, Inl ErrNotFound)"
    using assms(2) by (simp add: cancel_task_def cancel_body_def lock_task_def)
  with None show ?thesis by (simp add: handle_cancel_task_def database_store_def reply_def)
next
  case (Some t)
  from cancel_by_status [OF assms(1) Some, of "calm e"] assms(2) Some show ?thesis
    by (cases "t_status t") (auto simp: handle_cancel_task_def database_store_def reply_def)
qed

lemma cancel_answers_witness:
  "rs_status (snd (serve (database_store (calm (env_at 400)) ids) (PostCancel ''t'') db_started)) = 202"
  using cancel_answers [OF wf_scenario(3), of "env_at 400" ids "''t''"]
  by (simp add: task_read claimed_row_def env_at_def del: serve.simps)

text \<open>The answers to a decision on an approval: 404 when the task or the step is unknown, 200 for
  the decision already saved and 409 for the opposite one, and without a saved decision 200 when
  the task waits for this approval, is not cancelled and has time left, 409 otherwise.\<close>

theorem decision_answers:
  assumes "fault e = NoFault" "decode_step_id b = Some sid" "sid \<noteq> []" "trim_space sid = sid"
  shows "rs_status (snd (serve (database_store (calm e) new_id) (PostApprove i b) d)) =
    (case (find_task i d, find_step i sid d) of
       (Some t, Some s) \<Rightarrow>
         (case s_approval_decision s of
            Some x \<Rightarrow> if x = ''approved'' then 200 else 409
          | None \<Rightarrow>
              (if t_status t = StatusWaitingApproval \<and> s_type s = step_type_approval \<and>
                 s_status s = StepWaitingApproval \<and> s_index s = t_current_step t \<and>
                 \<not> t_cancel_requested t \<and> \<not> overdue (clk e 0) t then 200 else 409))
     | _ \<Rightarrow> 404)"
proof -
  have "rs_status (snd (serve (database_store (calm e) new_id) (PostApprove i b) d)) =
      (case snd (decide_approval (calm e) i sid ''approved'' d) of
         Inl x \<Rightarrow> if x = ErrNotFound then 404 else if x = ErrConflict then 409 else 500
       | Inr r \<Rightarrow> 200)"
    using assms(2-4) by (auto simp: handle_decide_def database_store_def reply_def split: prod.splits sum.splits)
  moreover have "snd (decide_approval (calm e) i sid ''approved'' d) =
      (case decide_body (calm e) i sid ''approved'' d of Rollback r \<Rightarrow> r | Commit d' r \<Rightarrow> r)"
    using assms(1) by (cases "decide_body (calm e) i sid ''approved'' d") (auto simp: decide_approval_def)
  ultimately show ?thesis
    by (cases "find_task i d"; cases "find_step i sid d")
      (auto simp: decide_body_def lock_task_def approve_body_def Let_def overdue_def deadline_passed_def
        split: option.splits)
qed

lemma decision_body: "decode_step_id (body_of (JObj [(''step_id'', JStr ''a'')])) = Some ''a''" "trim_space ''a'' = ''a''"
proof -
  show "decode_step_id (body_of (JObj [(''step_id'', JStr ''a'')])) = Some ''a''"
    by (simp add: decode_step_id_def single_document_def body_of_def max_document_bytes_def known_fields_def
        string_field_def matching_def)
  show "trim_space ''a'' = ''a''" by code_simp
qed

lemma waiting_row: "map_option t_status (find_task ''t'' db_waiting) = Some StatusWaitingApproval"
    "map_option t_current_step (find_task ''t'' db_waiting) = Some 0"
    "map_option t_cancel_requested (find_task ''t'' db_waiting) = Some False"
    "map_option t_deadline_at (find_task ''t'' db_waiting) = Some (Some 60000106)"
    "find_step ''t'' ''a'' db_waiting = Some row_a_waiting"
  by code_simp+

lemma decision_answers_witness:
  "rs_status (snd (serve (database_store (calm (env_at 300)) ids)
    (PostApprove ''t'' (body_of (JObj [(''step_id'', JStr ''a'')]))) db_waiting)) = 200"
proof -
  obtain t where "find_task ''t'' db_waiting = Some t" "t_status t = StatusWaitingApproval" "t_current_step t = 0"
      "\<not> t_cancel_requested t" "t_deadline_at t = Some 60000106"
    using waiting_row by auto
  with decision_answers [OF _ decision_body(1) _ decision_body(2), of "env_at 300" ids "''t''" db_waiting] waiting_row(5)
  show ?thesis
    by (simp add: env_at_def row_a_waiting_def step_row_def step_type_approval_def overdue_def del: serve.simps)
qed

end
