(* ===== verification/Deployment.thy ===== *)
theory Deployment
  imports Scheduler Worker_Theorems Api_Theorems
begin

text \<open>
  The programs of a deployment on one database: the API, the workers with their monitors, the
  schedulers. Whatever they do is a run of the system of theory Store_System, so that its
  properties hold of them. Between the calls of one program the others act: what they do is again
  such a run.
\<close>

section \<open>Clients of the store\<close>

text \<open>
  \<open>f\<close> acts between the times \<open>a\<close> and \<open>b\<close> as a client of the store: only by valid operations, in
  the order of their clocks.
\<close>

definition store_client :: "store \<Rightarrow> time \<Rightarrow> time \<Rightarrow> (db \<Rightarrow> db) \<Rightarrow> bool" where
  "store_client st a b f \<longleftrightarrow>
     a \<le> b \<and> (\<forall>d now. now \<le> a \<longrightarrow> (\<exists>acts now'. run (sys_step st) (d, now) acts (f d, now') \<and> now' \<le> b))"

named_theorems client_intro

lemma client_run: "store_client st a b f \<Longrightarrow> now \<le> a \<Longrightarrow>
    \<exists>acts now'. run (sys_step st) (d, now) acts (f d, now') \<and> now' \<le> b"
  by (simp add: store_client_def)

lemma client_order: "store_client st a b f \<Longrightarrow> a \<le> b"
  by (simp add: store_client_def)

lemma client_idle [client_intro]: "a \<le> b \<Longrightarrow> store_client st a b (\<lambda>d. d)"
  unfolding store_client_def by (metis order_trans run.run_nil)

lemma clock_ok_range: "clock_ok a e \<Longrightarrow> a \<le> clk e 10"
  by (rule clock_ok_le)

lemma client_action: "clock_ok a (env_of x) \<Longrightarrow> clk (env_of x) 10 \<le> b \<Longrightarrow> valid_action x \<Longrightarrow>
    store_client st a b (perform st x)"
  unfolding store_client_def
proof (intro conjI allI impI)
  assume x: "clock_ok a (env_of x)" "clk (env_of x) 10 \<le> b" "valid_action x"
  then show "a \<le> b" using clock_ok_range [OF x(1)] by simp
  fix d now assume "now \<le> a"
  with x(1) have "clock_ok now (env_of x)" by (auto simp: clock_ok_def)
  with x(3) have "sys_step st x (d, now) (perform st x d, clk (env_of x) 10)" by (simp add: sys_step_iff)
  then have "run (sys_step st) (d, now) [x] (perform st x d, clk (env_of x) 10)"
    by (auto intro: run.intros)
  with x(2) show "\<exists>acts now'. run (sys_step st) (d, now) acts (perform st x d, now') \<and> now' \<le> b" by blast
qed

text \<open>What is done after a client may depend on what the client found.\<close>

lemma client_seq: "store_client st a m f \<Longrightarrow> (\<And>d. store_client st m b (g d)) \<Longrightarrow>
    store_client st a b (\<lambda>d. g d (f d))"
  unfolding store_client_def
proof (intro conjI allI impI)
  assume f: "a \<le> m \<and> (\<forall>d now. now \<le> a \<longrightarrow> (\<exists>acts now'. run (sys_step st) (d, now) acts (f d, now') \<and> now' \<le> m))"
    and g: "\<And>d. m \<le> b \<and> (\<forall>x now. now \<le> m \<longrightarrow> (\<exists>acts now'. run (sys_step st) (x, now) acts (g d x, now') \<and> now' \<le> b))"
  then show "a \<le> b" by (meson order_trans)
  fix d now assume "now \<le> a"
  with f obtain xs n1 where 1: "run (sys_step st) (d, now) xs (f d, n1)" "n1 \<le> m" by blast
  with g [of d] obtain ys n2 where "run (sys_step st) (f d, n1) ys (g d (f d), n2)" "n2 \<le> b" by blast
  with run_append [OF 1(1)] show "\<exists>acts now'. run (sys_step st) (d, now) acts (g d (f d), now') \<and> now' \<le> b" by blast
qed

lemma client_cases: "(\<And>d. \<exists>g. store_client st a b g \<and> f d = g d) \<Longrightarrow> store_client st a b f"
  unfolding store_client_def by metis

lemma client_wider: "store_client st a b f \<Longrightarrow> a' \<le> a \<Longrightarrow> b \<le> b' \<Longrightarrow> store_client st a' b' f"
  unfolding store_client_def by (meson order_trans)

lemma client_then: "store_client st a m f \<Longrightarrow> (\<And>d. \<exists>g. store_client st m b g \<and> h d = g (f d)) \<Longrightarrow> store_client st a b h"
  using client_seq [of st a m f b "\<lambda>d. SOME g. store_client st m b g \<and> h d = g (f d)"]
  by (metis (mono_tags, lifting) client_cases someI_ex)

lemma client_if: "(P \<Longrightarrow> store_client st a b f) \<Longrightarrow> (\<not> P \<Longrightarrow> store_client st a b g) \<Longrightarrow>
    store_client st a b (\<lambda>d. if P then f d else g d)"
  by (cases P) simp_all

text \<open>What lasts in every run lasts while a client acts.\<close>

lemma client_lasts:
  assumes "lasting st Q" "store_client st a b f" "wf_db d" "view_of i d = Some v" "Q a v"
  shows "wf_db (f d) \<and> (\<exists>v'. view_of i (f d) = Some v' \<and> Q b v')"
proof -
  from client_run [OF assms(2) order_refl] obtain acts now' where r: "run (sys_step st) (d, a) acts (f d, now')" "now' \<le> b"
    by blast
  from lasting.lasts [OF assms(1) r(1) assms(3-5)] obtain v' where "view_of i (f d) = Some v'" "Q now' v'" by blast
  with lasting.time_keeps [OF assms(1) _ r(2)] run_wf [OF r(1) assms(3)] show ?thesis by blast
qed

section \<open>The operations, as a program calls them\<close>

lemma client_calls [client_intro]:
  assumes "clock_ok a e" "clk e 10 \<le> b"
  shows "store_client st a b (\<lambda>d. fst (claim_task st e w d))"
    "store_client st a b (\<lambda>d. fst (renew_lease st e lease d))"
    "store_client st a b (\<lambda>d. fst (start_step e lease sid d))"
    "store_client st a b (\<lambda>d. fst (wait_for_approval e lease sid d))"
    "store_client st a b (\<lambda>d. fst (decide_approval e tid sid decision d))"
    "store_client st a b (\<lambda>d. fst (finish_step e lease at out d))"
    "store_client st a b (\<lambda>d. fst (timeout_owned_task e lease d))"
    "store_client st a b (\<lambda>d. fst (cancel_task e tid d))"
    "store_client st a b (\<lambda>d. fst (cancel_owned_task e lease d))"
    "store_client st a b (\<lambda>d. fst (process_due_control e d))"
    "td_steps td \<noteq> [] \<Longrightarrow> store_client st a b (\<lambda>d. fst (create_task e new_id td d))"
  using client_action [of a "ClaimTask e w" b st] client_action [of a "RenewLease e lease" b st]
    client_action [of a "StartStep e lease sid" b st] client_action [of a "WaitForApproval e lease sid" b st]
    client_action [of a "DecideApproval e tid sid decision" b st] client_action [of a "FinishStep e lease at out" b st]
    client_action [of a "TimeoutOwnedTask e lease" b st] client_action [of a "CancelTask e tid" b st]
    client_action [of a "CancelOwnedTask e lease" b st] client_action [of a "ProcessDueControl e" b st]
    client_action [of a "CreateTask e new_id td" b st] assms
  by (simp_all add: perform.simps [abs_def] cong: if_cong)

section \<open>The API\<close>

lemma validated_length: "validate_steps k ss = Inr sds \<Longrightarrow> length sds = length ss"
  by (induction k ss arbitrary: sds rule: validate_steps.induct) (auto split: sum.splits)

lemma accepted_nonempty: "validate_definition r = Inr td \<Longrightarrow> td_steps td \<noteq> []"
  using accepted_parts validated_length by fastforce

lemma served_creation:
  assumes "serve (database_store e new_id) (PostTask body) d = (d', rs)" "rs_body rs = TaskReply ld"
  obtains td where "create_task e new_id td d = (d', Inr ld)" "valid_action (CreateTask e new_id td)"
proof -
  from assms obtain r td where r: "decode_task_request body = Some r" "validate_definition r = Inr td"
      "create_task e new_id td d = (d', Inr ld)"
    by (auto simp: handle_create_task_def database_store_def reply_def split: option.splits sum.splits prod.splits)
  with accepted_nonempty [OF r(2)] that show ?thesis by simp
qed

lemma serve_client: "clock_ok a e \<Longrightarrow> clk e 10 \<le> b \<Longrightarrow> store_client st a b (\<lambda>d. fst (serve (database_store e new_id) rq d))"
proof -
  assume e: "clock_ok a e" "clk e 10 \<le> b"
  then have ab: "a \<le> b" using clock_ok_range [OF e(1)] by simp
  note idle = client_idle [OF ab, of st] and calls = client_calls [OF e, where st = st]
  show ?thesis
  proof (cases rq)
    case (PostTask body)
    show ?thesis
    proof (cases "Option.bind (decode_task_request body) (\<lambda>r. case validate_definition r of Inl x \<Rightarrow> None | Inr td \<Rightarrow> Some td)")
      case None
      then have "(\<lambda>d. fst (serve (database_store e new_id) rq d)) = (\<lambda>d. d)"
        by (cases "decode_task_request body") (auto simp: PostTask handle_create_task_def split: sum.splits)
      with idle show ?thesis by simp
    next
      case (Some td)
      then obtain r where r: "decode_task_request body = Some r" "validate_definition r = Inr td"
        by (cases "decode_task_request body") (auto split: sum.splits)
      have "td_steps td \<noteq> []" using accepted_nonempty [OF r(2)] .
      moreover have "(\<lambda>d. fst (serve (database_store e new_id) rq d)) = (\<lambda>d. fst (create_task e new_id td d))"
        by (auto simp: PostTask handle_create_task_def database_store_def r fun_eq_iff split: prod.splits sum.splits)
      ultimately show ?thesis using calls(11) by simp
    qed
  next
    case (PostCancel i)
    have "(\<lambda>d. fst (serve (database_store e new_id) rq d)) = (\<lambda>d. fst (cancel_task e i d))"
      by (auto simp: PostCancel handle_cancel_task_def database_store_def fun_eq_iff split: prod.splits sum.splits cancel_result.splits)
    with calls(8) show ?thesis by simp
  next
    case (PostApprove i body)
    have "fst (serve (database_store e new_id) rq d) = d \<or>
        fst (serve (database_store e new_id) rq d) = fst (decide_approval e i (the (decode_step_id body)) ''approved'' d)" for d
      by (auto simp: PostApprove handle_decide_def database_store_def split: option.splits prod.splits sum.splits)
    with calls(5) idle show ?thesis by (intro client_cases) metis
  next
    case (PostReject i body)
    have "fst (serve (database_store e new_id) rq d) = d \<or>
        fst (serve (database_store e new_id) rq d) = fst (decide_approval e i (the (decode_step_id body)) ''rejected'' d)" for d
      by (auto simp: PostReject handle_decide_def database_store_def split: option.splits prod.splits sum.splits)
    with calls(5) idle show ?thesis by (intro client_cases) metis
  qed (use idle in simp_all)
qed

section \<open>A worker\<close>

lemma cancel_claim_client [client_intro]: "clock_ok a e \<Longrightarrow> clk e 10 \<le> b \<Longrightarrow> store_client st a b (cancel_claim e lease)"
  using client_calls(9) [where st = st and a = a and b = b and e = e and lease = lease] by (simp add: cancel_claim_def [abs_def])

lemma timeout_claim_client [client_intro]: "clock_ok a e \<Longrightarrow> store_client st (clk e 10) m others \<Longrightarrow> clock_ok m e' \<Longrightarrow> clk e' 10 \<le> b \<Longrightarrow>
    store_client st a b (timeout_claim e others e' lease)"
proof -
  assume c: "clock_ok a e" "store_client st (clk e 10) m others" "clock_ok m e'" "clk e' 10 \<le> b"
  let ?g = "\<lambda>d x. if snd (timeout_owned_task e lease d) = Inl ErrCancelled then cancel_claim e' lease (others x) else x"
  have "timeout_claim e others e' lease = (\<lambda>d. ?g d (fst (timeout_owned_task e lease d)))"
    by (auto simp: timeout_claim_def fun_eq_iff split: prod.splits sum.splits)
  moreover have "store_client st (clk e 10) b (?g d)" for d
    by (intro client_if client_seq [OF c(2)] cancel_claim_client [OF c(3,4)] client_idle)
      (use client_order [OF c(2)] clock_ok_range [OF c(3)] c(4) in simp)
  ultimately show ?thesis by (simp only:) (rule client_seq [OF client_calls(7) [OF c(1) order_refl]], simp)
qed

text \<open>
  A turn takes place between \<open>a\<close> and \<open>b\<close> when the readings of its calls come in program order and
  the others act in the gaps.
\<close>

definition turn_between :: "store \<Rightarrow> time \<Rightarrow> turn \<Rightarrow> time \<Rightarrow> bool" where
  "turn_between st a tn b \<longleftrightarrow>
     (\<exists>t0 t1 t2 t3 t4. store_client st a t0 (tn_others tn 0) \<and> store_client st t0 t1 (tn_others tn 1) \<and>
        clock_ok t1 (tn_step tn) \<and> store_client st (clk (tn_step tn) 10) t2 (tn_others tn 2) \<and>
        clock_ok t2 (tn_finish tn) \<and> store_client st (clk (tn_finish tn) 10) t3 (tn_others tn 3) \<and>
        clock_ok t3 (tn_control tn 0) \<and> store_client st (clk (tn_control tn 0) 10) t4 (tn_others tn 4) \<and>
        clock_ok t4 (tn_control tn 1) \<and> clk (tn_control tn 1) 10 \<le> b)"

lemma turn_betweenE:
  assumes "turn_between st a tn b"
  obtains t0 t1 t2 t3 where "store_client st a t0 (tn_others tn 0)" "store_client st t0 t1 (tn_others tn 1)"
    "clock_ok t1 (tn_step tn)" "store_client st (clk (tn_step tn) 10) t2 (tn_others tn 2)"
    "clock_ok t2 (tn_finish tn)" "store_client st (clk (tn_finish tn) 10) t3 (tn_others tn 3)"
    "store_client st t3 b (timeout_claim (tn_control tn 0) (tn_others tn 4) (tn_control tn 1) lease)"
    "store_client st t2 b (timeout_claim (tn_control tn 0) (tn_others tn 4) (tn_control tn 1) lease)"
    "store_client st t2 b (cancel_claim (tn_control tn 0) lease)"
    "t0 \<le> t1" "t1 \<le> clk (tn_step tn) 10" "clk (tn_step tn) 10 \<le> t2" "t2 \<le> clk (tn_finish tn) 10"
    "clk (tn_finish tn) 10 \<le> b" "t2 \<le> b"
proof -
  from assms obtain t0 t1 t2 t3 t4 where t: "store_client st a t0 (tn_others tn 0)" "store_client st t0 t1 (tn_others tn 1)"
    "clock_ok t1 (tn_step tn)" "store_client st (clk (tn_step tn) 10) t2 (tn_others tn 2)"
    "clock_ok t2 (tn_finish tn)" "store_client st (clk (tn_finish tn) 10) t3 (tn_others tn 3)"
    "clock_ok t3 (tn_control tn 0)" "store_client st (clk (tn_control tn 0) 10) t4 (tn_others tn 4)"
    "clock_ok t4 (tn_control tn 1)" "clk (tn_control tn 1) 10 \<le> b"
    by (auto simp: turn_between_def)
  note le = client_order [OF t(2)] clock_ok_range [OF t(3)] client_order [OF t(4)] clock_ok_range [OF t(5)]
    client_order [OF t(6)] clock_ok_range [OF t(7)] client_order [OF t(8)] clock_ok_range [OF t(9)] t(10)
  have c0: "clk (tn_control tn 0) 10 \<le> b" using le by simp
  have t3: "t2 \<le> t3" using le by simp
  note out = timeout_claim_client [OF t(7-10), where lease = lease]
  show ?thesis
    by (rule that [OF t(1-6) out client_wider [OF out t3 order_refl]
          client_wider [OF cancel_claim_client [OF t(7) c0] t3 order_refl]]) (use le in simp_all)
qed


lemma finish_turn_client:
  assumes "clock_ok a (tn_finish tn)" "store_client st (clk (tn_finish tn) 10) t3 (tn_others tn 3)"
    and "store_client st t3 b (timeout_claim (tn_control tn 0) (tn_others tn 4) (tn_control tn 1) lease)" "clk (tn_finish tn) 10 \<le> b"
  shows "store_client st a b (\<lambda>d. fst (finish_turn lease tn at r d))"
proof (rule client_then [OF client_calls(6) [OF assms(1) order_refl, where lease = lease and at = at and out = "outcome_of (tn_transport tn) r"]])
  fix d
  let ?d = "finish_step (tn_finish tn) lease at (outcome_of (tn_transport tn) r) d"
  show "\<exists>g. store_client st (clk (tn_finish tn) 10) b g \<and> fst (finish_turn lease tn at r d) = g (fst ?d)"
  proof (cases "snd ?d = Inl ErrDeadlineExceeded")
    case True
    then have "fst (finish_turn lease tn at r d) =
        (\<lambda>x. timeout_claim (tn_control tn 0) (tn_others tn 4) (tn_control tn 1) lease (tn_others tn 3 x)) (fst ?d)"
      by (cases ?d) (simp add: finish_turn_def)
    with client_seq [OF assms(2,3)] show ?thesis by blast
  next
    case False
    then have "fst (finish_turn lease tn at r d) = (\<lambda>x. x) (fst ?d)"
      by (cases ?d) (auto simp: finish_turn_def split: sum.splits)
    with client_idle [OF assms(4)] show ?thesis by blast
  qed
qed

lemma step_turn_client: "turn_between st a tn b \<Longrightarrow>
    store_client st a b (\<lambda>d. fst (step_turn url lease tn sid (tn_others tn 1 (tn_others tn 0 d))))"
proof (erule turn_betweenE [where lease = lease])
  fix t0 t1 t2 t3
  assume 0: "store_client st a t0 (tn_others tn 0)" and 1: "store_client st t0 t1 (tn_others tn 1)" "clock_ok t1 (tn_step tn)"
    and 2: "store_client st (clk (tn_step tn) 10) t2 (tn_others tn 2)" "clock_ok t2 (tn_finish tn)"
    and 3: "store_client st (clk (tn_finish tn) 10) t3 (tn_others tn 3)"
    and out: "store_client st t3 b (timeout_claim (tn_control tn 0) (tn_others tn 4) (tn_control tn 1) lease)"
      "store_client st t2 b (timeout_claim (tn_control tn 0) (tn_others tn 4) (tn_control tn 1) lease)"
    and le: "clk (tn_step tn) 10 \<le> t2" "clk (tn_finish tn) 10 \<le> b" "t2 \<le> b"
  have "store_client st t1 b (\<lambda>d. fst (step_turn url lease tn sid d))"
  proof (rule client_then [OF client_calls(3) [OF 1(2) order_refl, where lease = lease and sid = sid]])
    fix d
    let ?d = "start_step (tn_step tn) lease sid d"
    show "\<exists>g. store_client st (clk (tn_step tn) 10) b g \<and> fst (step_turn url lease tn sid d) = g (fst ?d)"
    proof (cases "snd ?d")
      case (Inl x)
      then have "fst (step_turn url lease tn sid d) = (\<lambda>x. x) (fst ?d)" by (cases ?d) (simp add: step_turn_def)
      with client_idle [of "clk (tn_step tn) 10" b st] le show ?thesis by force
    next
      case (Inr at)
      let ?r = "execute_step (tn_exec tn) at \<lparr>eo_fake_tool_url = url\<rparr>"
      let ?h = "\<lambda>x. if tn_after tn = DeadlineExceeded then timeout_claim (tn_control tn 0) (tn_others tn 4) (tn_control tn 1) lease x
        else if tn_after tn \<noteq> Live then x else fst (finish_turn lease tn at ?r x)"
      have "fst (step_turn url lease tn sid d) = (\<lambda>x. ?h (tn_others tn 2 x)) (fst ?d)"
        using Inr by (cases ?d) (simp add: step_turn_def Let_def)
      moreover have "store_client st t2 b ?h"
        by (intro client_if out finish_turn_client [OF 2(2) 3 out(1) le(2)] client_idle le)
      then have "store_client st (clk (tn_step tn) 10) b (\<lambda>x. ?h (tn_others tn 2 x))" by (rule client_seq [OF 2(1)])
      ultimately show ?thesis by (intro exI [of _ "\<lambda>x. ?h (tn_others tn 2 x)"] conjI) simp_all
    qed
  qed
  then have "store_client st t0 b (\<lambda>d. fst (step_turn url lease tn sid (tn_others tn 1 d)))" by (rule client_seq [OF 1(1)])
  then show ?thesis by (rule client_seq [OF 0])
qed

lemma approval_turn_client: "turn_between st a tn b \<Longrightarrow>
    store_client st a b (\<lambda>d. fst (approval_turn lease tn sid (tn_others tn 1 (tn_others tn 0 d))))"
proof (erule turn_betweenE [where lease = lease])
  fix t0 t1 t2
  assume 0: "store_client st a t0 (tn_others tn 0)" and 1: "store_client st t0 t1 (tn_others tn 1)" "clock_ok t1 (tn_step tn)"
    and 2: "store_client st (clk (tn_step tn) 10) t2 (tn_others tn 2)"
    and out: "store_client st t2 b (timeout_claim (tn_control tn 0) (tn_others tn 4) (tn_control tn 1) lease)"
      "store_client st t2 b (cancel_claim (tn_control tn 0) lease)"
    and le: "clk (tn_step tn) 10 \<le> t2" "t2 \<le> b"
  have "store_client st t1 b (\<lambda>d. fst (approval_turn lease tn sid d))"
  proof (rule client_then [OF client_calls(4) [OF 1(2) order_refl, where lease = lease and sid = sid]])
    fix d
    let ?d = "wait_for_approval (tn_step tn) lease sid d"
    let ?h = "\<lambda>x. if snd ?d = Inl ErrCancelled then cancel_claim (tn_control tn 0) lease (tn_others tn 2 x)
      else if snd ?d = Inl ErrDeadlineExceeded \<or> tn_after tn = DeadlineExceeded
      then timeout_claim (tn_control tn 0) (tn_others tn 4) (tn_control tn 1) lease (tn_others tn 2 x) else x"
    have "fst (approval_turn lease tn sid d) = ?h (fst ?d)" by (cases ?d) (simp add: approval_turn_def Let_def)
    moreover have "store_client st (clk (tn_step tn) 10) b ?h"
      by (intro client_if client_seq [OF 2] out client_idle order_trans [OF le])
    ultimately show "\<exists>g. store_client st (clk (tn_step tn) 10) b g \<and> fst (approval_turn lease tn sid d) = g (fst ?d)"
      by (intro exI [of _ ?h] conjI) simp_all
  qed
  then have "store_client st t0 b (\<lambda>d. fst (approval_turn lease tn sid (tn_others tn 1 d)))" by (rule client_seq [OF 1(1)])
  then show ?thesis by (rule client_seq [OF 0])
qed

lemma execute_turn_client: "turn_between st a tn b \<Longrightarrow> store_client st a b (\<lambda>d. fst (execute_turn url lease tn d))"
proof -
  assume tn: "turn_between st a tn b"
  then obtain t0 where 0: "store_client st a t0 (tn_others tn 0)" "t0 \<le> b"
    by (elim turn_betweenE [where lease = lease]) simp
  note both = approval_turn_client [OF tn, of lease] step_turn_client [OF tn, of url lease]
  show ?thesis
  proof (rule client_cases)
    fix d
    let ?e = "fst (execute_turn url lease tn d)"
    have "?e = d \<or> ?e = tn_others tn 0 d
        \<or> (\<exists>sid. ?e = fst (approval_turn lease tn sid (tn_others tn 1 (tn_others tn 0 d))))
        \<or> (\<exists>sid. ?e = fst (step_turn url lease tn sid (tn_others tn 1 (tn_others tn 0 d))))"
      unfolding execute_turn_def Let_def by (simp split: sum.split) blast
    then consider "?e = d" | "?e = tn_others tn 0 d"
      | sid where "?e = fst (approval_turn lease tn sid (tn_others tn 1 (tn_others tn 0 d)))"
      | sid where "?e = fst (step_turn url lease tn sid (tn_others tn 1 (tn_others tn 0 d)))"
      by blast
    then show "\<exists>g. store_client st a b g \<and> fst (execute_turn url lease tn d) = g d"
    proof cases
      case 1
      then show ?thesis using client_idle [of a b st] client_order [OF 0(1)] 0(2) by force
    next
      case 2
      then show ?thesis using client_wider [OF 0(1) order_refl 0(2)] by blast
    next
      case (3 sid)
      with both(1) [of sid] show ?thesis by blast
    next
      case (4 sid)
      with both(2) [of sid] show ?thesis by blast
    qed
  qed
qed

fun turns_between :: "store \<Rightarrow> time \<Rightarrow> turn list \<Rightarrow> time \<Rightarrow> bool" where
  "turns_between st a [] b \<longleftrightarrow> a \<le> b"
| "turns_between st a (tn # tns) b \<longleftrightarrow> (\<exists>m. turn_between st a tn m \<and> turns_between st m tns b)"

lemma execute_claim_client: "turns_between st a tns b \<Longrightarrow> store_client st a b (\<lambda>d. fst (execute_claim url lease tns d))"
proof (induction tns arbitrary: a)
  case (Cons tn tns)
  then obtain m where m: "turn_between st a tn m" "turns_between st m tns b" by auto
  show ?case
  proof (rule client_then [OF execute_turn_client [OF m(1), of url lease]])
    fix d
    have "fst (execute_claim url lease (tn # tns) d) = (if snd (execute_turn url lease tn d) = Continue
        then fst (execute_claim url lease tns (fst (execute_turn url lease tn d))) else fst (execute_turn url lease tn d))"
      by (cases "execute_turn url lease tn d") (auto split: turn_end.splits)
    moreover have "m \<le> b" using client_order [OF Cons.IH [OF m(2)]] .
    ultimately show "\<exists>g. store_client st m b g \<and> fst (execute_claim url lease (tn # tns) d) = g (fst (execute_turn url lease tn d))"
      using Cons.IH [OF m(2)] client_idle [of m b st] by (cases "snd (execute_turn url lease tn d) = Continue") force+
  qed
qed (auto intro: client_idle)

definition round_between :: "store \<Rightarrow> time \<Rightarrow> slot_round \<Rightarrow> time \<Rightarrow> bool" where
  "round_between st a rd b \<longleftrightarrow>
     clock_ok a (sl_claim rd) \<and> turns_between st (clk (sl_claim rd) 10) (sl_turns rd) b \<and>
     store_client st (clk (sl_claim rd) 10) b (sl_idle rd)"

fun rounds_between :: "store \<Rightarrow> time \<Rightarrow> slot_round list \<Rightarrow> time \<Rightarrow> bool" where
  "rounds_between st a [] b \<longleftrightarrow> a \<le> b"
| "rounds_between st a (rd # rds) b \<longleftrightarrow> (\<exists>m. round_between st a rd m \<and> rounds_between st m rds b)"

lemma no_rounds: "run_slot st opts [] = (\<lambda>d. d)" "run_scheduler [] = (\<lambda>d. d)"
  by (simp_all add: fun_eq_iff)

lemma run_slot_client: "rounds_between st a rds b \<Longrightarrow> store_client st a b (run_slot st opts rds)"
proof (induction rds arbitrary: a)
  case (Cons rd rds)
  then obtain m where m: "clock_ok a (sl_claim rd)" "turns_between st (clk (sl_claim rd) 10) (sl_turns rd) m"
      "store_client st (clk (sl_claim rd) 10) m (sl_idle rd)" "rounds_between st m rds b"
    by (auto simp: round_between_def)
  show ?case
  proof (rule client_then [OF client_calls(1) [OF m(1) order_refl, where w = "wo_worker_id opts"]])
    fix d
    let ?c = "claim_task st (sl_claim rd) (wo_worker_id opts) d"
    show "\<exists>g. store_client st (clk (sl_claim rd) 10) b g \<and> run_slot st opts (rd # rds) d = g (fst ?c)"
    proof (cases "snd ?c")
      case (Inl x)
      then have "run_slot st opts (rd # rds) d = (\<lambda>x. run_slot st opts rds (sl_idle rd x)) (fst ?c)" by (cases ?c) simp
      moreover have "store_client st (clk (sl_claim rd) 10) b (\<lambda>x. run_slot st opts rds (sl_idle rd x))"
        by (rule client_seq [OF m(3)]) (rule Cons.IH [OF m(4)])
      ultimately show ?thesis by blast
    next
      case (Inr c)
      let ?g = "\<lambda>x. run_slot st opts rds (fst (execute_claim (wo_fake_tool_url opts) (cl_token c) (sl_turns rd) x))"
      have "run_slot st opts (rd # rds) d = ?g (fst ?c)" using Inr by (cases ?c) simp
      moreover have "store_client st (clk (sl_claim rd) 10) b ?g"
        by (rule client_seq [OF execute_claim_client [OF m(2)]]) (rule Cons.IH [OF m(4)])
      ultimately show ?thesis by blast
    qed
  qed
qed (simp add: no_rounds client_idle)

fun tick_between :: "time \<Rightarrow> tick \<Rightarrow> time \<Rightarrow> bool" where
  "tick_between a Worker.ContextDone b \<longleftrightarrow> a \<le> b"
| "tick_between a (HeartbeatTick e control) b \<longleftrightarrow> clock_ok a e \<and> clock_ok (clk e 10) control \<and> clk control 10 \<le> b"
| "tick_between a (CancellationTick e control) b \<longleftrightarrow> clock_ok a e \<and> clock_ok (clk e 10) control \<and> clk control 10 \<le> b"

fun ticks_between :: "store \<Rightarrow> time \<Rightarrow> (tick \<times> (db \<Rightarrow> db)) list \<Rightarrow> time \<Rightarrow> bool" where
  "ticks_between st a [] b \<longleftrightarrow> a \<le> b"
| "ticks_between st a ((tick, others) # ticks) b \<longleftrightarrow>
     (\<exists>t m. store_client st a t others \<and> tick_between t tick m \<and> ticks_between st m ticks b)"

lemma tick_client: "tick_between a tick b \<Longrightarrow> store_client st a b (\<lambda>d. fst (monitor_tick st lease tick d))"
proof (cases tick)
  case (HeartbeatTick e control)
  assume "tick_between a tick b"
  with HeartbeatTick have c: "clock_ok a e" "clock_ok (clk e 10) control" "clk control 10 \<le> b" by simp_all
  show ?thesis
  proof (rule client_then [OF client_calls(2) [OF c(1) order_refl, where lease = lease]])
    fix d
    let ?h = "\<lambda>x. if snd (renew_lease st e lease d) = Inl ErrCancelled then cancel_claim control lease x else x"
    have "fst (monitor_tick st lease tick d) = ?h (fst (renew_lease st e lease d))"
      by (cases "renew_lease st e lease d") (auto simp: HeartbeatTick split: sum.splits)
    moreover have "store_client st (clk e 10) b ?h"
      by (intro client_if cancel_claim_client [OF c(2,3)] client_idle order_trans [OF clock_ok_range [OF c(2)] c(3)])
    ultimately show "\<exists>g. store_client st (clk e 10) b g \<and> fst (monitor_tick st lease tick d) = g (fst (renew_lease st e lease d))"
      by (intro exI [of _ ?h] conjI) simp_all
  qed
next
  case (CancellationTick e control)
  assume "tick_between a tick b"
  with CancellationTick have c: "clock_ok a e" "clock_ok (clk e 10) control" "clk control 10 \<le> b" by simp_all
  then have a: "clock_ok a control" "a \<le> b"
    using clock_ok_range [OF c(1)] clock_ok_range [OF c(2)] by (auto simp: clock_ok_def)
  show ?thesis
  proof (rule client_cases)
    fix d
    have "fst (monitor_tick st lease tick d) = cancel_claim control lease d \<or> fst (monitor_tick st lease tick d) = d"
      by (auto simp: CancellationTick split: sum.splits)
    with cancel_claim_client [OF a(1) c(3), of st lease] client_idle [OF a(2), of st]
    show "\<exists>g. store_client st a b g \<and> fst (monitor_tick st lease tick d) = g d" by force
  qed
qed (simp add: client_idle)

lemma monitor_client: "ticks_between st a ticks b \<Longrightarrow> store_client st a b (\<lambda>d. fst (monitor_control st lease ticks d))"
proof (induction ticks arbitrary: a)
  case (Cons x ticks)
  obtain tick others where x: "x = (tick, others)" by (cases x)
  with Cons.prems obtain t m where m: "store_client st a t others" "tick_between t tick m" "ticks_between st m ticks b" by auto
  have "store_client st t b (\<lambda>d. fst (monitor_control st lease ((tick, \<lambda>x. x) # ticks) d))"
  proof (rule client_then [OF tick_client [OF m(2), of st lease]])
    fix d
    let ?h = "\<lambda>x. if snd (monitor_tick st lease tick d) = None then fst (monitor_control st lease ticks x) else x"
    have "fst (monitor_control st lease ((tick, \<lambda>x. x) # ticks) d) = ?h (fst (monitor_tick st lease tick d))"
      by (cases "monitor_tick st lease tick d") (auto split: option.splits)
    moreover have "store_client st m b ?h"
      by (intro client_if Cons.IH [OF m(3)] client_idle client_order [OF Cons.IH [OF m(3)]])
    ultimately show "\<exists>g. store_client st m b g \<and>
        fst (monitor_control st lease ((tick, \<lambda>x. x) # ticks) d) = g (fst (monitor_tick st lease tick d))"
      by (intro exI [of _ ?h] conjI) simp_all
  qed
  then have "store_client st a b (\<lambda>d. fst (monitor_control st lease ((tick, \<lambda>x. x) # ticks) (others d)))"
    by (rule client_seq [OF m(1)])
  then show ?case by (simp add: x)
qed (simp add: client_idle)

section \<open>A scheduler\<close>

fun scan_between :: "time \<Rightarrow> env list \<Rightarrow> time \<Rightarrow> bool" where
  "scan_between a [] b \<longleftrightarrow> a \<le> b"
| "scan_between a (e # es) b \<longleftrightarrow> clock_ok a e \<and> scan_between (clk e 10) es b"

lemma scan_client: "scan_between a es b \<Longrightarrow> store_client st a b (\<lambda>d. fst (scan es d))"
proof (induction es arbitrary: a)
  case (Cons e es)
  then have c: "clock_ok a e" "scan_between (clk e 10) es b" by simp_all
  note rest = Cons.IH [OF c(2)]
  show ?case
  proof (rule client_then [OF client_calls(10) [OF c(1) order_refl]])
    fix d
    let ?h = "\<lambda>x. if snd (process_due_control e d) = Inr True then fst (scan es x) else x"
    have "fst (scan (e # es) d) = ?h (fst (process_due_control e d))"
      by (cases "process_due_control e d") (auto split: sum.splits bool.splits prod.splits)
    moreover have "store_client st (clk e 10) b ?h"
      by (intro client_if rest client_idle client_order [OF rest])
    ultimately show "\<exists>g. store_client st (clk e 10) b g \<and> fst (scan (e # es) d) = g (fst (process_due_control e d))"
      by (intro exI [of _ ?h] conjI) simp_all
  qed
qed (simp add: client_idle)

fun polls_between :: "store \<Rightarrow> time \<Rightarrow> (env list \<times> (db \<Rightarrow> db)) list \<Rightarrow> time \<Rightarrow> bool" where
  "polls_between st a [] b \<longleftrightarrow> a \<le> b"
| "polls_between st a ((es, others) # polls) b \<longleftrightarrow>
     (\<exists>t m. scan_between a es t \<and> store_client st t m others \<and> polls_between st m polls b)"

lemma scheduler_client: "polls_between st a polls b \<Longrightarrow> store_client st a b (run_scheduler polls)"
proof (induction polls arbitrary: a)
  case (Cons x polls)
  obtain es others where x: "x = (es, others)" by (cases x)
  with Cons.prems obtain t m where m: "scan_between a es t" "store_client st t m others" "polls_between st m polls b" by auto
  have "store_client st t b (\<lambda>d. run_scheduler polls (others d))"
    by (rule client_seq [OF m(2)]) (rule Cons.IH [OF m(3)])
  then have "store_client st a b (\<lambda>d. run_scheduler polls (others (fst (scan es d))))"
    by (rule client_seq [OF scan_client [OF m(1)]])
  moreover have "run_scheduler (x # polls) = (\<lambda>d. run_scheduler polls (others (fst (scan es d))))"
    by (simp add: x fun_eq_iff)
  ultimately show ?case by simp
qed (simp add: no_rounds client_idle)

section \<open>A deployment\<close>

text \<open>
  What one of the programs does in one stretch; the others' share of this time is inside it. A
  deployment is a sequence of such stretches.
\<close>

datatype activity =
    Serving env "nat \<Rightarrow> err + string" request
  | Working worker_options "slot_round list"
  | Monitoring lease_token "(tick \<times> (db \<Rightarrow> db)) list"
  | Scheduling "(env list \<times> (db \<Rightarrow> db)) list"

fun perform_activity :: "store \<Rightarrow> activity \<Rightarrow> db \<Rightarrow> db" where
  "perform_activity st (Serving e new_id rq) d = fst (serve (database_store e new_id) rq d)"
| "perform_activity st (Working opts rds) d = run_slot st opts rds d"
| "perform_activity st (Monitoring lease ticks) d = fst (monitor_control st lease ticks d)"
| "perform_activity st (Scheduling polls) d = run_scheduler polls d"

fun activity_between :: "store \<Rightarrow> time \<Rightarrow> activity \<Rightarrow> time \<Rightarrow> bool" where
  "activity_between st a (Serving e new_id rq) b \<longleftrightarrow> clock_ok a e \<and> clk e 10 \<le> b"
| "activity_between st a (Working opts rds) b \<longleftrightarrow> rounds_between st a rds b"
| "activity_between st a (Monitoring lease ticks) b \<longleftrightarrow> ticks_between st a ticks b"
| "activity_between st a (Scheduling polls) b \<longleftrightarrow> polls_between st a polls b"

lemma activity_functions:
  "perform_activity st (Serving e new_id rq) = (\<lambda>d. fst (serve (database_store e new_id) rq d))"
  "perform_activity st (Working opts rds) = run_slot st opts rds"
  "perform_activity st (Monitoring lease ticks) = (\<lambda>d. fst (monitor_control st lease ticks d))"
  "perform_activity st (Scheduling polls) = run_scheduler polls"
  by (simp_all add: fun_eq_iff)

lemma activity_client: "activity_between st a x b \<Longrightarrow> store_client st a b (perform_activity st x)"
  by (cases x) (simp_all only: activity_functions activity_between.simps serve_client run_slot_client monitor_client
    scheduler_client)

fun deployment_between :: "store \<Rightarrow> time \<Rightarrow> activity list \<Rightarrow> time \<Rightarrow> bool" where
  "deployment_between st a [] b \<longleftrightarrow> a \<le> b"
| "deployment_between st a (x # xs) b \<longleftrightarrow> (\<exists>m. activity_between st a x m \<and> deployment_between st m xs b)"

lemma deployment_client: "deployment_between st a xs b \<Longrightarrow> store_client st a b (fold (perform_activity st) xs)"
proof (induction xs arbitrary: a)
  case (Cons x xs)
  then obtain m where m: "activity_between st a x m" "deployment_between st m xs b" by auto
  have "store_client st a b (\<lambda>d. fold (perform_activity st) xs (perform_activity st x d))"
    by (rule client_seq [OF activity_client [OF m(1)]]) (rule Cons.IH [OF m(2)])
  then show ?case by (simp add: comp_def)
qed (simp add: client_idle id_def)

end
