(* ===== verification/System_Liveness.thy ===== *)
theory System_Liveness
  imports Deployment
begin

text \<open>
  A deployment as a whole brings every task that was ever claimed to an end: its deadline is fixed
  and the scheduler enforces it, whatever the other programs do.
\<close>

section \<open>What lasts\<close>

lemmas deadline_lasts = client_lasts [OF deadline_is.lasting_axioms]
lemmas frozen_lasts = client_lasts [OF frozen.lasting_axioms]

lemma deadline_of_row: "wf_db d \<Longrightarrow> find_task i d = Some t \<Longrightarrow> t_deadline_at t = Some x \<Longrightarrow>
    \<exists>f. deadline_is f x now (t, steps_of i d, log_of i d)"
  using wf_row [of d i t] by (auto simp: deadline_is_def row_inv_def split: option.splits)

section \<open>The deadline ends a task\<close>

text \<open>C5: Once a task was claimed it has a deadline, and it ends: whatever clients, workers, monitors and
  schedulers do before, in whatever order and with whatever failures, after the first undisturbed
  poll of a scheduler past its deadline the task is in a terminal status, and it stays in one
  whatever they do then.\<close>

theorem deadline_ends_task:
  assumes "wf_db d" "find_task i d = Some t" "t_deadline_at t = Some x"
    and "deployment_between st a xs b" "scan_between b es c" "store_client st c m others" "deployment_between st m ys z"
    and "list_all (quiet_scan x) es" "2 * length (tasks (fold (perform_activity st) xs d)) < length es"
  shows "\<exists>t'. find_task i (fold (perform_activity st) (xs @ Scheduling [(es, others)] # ys) d) = Some t' \<and>
    is_terminal_status (t_status t')"
proof -
  let ?d1 = "fold (perform_activity st) xs d"
  from deadline_of_row [OF assms(1-3)] obtain f where "deadline_is f x a (t, steps_of i d, log_of i d)" by blast
  from deadline_lasts [OF deployment_client [OF assms(4)] assms(1) view_of_find [OF assms(2)] this] obtain v1 where
      v1: "wf_db ?d1" "view_of i ?d1 = Some v1" "deadline_is f x b v1" by blast
  from quiet_scans [OF v1(1) assms(8)] budget_bound [of ?d1] assms(9) obtain d2 n where
      scan: "scan es ?d1 = (d2, n, NothingDue)" "\<forall>t \<in> set (tasks d2). \<not> due x t" by auto
  from deadline_lasts [OF scan_client [OF assms(5)] v1] scan(1) obtain v2 where
      v2: "wf_db d2" "view_of i d2 = Some v2" "deadline_is f x c v2" by auto
  then have row: "find_task i d2 = Some (fst v2)" "t_deadline_at (fst v2) = Some x"
    by (auto simp: deadline_is_def dest!: view_of_parts)
  then have "fst v2 \<in> set (tasks d2)" by (auto simp: find_task_def row_at_def find_Some_iff)
  with scan(2) row(2) have "frozen v2 c v2" by (auto simp: frozen_def due_def at_or_before_def)
  from frozen_lasts [OF assms(6) v2(1,2) this] obtain v3 where v3: "wf_db (others d2)" "view_of i (others d2) = Some v3"
      "frozen v2 m v3" by blast
  then have v3': "view_of i (others d2) = Some v2" "frozen v2 m v2" by (auto simp: frozen_def)
  from frozen_lasts [OF deployment_client [OF assms(7)] v3(1) v3'] have
      "view_of i (fold (perform_activity st) ys (others d2)) = Some v2" "is_terminal_status (t_status (fst v2))"
    by (auto simp: frozen_def)
  moreover have "fold (perform_activity st) (xs @ Scheduling [(es, others)] # ys) d = fold (perform_activity st) ys (others d2)"
    using scan(1) by simp
  ultimately show ?thesis by (auto dest!: view_of_parts)
qed

definition before_deadline :: "activity list" where
  "before_deadline = [Monitoring tok [(HeartbeatTick (env_at 4000) (env_at 4100), \<lambda>d. d)], Serving (env_at 5000) ids (GetTask ''t'')]"

definition after_deadline :: "activity list" where
  "after_deadline = [Serving (env_at 62000000) ids (PostCancel ''t'')]"

lemma deadline_ends_task_witness:
  "\<exists>t'. find_task ''t'' (fold (perform_activity st0) (before_deadline @
      Scheduling [(map env_at [61000000, 61000100, 61000200], \<lambda>d. d)] # after_deadline) db_started) = Some t' \<and>
    is_terminal_status (t_status t')"
proof (rule deadline_ends_task [OF wf_scenario(3) task_read(2)])
  show "t_deadline_at claimed_row = Some 60000106" by (simp add: claimed_row_def)
  have "activity_between st0 210 (Monitoring tok [(HeartbeatTick (env_at 4000) (env_at 4100), \<lambda>d. d)]) 4500"
    unfolding activity_between.simps ticks_between.simps
    by (intro exI [of _ 3500] exI [of _ 4400] conjI client_idle) simp_all
  moreover have "activity_between st0 4500 (Serving (env_at 5000) ids (GetTask ''t'')) 60000000" by simp
  ultimately show "deployment_between st0 210 before_deadline 60000000"
    unfolding before_deadline_def deployment_between.simps by blast
  show "scan_between 60000000 (map env_at [61000000, 61000100, 61000200]) 61500000" by simp
  show "store_client st0 61500000 61600000 (\<lambda>d. d)" by (simp add: client_idle)
  have "activity_between st0 61600000 (Serving (env_at 62000000) ids (PostCancel ''t'')) 62000010" by simp
  then show "deployment_between st0 61600000 after_deadline 62000010"
    unfolding after_deadline_def deployment_between.simps by blast
  show "list_all (quiet_scan 60000106) (map env_at [61000000, 61000100, 61000200])"
    by (simp add: quiet_scan_def) (simp add: env_at_def)
  have "length (tasks (fold (perform_activity st0) before_deadline db_started)) = 1" by code_simp
  then show "2 * length (tasks (fold (perform_activity st0) before_deadline db_started)) <
      length (map env_at [61000000, 61000100, 61000200])" by simp
qed

end
