(* ===== verification/Worker_Progress.thy ===== *)
theory Worker_Progress
  imports Worker_Theorems
begin

text \<open>
  A claimed task in the hands of a worker that nothing disturbs: every turn of its loop brings the
  task further, and the loop ends with the task handed over.
\<close>

section \<open>Left alone, the worker hands the task over\<close>

text \<open>A turn in which nothing fails and everything happens before a time \<open>X\<close>; a task in the hands of
  an owner whose lease and whose deadline last until then.\<close>

definition healthy :: "time \<Rightarrow> turn \<Rightarrow> bool" where
  "healthy X tn \<longleftrightarrow> undisturbed tn \<and> tn_head tn = Live \<and> tn_after tn = Live \<and> tn_transport tn \<noteq> [] \<and>
     fault (tn_load tn) = NoFault \<and> fault (tn_step tn) = NoFault \<and> fault (tn_finish tn) = NoFault \<and>
     clk (tn_step tn) 0 < X \<and> clk (tn_finish tn) 0 < X"

definition held :: "time \<Rightarrow> lease_token \<Rightarrow> task \<Rightarrow> bool" where
  "held X lease t \<longleftrightarrow> t_status t = StatusRunning \<and> t_worker_id t = Some (lt_worker_id lease) \<and>
     t_lease_version t = lt_lease_version lease \<and> \<not> t_cancel_requested t \<and>
     (\<exists>x. t_lease_expires_at t = Some x \<and> X \<le> x) \<and> (\<exists>y. t_deadline_at t = Some y \<and> X \<le> y)"

definition ready :: "time \<Rightarrow> lease_token \<Rightarrow> db \<Rightarrow> bool" where
  "ready X lease d \<longleftrightarrow>
     (\<exists>t s. find_task (lt_task_id lease) d = Some t \<and> held X lease t \<and> s \<in> set (steps_of (lt_task_id lease) d) \<and>
       s_index s = t_current_step t \<and> s_status s \<noteq> StepRunning)"

lemma held_live: "held X lease t \<Longrightarrow> now < X \<Longrightarrow> live_lease now t lease \<and> \<not> overdue now t"
  by (auto simp: held_def live_lease_def overdue_def)

lemma held_locks: "held X lease t \<Longrightarrow> now < X \<Longrightarrow> find_task (lt_task_id lease) d = Some t \<Longrightarrow>
    \<exists>lk. lock_owned_task now d lease = Inr lk \<and> lk_current_step lk = t_current_step t \<and> lk_checkpoint lk = t_checkpoint t"
  using held_live [of X lease t now] by (auto simp: lock_owned_Inr lock_task_Inr held_def)

text \<open>The input of a step whose predecessors succeeded is there, or its references do not resolve.\<close>

lemma column_resolves: "(case resolve_input (raw_of v) (raw_column p) (raw_of c) of
      Inl x \<Rightarrow> Inl (ErrResolve x) | Inr r \<Rightarrow> (case raw_val r of None \<Rightarrow> Inl ErrDatabase | Some w \<Rightarrow> Inr w)) = z \<Longrightarrow>
    (\<exists>r. z = Inr r) \<or> (\<exists>x. z = Inl (ErrResolve x))"
  unfolding resolve_input_columns by (auto split: sum.splits)

lemma input_resolves:
  assumes "steps_inv t (steps_of i d)" "s \<in> set (steps_of i d)" "s_index s = t_current_step t"
  shows "(\<exists>r. resolved_input_of i s c d = Inr r) \<or> (\<exists>x. resolved_input_of i s c d = Inl (ErrResolve x))"
proof -
  consider r where "s_resolved_input s = Some r" | "s_resolved_input s = None" "s_index s = 0"
    | "s_resolved_input s = None" "0 < s_index s" by (cases "s_resolved_input s") auto
  then show ?thesis
  proof cases
    case 2
    show ?thesis by (rule column_resolves [of "s_input s" None c])
        (simp add: resolved_input_of_def 2 del: raw_column.simps)
  next
    case 3
    let ?P = "\<lambda>p. s_index p = s_index s - 1 \<and> s_status p = StepSucceeded"
    have "s_index s - 1 < length (steps_of i d)" "map s_index (steps_of i d) = [0..<length (steps_of i d)]"
      using steps_invD [OF assms] assms by (auto simp: steps_inv_def)
    from index_exists [OF this(2,1)] obtain p where p: "p \<in> set (steps_of i d)" "s_index p = s_index s - 1" by blast
    with 3 assms have "s_status p = StepSucceeded"
      by (auto simp: steps_inv_def step_inv_def position_ok_def)
    with p obtain q where "find ?P (steps_of i d) = Some q"
      by (cases "find ?P (steps_of i d)") (auto simp: find_None_iff)
    with 3 show ?thesis by (intro column_resolves [of "s_input s" "s_output q" c]) (simp add: resolved_input_of_def)
  qed (simp add: resolved_input_of_def)
qed

lemma predecessors_done: "steps_inv t ss \<Longrightarrow> ss = steps_of i d \<Longrightarrow> \<not> unfinished_predecessors i (t_current_step t) d"
  by (auto simp: unfinished_predecessors_def list_ex_iff steps_inv_def step_inv_def position_ok_def)

lemma own_step: "wf_db d \<Longrightarrow> s \<in> set (steps_of i d) \<Longrightarrow> find_step i (s_id s) d = Some s"
proof -
  assume wf: "wf_db d" and s: "s \<in> set (steps_of i d)"
  then obtain x where x: "find_step i (s_id s) d = Some x"
    by (cases "find_step i (s_id s) d") (auto simp: find_step_def find_None_iff)
  with find_step_only [OF wf x s] show ?thesis by simp
qed

lemma ready_step:
  assumes inv: "steps_inv t (steps_of i d)" and t: "held X lease t"
    and s: "s \<in> set (steps_of i d)" "s_index s = t_current_step t" "s_status s \<noteq> StepRunning" "s_type s \<noteq> step_type_approval"
  shows "(s_status s = StepPending \<or> s_status s = StepFailed) \<and> s_attempt s < s_max_attempts s"
proof -
  have "s_status s = StepPending \<or> s_status s = StepFailed \<and> s_attempt s < s_max_attempts s"
    using inv s t by (auto simp: steps_inv_def step_inv_def position_ok_def held_def)
  moreover have "s_status s = StepPending \<Longrightarrow> s_attempt s < s_max_attempts s"
    using inv s(1) by (auto simp: steps_inv_def step_inv_def step_ok_def)
  ultimately show ?thesis by blast
qed

lemma start_resolved:
  assumes wf: "wf_db d" and t: "find_task (lt_task_id lease) d = Some t" "held X lease t"
    and s: "s \<in> set (steps_of (lt_task_id lease) d)" "s_index s = t_current_step t" "s_status s \<noteq> StepRunning"
    and ty: "s_type s \<noteq> step_type_approval" and e: "fault e = NoFault" "clk e 0 < X"
    and r: "resolved_input_of (lt_task_id lease) s (t_checkpoint t) d = Inr r"
  shows "\<exists>d1. start_step e lease (s_id s) d = (d1, Inr (attempt_of s r)) \<and>
      start_body e lease (s_id s) d = Commit d1 (Inr (attempt_of s r)) \<and> find_task (lt_task_id lease) d1 = Some t \<and>
      steps_of (lt_task_id lease) d1 = set_step (s_id s) (start_step_row (clk e 1) r) (steps_of (lt_task_id lease) d) \<and>
      find_step (lt_task_id lease) (s_id s) d1 = Some (start_step_row (clk e 1) r s)"
proof -
  let ?i = "lt_task_id lease"
  have inv: "steps_inv t (steps_of ?i d)" using wf_row [OF wf t(1)] by simp
  from held_locks [OF t(2) e(2) t(1)] obtain lk where lk: "lock_owned_task (clk e 0) d lease = Inr lk"
      "lk_current_step lk = t_current_step t" "lk_checkpoint lk = t_checkpoint t" by blast
  note budget = ready_step [OF inv t(2) s ty] and own = own_step [OF wf s(1)] and pre = predecessors_done [OF inv refl]
  have c: "start_body e lease (s_id s) d = Commit (insert_event (clk e 2) ?i STEP_STARTED
        (JObj [(''step_id'', JStr (s_id s)), (''step_index'', jnat (s_index s)),
          (''attempt'', jnat (Suc (s_attempt s))), (''worker_id'', JStr (lt_worker_id lease)),
          (''lease_version'', jnat (lt_lease_version lease))])
        (update_step ?i (s_id s) (start_step_row (clk e 1) r) d)) (Inr (attempt_of s r))" (is "_ = Commit ?d1 _")
    using r lk own pre budget ty s(2) by (auto simp: start_body_def Let_def)
  have wf1: "wf_db ?d1"
    using perform_wf_simps(1) [OF wf, of e lease "s_id s"] e(1) c by (simp add: start_step_def Let_def)
  have "start_step_row (clk e 1) r s \<in> set (steps_of ?i ?d1)"
    using s(1) by (force simp: view_simps start_step_row_def set_step_def)
  from own_step [OF wf1 this] have "find_step ?i (s_id s) ?d1 = Some (start_step_row (clk e 1) r s)"
    by (simp add: start_step_row_def)
  moreover have "find_task ?i ?d1 = Some t" using t(1) by (simp add: view_simps)
  moreover have "steps_of ?i ?d1 = set_step (s_id s) (start_step_row (clk e 1) r) (steps_of ?i d)"
    by (simp add: view_simps start_step_row_def)
  ultimately show ?thesis using c e(1) by (simp add: start_step_def Let_def)
qed

lemma start_held:
  assumes wf: "wf_db d" and t: "find_task (lt_task_id lease) d = Some t" "held X lease t"
    and s: "s \<in> set (steps_of (lt_task_id lease) d)" "s_index s = t_current_step t" "s_status s \<noteq> StepRunning"
    and ty: "s_type s \<noteq> step_type_approval" and e: "fault e = NoFault" "clk e 0 < X"
  shows "(\<exists>d1 a s'. start_step e lease (s_id s) d = (d1, Inr a) \<and> start_body e lease (s_id s) d = Commit d1 (Inr a) \<and>
      find_task (lt_task_id lease) d1 = Some t \<and>
      find_step (lt_task_id lease) (at_step_id a) d1 = Some s' \<and> s_status s' = StepRunning \<and>
      s_attempt s' = at_attempt a \<and> s_index s' = t_current_step t) \<or>
    (\<exists>x. start_step e lease (s_id s) d = (d, Inl (ErrResolve x)))"
proof -
  let ?i = "lt_task_id lease"
  have inv: "steps_inv t (steps_of ?i d)" using wf_row [OF wf t(1)] by simp
  from input_resolves [OF inv s(1,2), of "t_checkpoint t"] show ?thesis
  proof (elim disjE exE)
    fix x assume x: "resolved_input_of ?i s (t_checkpoint t) d = Inl (ErrResolve x)"
    from held_locks [OF t(2) e(2) t(1)] obtain lk where lk: "lock_owned_task (clk e 0) d lease = Inr lk"
        "lk_current_step lk = t_current_step t" "lk_checkpoint lk = t_checkpoint t" by blast
    with x own_step [OF wf s(1)] predecessors_done [OF inv refl] ready_step [OF inv t(2) s ty] ty s(2)
    have "start_body e lease (s_id s) d = Rollback (Inl (ErrResolve x))" by (auto simp: start_body_def)
    then show ?thesis using e(1) by (simp add: start_step_def Let_def)
  next
    fix r assume "resolved_input_of ?i s (t_checkpoint t) d = Inr r"
    from start_resolved [OF wf t s ty e this] s(2) show ?thesis
      by (auto simp: start_step_row_def attempt_of_def)
  qed
qed

lemma wait_held:
  assumes wf: "wf_db d" and t: "find_task (lt_task_id lease) d = Some t" "held X lease t"
    and s: "s \<in> set (steps_of (lt_task_id lease) d)" "s_index s = t_current_step t" "s_status s \<noteq> StepRunning"
    and ty: "s_type s = step_type_approval" and e: "fault e = NoFault" "clk e 0 < X"
  shows "(\<exists>d1 t'. wait_for_approval e lease (s_id s) d = (d1, Inr ()) \<and>
      find_task (lt_task_id lease) d1 = Some t' \<and> t_status t' = StatusWaitingApproval) \<or>
    (\<exists>x. wait_for_approval e lease (s_id s) d = (d, Inl (ErrResolve x)))"
proof -
  let ?i = "lt_task_id lease"
  have inv: "steps_inv t (steps_of ?i d)" using wf_row [OF wf t(1)] by simp
  from held_locks [OF t(2) e(2) t(1)] obtain lk where lk: "lock_owned_task (clk e 0) d lease = Inr lk"
      "lk_current_step lk = t_current_step t" "lk_checkpoint lk = t_checkpoint t" by blast
  have "s_status s = StepPending"
    using inv s t(2) ty by (auto simp: steps_inv_def step_inv_def position_ok_def held_def)
  moreover have "s_attempt s = 0" using inv s(1) ty by (auto simp: steps_inv_def step_inv_def step_ok_def)
  moreover note own = own_step [OF wf s(1)] and pre = predecessors_done [OF inv refl]
  ultimately show ?thesis
    using lk ty s(2) e(1) t(1) input_resolves [OF inv s(1,2), of "t_checkpoint t"]
    by (auto simp: wait_for_approval_def wait_body_def Let_def view_simps wait_step_row_def)
qed

text \<open>The result of a worker's loop, in the state it leaves behind.\<close>

definition handed_over :: "string \<Rightarrow> stop \<Rightarrow> db \<Rightarrow> bool" where
  "handed_over i why d \<longleftrightarrow>
     (\<exists>t. find_task i d = Some t \<and>
       (case why of
          NothingToDo \<Rightarrow> t_status t \<in> {StatusSucceeded, StatusFailed}
        | AttemptFailed \<Rightarrow> t_status t \<in> {StatusRetryWait, StatusFailed}
        | WaitingForApproval (Inr _) \<Rightarrow> t_status t = StatusWaitingApproval
        | WaitingForApproval (Inl x) \<Rightarrow> (\<exists>y. x = ErrResolve y)
        | StartRejected x \<Rightarrow> (\<exists>y. x = ErrResolve y)
        | _ \<Rightarrow> False))"

definition between_turns :: "time \<Rightarrow> lease_token \<Rightarrow> db \<Rightarrow> bool" where
  "between_turns X lease d \<longleftrightarrow> ready X lease d \<or>
     (\<exists>t. find_task (lt_task_id lease) d = Some t \<and> t_status t \<in> {StatusSucceeded, StatusFailed})"

lemma error_text_nonempty: "transport \<noteq> [] \<Longrightarrow> error_text transport x \<noteq> []"
  by (cases x) auto

lemma execute_output: "execute_step xe a opts = Inr (out, cp) \<Longrightarrow> json_valid out \<and> cp = raw_nil"
  using step_implementation.output_is_json [OF implementation_contract]
  by (auto simp: execute_step_def split: option.splits sum.splits)

lemma leave_status [simp]: "t_status (leave_running st r now t) = st"
  by (simp add: leave_running_def)

lemma succeeded_between:
  assumes wf: "wf_db d" and t: "find_task (lt_task_id lease) d = Some t" "held X lease t"
    and s: "find_step (lt_task_id lease) (at_step_id a) d = Some s" "s_index s = t_current_step t"
    and c: "finish_succeeded e lease (a\<lparr>at_max_attempts := m\<rparr>) out (s_index s) d = Commit d' r"
    and v: "raw_val (so_output out) = Some v"
  shows "between_turns X lease d'"
proof (cases "Suc (s_index s) = length (steps_of (lt_task_id lease) d)")
  case True
  with finish_succeeded_rows(3) [OF c t(1) v] show ?thesis by (simp add: between_turns_def)
next
  case False
  let ?i = "lt_task_id lease"
  note rows = finish_succeeded_rows(2,3) [OF c t(1) v]
  have inv: "steps_inv t (steps_of ?i d)" using wf_row [OF wf t(1)] by simp
  have mem: "s \<in> set (steps_of ?i d)" "at_step_id a = s_id s" using find_step_mem [OF s(1)] by auto
  have ix: "map s_index (steps_of ?i d) = [0..<length (steps_of ?i d)]" using inv by (simp add: steps_inv_def)
  from index_bound [OF ix mem(1)] False have "Suc (s_index s) < length (steps_of ?i d)" by simp
  from index_exists [OF ix this] obtain p where p: "p \<in> set (steps_of ?i d)" "s_index p = Suc (s_index s)" by blast
  have "step_inv t p" using inv p(1) by (simp add: steps_inv_def)
  then have pending: "s_status p = StepPending" using p(2) s(2) by (simp add: step_inv_def position_ok_def)
  have mem': "p \<in> set (steps_of ?i d')"
  proof -
    have "s_id p \<noteq> s_id s"
    proof
      assume "s_id p = s_id s"
      with own_step [OF wf p(1)] own_step [OF wf mem(1)] have "p = s" by (metis option.inject)
      then have "s_index p = s_index s" by (rule arg_cong)
      with p(2) show False by (metis n_not_Suc_n)
    qed
    with p(1) mem(2) show ?thesis unfolding rows(1) set_step_def set_map by (intro image_eqI [of _ _ p]) simp_all
  qed
  let ?t = "t\<lparr>t_current_step := Suc (s_index s),
      t_checkpoint := coalesce_checkpoint (so_checkpoint out) (t_checkpoint t), t_updated_at := clk e 3\<rparr>"
  have "find_task ?i d' = Some ?t" using rows(2) False by simp
  moreover have "held X lease ?t" using t(2) by (simp add: held_def)
  moreover have "s_index p = t_current_step ?t" "s_status p \<noteq> StepRunning" using p(2) pending by simp_all
  ultimately show ?thesis using mem' unfolding between_turns_def ready_def by blast
qed

lemma finish_held:
  assumes wf: "wf_db d" and t: "find_task (lt_task_id lease) d = Some t" "held X lease t"
    and s: "find_step (lt_task_id lease) (at_step_id a) d = Some s" "s_status s = StepRunning"
      "s_attempt s = at_attempt a" "s_index s = t_current_step t"
    and h: "healthy X tn" and res: "res = execute_step xe a opts"
  shows "\<exists>d' r. finish_turn lease tn a res d = (d', r) \<and>
    (case r of Continue \<Rightarrow> between_turns X lease d' | Stop why \<Rightarrow> handed_over (lt_task_id lease) why d')"
proof -
  let ?i = "lt_task_id lease" and ?e = "tn_finish tn" and ?out = "outcome_of (tn_transport tn) res"
  have e: "fault ?e = NoFault" "clk ?e 0 < X" "tn_transport tn \<noteq> []" using h by (auto simp: healthy_def)
  have run: "running_step ?e lease a d t s"
    using t s held_live [OF t(2) e(2)] by (auto simp: running_step_def held_def)
  show ?thesis
  proof (cases "so_error (limit_outcome ?out) = []")
    case False
    from finish_with_error [OF wf run e(1) False] obtain d' where
        f: "finish_step ?e lease a ?out d = (d', Inr ())"
        "\<exists>t'. find_task ?i d' = Some t' \<and> t_status t' \<in> {StatusRetryWait, StatusFailed} \<and>
          (so_failure_class ?out = NoClass \<longrightarrow> t_status t' = StatusFailed)"
      by (auto split: if_splits)
    show ?thesis
    proof (cases res)
      case (Inl x)
      with f show ?thesis by (auto simp: finish_turn_def handed_over_def)
    next
      case (Inr o')
      then have "so_failure_class ?out = NoClass" by (cases o') (simp add: outcome_of_def)
      with f Inr show ?thesis by (auto simp: finish_turn_def between_turns_def)
    qed
  next
    case True
    have err: "so_error (outcome_of (tn_transport tn) (Inl x)) \<noteq> []" for x
      using error_text_nonempty [OF e(3)] by (simp add: outcome_of_def)
    have keep: "so_error x \<noteq> [] \<Longrightarrow> so_error (limit_outcome x) \<noteq> []" for x :: step_outcome
      by (simp add: limit_outcome_def Let_def)
    from True err keep obtain out cp where r: "res = Inr (out, cp)" by (cases res) auto
    have o': "json_valid out" "cp = raw_nil" using execute_output r res by metis+
    then obtain v where v: "raw_val out = Some v" "0 < raw_len out" by (auto simp: json_valid_def)
    have out: "?out = \<lparr>so_output = out, so_checkpoint = raw_nil, so_error = [], so_failure_class = NoClass\<rparr>"
      by (simp add: r outcome_of_def o')
    have small: "raw_len out \<le> max_json_bytes"
      using True by (auto simp: out limit_outcome_def Let_def split: if_splits)
    then have lim: "limit_outcome ?out = ?out" by (simp add: small_outcome out)
    obtain d' where f: "finish_step ?e lease a ?out d = (d', Inr ())"
      using finish_with_output [OF wf run e(1), of ?out v None] v small by (auto simp: out)
    have ok: "finish_succeeded ?e lease (a\<lparr>at_max_attempts := s_max_attempts s\<rparr>) ?out (s_index s) d = Commit d' (Inr ())"
      using f running_finish [OF run, of ?out] True lim e(1) v
      by (auto simp: finish_step_def Let_def finish_succeeded_def out json_valid_def)
    have "between_turns X lease d'" by (rule succeeded_between [OF wf t s(1,4) ok]) (simp add: out v)
    with f r show ?thesis by (simp add: finish_turn_def)
  qed
qed

lemma nth_current:
  assumes "steps_inv t ss" "t_current_step t < length ss"
  shows "sort_key s_index ss ! t_current_step t \<in> set ss \<and> s_index (sort_key s_index ss ! t_current_step t) = t_current_step t"
proof -
  have ix: "map s_index ss = [0..<length ss]" using assms(1) by (simp add: steps_inv_def)
  then have "sort_key s_index ss = ss" by (intro sort_key_sorted) simp
  moreover have "s_index (ss ! t_current_step t) = map s_index ss ! t_current_step t" using assms(2) by simp
  ultimately show ?thesis using assms(2) unfolding ix by simp
qed

lemma healthy_turn:
  assumes wf: "wf_db d" and b: "between_turns X lease d" and h: "healthy X tn"
  shows "\<exists>d' r. execute_turn url lease tn d = (d', r) \<and> wf_db d' \<and>
    (case r of Continue \<Rightarrow> between_turns X lease d' | Stop why \<Rightarrow> handed_over (lt_task_id lease) why d')"
proof -
  let ?i = "lt_task_id lease"
  have u: "undisturbed tn" "tn_head tn = Live" "tn_after tn = Live" "fault (tn_load tn) = NoFault"
      "fault (tn_step tn) = NoFault" "clk (tn_step tn) 0 < X" "tn_others tn = (\<lambda>_ x. x)" "later (tn_load tn) = (\<lambda>x. x)"
    using h by (auto simp: healthy_def undisturbed_def)
  have wf': "wf_db (fst (execute_turn url lease tn d))"
    by (rule turn_wf [OF wf]) (simp add: others_ok_def u(7))
  from b obtain t where t: "find_task ?i d = Some t" by (auto simp: between_turns_def ready_def)
  have load: "load_claimed (tn_load tn) ?i d = Inr \<lparr>ld_task = t, ld_steps = sort_key s_index (steps_of ?i d)\<rparr>"
    using t u by (simp add: load_claimed_def load_task_def)
  note inv = wf_row [OF wf t, THEN conjunct1]
  have "\<exists>d' r. execute_turn url lease tn d = (d', r) \<and>
    (case r of Continue \<Rightarrow> between_turns X lease d' | Stop why \<Rightarrow> handed_over ?i why d')"
  proof (cases "t_status t = StatusRunning")
    case False
    then have "t_status t \<in> {StatusSucceeded, StatusFailed}" using b t by (auto simp: between_turns_def ready_def held_def)
    with load t u False show ?thesis by (auto simp: execute_turn_def handed_over_def)
  next
    case True
    with b t obtain s0 where held: "held X lease t" "s0 \<in> set (steps_of ?i d)" "s_index s0 = t_current_step t" "s_status s0 \<noteq> StepRunning"
      by (auto simp: between_turns_def ready_def)
    have cur: "t_current_step t < length (steps_of ?i d)" using steps_invD [OF inv held(2,3)] by simp
    let ?s = "sort_key s_index (steps_of ?i d) ! t_current_step t"
    note s = nth_current [OF inv cur]
    have "?s = s0"
      using index_inj [of "steps_of ?i d" s0 ?s] s held(2,3) inv by (auto simp: steps_inv_def)
    with held(4) have st: "s_status ?s \<noteq> StepRunning" by simp
    have turn: "execute_turn url lease tn d =
        (if s_type ?s = step_type_approval then approval_turn lease tn (s_id ?s) d else step_turn url lease tn (s_id ?s) d)"
      using load u cur True by (simp add: execute_turn_def Let_def)
    show ?thesis
    proof (cases "s_type ?s = step_type_approval")
      case ap: True
      from wait_held [OF wf t held(1) _ _ st ap u(5,6)] s show ?thesis
        unfolding turn using ap u t by (auto simp: approval_turn_def handed_over_def)
    next
      case ap: False
      from start_held [OF wf t held(1) s [THEN conjunct1] s [THEN conjunct2] st ap u(5,6)] show ?thesis
      proof (elim disjE exE conjE)
        fix x assume "start_step (tn_step tn) lease (s_id ?s) d = (d, Inl (ErrResolve x))"
        with t show ?thesis unfolding turn using ap by (auto simp: step_turn_def handed_over_def)
      next
        fix d1 a s' assume st1: "start_step (tn_step tn) lease (s_id ?s) d = (d1, Inr a)"
          and "find_task ?i d1 = Some t" "find_step ?i (at_step_id a) d1 = Some s'" "s_status s' = StepRunning"
            "s_attempt s' = at_attempt a" "s_index s' = t_current_step t"
        moreover have "wf_db d1" using perform_wf_simps(1) [OF wf, of "tn_step tn" lease "s_id ?s"] st1 by simp
        ultimately have "\<exists>d' r. finish_turn lease tn a (execute_step (tn_exec tn) a \<lparr>eo_fake_tool_url = url\<rparr>) d1 = (d', r) \<and>
            (case r of Continue \<Rightarrow> between_turns X lease d' | Stop why \<Rightarrow> handed_over ?i why d')"
          using finish_held [OF _ _ held(1) _ _ _ _ h refl] by blast
        then show ?thesis unfolding turn using ap st1 u by (simp add: step_turn_def)
      qed
    qed
  qed
  with wf' show ?thesis by (metis fst_conv)
qed

lemma healthy_loop:
  assumes "wf_db d" "between_turns X lease d" "list_all (healthy X) tns"
  shows "\<exists>d' why. execute_claim url lease tns d = (d', why) \<and> (why = OutOfTurns \<or> handed_over (lt_task_id lease) why d')"
  using assms
proof (induction tns arbitrary: d)
  case (Cons tn tns)
  from healthy_turn [OF Cons.prems(1,2), of tn url] Cons.prems(3) obtain d' r where
      r: "execute_turn url lease tn d = (d', r)" "wf_db d'"
        "case r of Continue \<Rightarrow> between_turns X lease d' | Stop why \<Rightarrow> handed_over (lt_task_id lease) why d'"
    by auto
  with Cons show ?case by (cases r) auto
qed simp

lemma recovered_current:
  assumes "recover_expired_task e tid i pw pv d = Recovered d'"
  shows "\<exists>s \<in> set (steps_of tid d'). s_index s = i \<and> s_status s \<noteq> StepRunning"
proof -
  let ?d1 = "insert_event (clk e 1) tid LEASE_EXPIRED
    (JObj [(''worker_id'', jopt pw), (''lease_version'', jnat pv)]) d"
  let ?g = "\<lambda>s. s\<lparr>s_status := StepFailed, s_error := Some ''worker_lost'', s_finished_at := Some (clk e 2)\<rparr>"
  from assms obtain s where s: "step_at tid i ?d1 = Some s"
    by (auto simp: recover_expired_task_def Let_def split: option.splits)
  have mem: "s \<in> set (steps_of tid d)" "s_index s = i" using step_at_mem [OF s] by (simp_all add: view_simps)
  show ?thesis
  proof (cases "s_status s = StepRunning")
    case True
    with assms s have "steps_of tid d' = set_step (s_id s) ?g (steps_of tid d)"
      by (auto simp: recover_expired_task_def Let_def view_simps split: if_splits)
    moreover have "?g s \<in> set (set_step (s_id s) ?g (steps_of tid d))"
      using mem(1) unfolding set_step_def set_map by (intro image_eqI [of _ _ s]) simp_all
    ultimately show ?thesis using mem(2) by (intro bexI [of _ "?g s"]) auto
  next
    case False
    with assms s have "steps_of tid d' = steps_of tid d"
      by (auto simp: recover_expired_task_def Let_def view_simps)
    with mem False show ?thesis by auto
  qed
qed

lemma claim_current:
  assumes wf: "wf_db d" and c: "claim_task st e w d = (d', Inr c)"
  shows "\<exists>t. find_task (lt_task_id (cl_token c)) d' = Some (assign_lease st e w t) \<and> c = claim_of w (assign_lease st e w t) \<and>
    \<not> t_cancel_requested t \<and> (\<exists>s \<in> set (steps_of (lt_task_id (cl_token c)) d'). s_index s = t_current_step t \<and> s_status s \<noteq> StepRunning)"
proof -
  from c have "run_tx e d (claim_body st e w d) = (d', Inr c)" by (auto simp: claim_task_def split: if_splits)
  from run_tx_Inr [OF this] have body: "claim_body st e w d = Commit d' (Inr c)"
    by (auto simp: claim_body_def finish_claim_def Let_def split: option.splits if_splits recovery.splits)
  then obtain t where cand: "claim_candidate e d = Some t" by (auto simp: claim_body_def split: option.splits)
  from claim_candidate_Some [OF cand] wf have t: "find_task (t_id t) d = Some t" "claimable (clk e 0) t"
    by (auto simp: wf_db_def intro: find_task_distinct)
  have "\<exists>d1. finish_claim st e w t d1 = Commit d' (Inr c) \<and> find_task (t_id t) d1 = Some t \<and>
      (\<exists>s \<in> set (steps_of (t_id t) d1). s_index s = t_current_step t \<and> s_status s \<noteq> StepRunning)"
  proof (cases "t_status t = StatusRunning")
    case True
    with body cand obtain d1 where r: "recover_expired_task e (t_id t) (t_current_step t) (t_worker_id t) (t_lease_version t) d = Recovered d1"
        "finish_claim st e w t d1 = Commit d' (Inr c)"
      by (auto simp: claim_body_def split: recovery.splits)
    with recovered_current [OF r(1)] recover_tasks [OF r(1), of "t_id t"] t(1) show ?thesis by auto
  next
    case False
    with t(2) have run: "t_status t = StatusRunnable" by (auto simp: claimable_def)
    note inv = wf_row [OF wf t(1), THEN conjunct1]
    have "t_current_step t < length (steps_of (t_id t) d)" "map s_index (steps_of (t_id t) d) = [0..<length (steps_of (t_id t) d)]"
      using inv run by (auto simp: steps_inv_def less_le)
    from index_exists [OF this(2,1)] obtain s where s: "s \<in> set (steps_of (t_id t) d)" "s_index s = t_current_step t" by blast
    then have "s_status s \<noteq> StepRunning"
      using inv run by (auto simp: steps_inv_def step_inv_def position_ok_def)
    with s t(1) body cand False show ?thesis by (auto simp: claim_body_def)
  qed
  then obtain d1 s where d1: "finish_claim st e w t d1 = Commit d' (Inr c)" "find_task (t_id t) d1 = Some t"
      "s \<in> set (steps_of (t_id t) d1)" "s_index s = t_current_step t" "s_status s \<noteq> StepRunning" by blast
  have cc: "c = claim_of w (assign_lease st e w t)" using d1(1) by (simp add: finish_claim_def Let_def)
  have "steps_of (t_id t) d' = steps_of (t_id t) d1"
    using d1(1) by (auto simp: finish_claim_def Let_def view_simps)
  with finish_claim_row [OF d1(1,2)] d1 cc t(2) show ?thesis
    by (intro exI [of _ t]) (auto simp: claim_of_def assign_lease_def claimable_def)
qed

lemma claim_ready:
  assumes "wf_db d" "claim_task st e w d = (d', Inr c)" "X \<le> cl_lease_expires_at c" "X \<le> cl_deadline_at c"
  shows "ready X (cl_token c) d'"
proof -
  from claim_current [OF assms(1,2)] obtain t s where t: "find_task (lt_task_id (cl_token c)) d' = Some (assign_lease st e w t)"
      "c = claim_of w (assign_lease st e w t)" "\<not> t_cancel_requested t"
      and s: "s \<in> set (steps_of (lt_task_id (cl_token c)) d')" "s_index s = t_current_step t" "s_status s \<noteq> StepRunning" by blast
  have "held X (cl_token c) (assign_lease st e w t)"
    using t(2,3) assms(3,4) by (simp add: held_def claim_of_def assign_lease_def)
  with t(1) s show ?thesis unfolding ready_def by (auto simp: assign_lease_def)
qed

text \<open>C8: A worker that claimed a task and is left alone until its lease and the task's deadline does
  not keep it: when its loop ends the task has SUCCEEDED, or an attempt failed and the task waits
  for its retry or has FAILED, or it waits for an approval; the only other end is a step whose
  references do not resolve.\<close>

theorem worker_hands_over:
  assumes "wf_db d" "claim_task st e w d = (d', Inr c)" "X \<le> cl_lease_expires_at c" "X \<le> cl_deadline_at c"
    and "list_all (healthy X) tns" "turns_left (lt_task_id (cl_token c)) d' \<le> length tns"
  shows "\<exists>d'' why. execute_claim url (cl_token c) tns d' = (d'', why) \<and> handed_over (lt_task_id (cl_token c)) why d''"
proof -
  have wf: "wf_db d'" using perform_wf_simps(6) [OF assms(1), of st e w] assms(2) by simp
  have "between_turns X (cl_token c) d'"
    using claim_ready [OF assms(1-4)] by (simp add: between_turns_def)
  from healthy_loop [OF wf this assms(5), of url] obtain d'' why where
      e: "execute_claim url (cl_token c) tns d' = (d'', why)" "why = OutOfTurns \<or> handed_over (lt_task_id (cl_token c)) why d''"
    by blast
  have "list_all undisturbed tns" using assms(5) by (auto simp: list_all_iff healthy_def)
  from loop_ends [OF wf this assms(6), of url] e show ?thesis by auto
qed

lemma turns_healthy: "list_all (healthy 30000000) [turn_at 200, turn_at 400, turn_at 600]"
  by (simp add: healthy_def undisturbed_def turn_at_def) (simp add: env_at_def)

lemma worker_hands_over_witness:
  "\<exists>d'' why. execute_claim [] tok [turn_at 200, turn_at 400, turn_at 600] (db_claimed ''echo'') = (d'', why) \<and> handed_over ''t'' why d''"
proof -
  have "turns_left ''t'' (db_claimed ''echo'') = 3" by code_simp
  with worker_hands_over [OF wf_scenario(1) run_claim _ _ turns_healthy, of "[]"] show ?thesis
    by (simp add: claim0_def tok_def del: execute_claim.simps)
qed

end
