(* ===== verification/Worker_Pipeline.thy ===== *)
theory Worker_Pipeline
  imports Worker_Progress
begin

text \<open>
  What a task computes: the reference definition that has neither leases nor attempts nor a
  database, and the proof that an undisturbed worker computes the same.
\<close>

section \<open>The reference definition\<close>

text \<open>
  The outputs of the steps, each from its input, the output of the step before and the
  checkpoint, in the environments of their executions; \<open>None\<close> when a step fails or its output is
  over the limit.
\<close>

fun pipeline :: "string \<Rightarrow> json \<Rightarrow> json option \<Rightarrow> step list \<Rightarrow> exec_env list \<Rightarrow> json list option" where
  "pipeline url checkpoint prev [] xes = Some []"
| "pipeline url checkpoint prev (s # ss) [] = None"
| "pipeline url checkpoint prev (s # ss) (xe # xes) =
     (case resolve_input (raw_of (s_input s)) (raw_column prev) (raw_of checkpoint) of
        Inl x \<Rightarrow> None
      | Inr r \<Rightarrow>
     (case raw_val r of
        None \<Rightarrow> None
      | Some v \<Rightarrow>
     (case execute_step xe (attempt_of s v) \<lparr>eo_fake_tool_url = url\<rparr> of
        Inl x \<Rightarrow> None
      | Inr (out, cp) \<Rightarrow>
          (if raw_len out > max_json_bytes then None
           else case raw_val out of
             None \<Rightarrow> None
           | Some w \<Rightarrow> map_option ((#) w) (pipeline url checkpoint (Some w) ss xes)))))"

lemma pipeline_step: "pipeline url c p (s # ss) (xe # xes) = Some ws \<longleftrightarrow>
    (\<exists>r v out cp w ws'. resolve_input (raw_of (s_input s)) (raw_column p) (raw_of c) = Inr r \<and> raw_val r = Some v \<and>
      execute_step xe (attempt_of s v) \<lparr>eo_fake_tool_url = url\<rparr> = Inr (out, cp) \<and> raw_len out \<le> max_json_bytes \<and>
      raw_val out = Some w \<and> pipeline url c (Some w) ss xes = Some ws' \<and> ws = w # ws')"
  by (auto split: sum.splits option.splits)

section \<open>One row of a list of steps\<close>

lemma set_step_update: "distinct (map s_id ss) \<Longrightarrow> k < length ss \<Longrightarrow> set_step (s_id (ss ! k)) g ss = ss[k := g (ss ! k)]"
  by (rule nth_equalityI) (auto simp: set_step_def nth_list_update nth_eq_iff_index_eq distinct_map inj_on_eq_iff)

lemma set_step_twice: "(\<And>s. s_id (f s) = s_id s) \<Longrightarrow> set_step sid g (set_step sid f ss) = set_step sid (\<lambda>s. g (f s)) ss"
  by (simp add: set_step_def)

lemma own_ids: "wf_db d \<Longrightarrow> distinct (map s_id (steps_of i d))"
  by (auto simp: wf_db_def steps_of_def intro: distinct_map_filter)

section \<open>One turn\<close>

text \<open>The row at the current position, and what its references resolve to.\<close>

lemma row_at_index: "map s_index ss = [0..<length ss] \<Longrightarrow> k < length ss \<Longrightarrow> s_index (ss ! k) = k"
  by (metis add_0 diff_zero length_map nth_map nth_upt)

lemma pending_resolves:
  assumes inv: "steps_inv t (steps_of i d)" and k: "k < length (steps_of i d)" "k = t_current_step t" "s = steps_of i d ! k"
    and "s_status s = StepPending"
    and r: "resolve_input (raw_of (s_input s)) (raw_column (if k = 0 then None else s_output (steps_of i d ! (k - 1)))) (raw_of c) = Inr r"
      "raw_val r = Some v"
  shows "resolved_input_of i s c d = Inr v"
proof -
  let ?ss = "steps_of i d"
  have ix: "map s_index ?ss = [0..<length ?ss]" using inv by (simp add: steps_inv_def)
  have s: "s_index s = k" "s \<in> set ?ss" using row_at_index [OF ix k(1)] k by simp_all
  have none: "s_resolved_input s = None"
    using inv s(2) assms(5) by (auto simp: steps_inv_def step_inv_def step_ok_def)
  show ?thesis
  proof (cases "k = 0")
    case True
    with none s(1) r show ?thesis by (simp add: resolved_input_of_def)
  next
    case False
    let ?p = "?ss ! (k - 1)" and ?P = "\<lambda>p. s_index p = k - 1 \<and> s_status p = StepSucceeded"
    have p: "s_index ?p = k - 1" "?p \<in> set ?ss" using row_at_index [OF ix, of "k - 1"] k(1) by simp_all
    then have "s_status ?p = StepSucceeded"
      using inv False k(2) by (auto simp: steps_inv_def step_inv_def position_ok_def)
    with p have "find ?P ?ss \<noteq> None" by (auto simp: find_None_iff)
    then obtain q where q: "find ?P ?ss = Some q" by blast
    then have "q \<in> set ?ss" "s_index q = k - 1" by (auto simp: find_Some_iff)
    with index_inj [OF ix p(2)] p(1) have "q = ?p" by simp
    with none s(1) r q False show ?thesis by (simp add: resolved_input_of_def)
  qed
qed

lemma pipeline_turn:
  assumes wf: "wf_db d" and t: "find_task (lt_task_id lease) d = Some t" "held X lease t"
    and k: "k = t_current_step t" "k < length (steps_of (lt_task_id lease) d)" "s = steps_of (lt_task_id lease) d ! k"
    and s: "s_status s = StepPending" "s_type s \<noteq> step_type_approval"
    and r: "resolved_input_of (lt_task_id lease) s (t_checkpoint t) d = Inr v"
    and x: "execute_step (tn_exec tn) (attempt_of s v) \<lparr>eo_fake_tool_url = url\<rparr> = Inr (out, cp)"
      "raw_len out \<le> max_json_bytes" "raw_val out = Some w"
    and h: "healthy X tn"
  shows "\<exists>d' t' s'. execute_turn url lease tn d = (d', Continue) \<and> wf_db d' \<and> find_task (lt_task_id lease) d' = Some t' \<and>
    t_checkpoint t' = t_checkpoint t \<and> steps_of (lt_task_id lease) d' = (steps_of (lt_task_id lease) d)[k := s'] \<and>
    s_output s' = Some w \<and>
    (if Suc k = length (steps_of (lt_task_id lease) d) then t_status t' = StatusSucceeded
     else held X lease t' \<and> t_current_step t' = Suc k)"
proof -
  let ?i = "lt_task_id lease" and ?e = "tn_finish tn" and ?a = "attempt_of s v"
  have u: "undisturbed tn" "tn_head tn = Live" "tn_after tn = Live" "fault (tn_load tn) = NoFault"
      "fault (tn_step tn) = NoFault" "clk (tn_step tn) 0 < X" "tn_others tn = (\<lambda>_ x. x)" "later (tn_load tn) = (\<lambda>x. x)"
      "fault ?e = NoFault" "clk ?e 0 < X"
    using h by (auto simp: healthy_def undisturbed_def)
  have wf': "wf_db (fst (execute_turn url lease tn d))"
    by (rule turn_wf [OF wf]) (simp add: others_ok_def u(7))
  note inv = wf_row [OF wf t(1), THEN conjunct1]
  have ix: "map s_index (steps_of ?i d) = [0..<length (steps_of ?i d)]" using inv by (simp add: steps_inv_def)
  have load: "load_claimed (tn_load tn) ?i d = Inr \<lparr>ld_task = t, ld_steps = steps_of ?i d\<rparr>"
    using t(1) u ix by (simp add: load_claimed_def load_task_def sort_key_sorted)
  have turn: "execute_turn url lease tn d = step_turn url lease tn (s_id s) d"
    using load u k t(2) s(2) by (simp add: execute_turn_def Let_def held_def)
  have mem: "s \<in> set (steps_of ?i d)" "s_index s = t_current_step t" using k row_at_index [OF ix k(2)] by simp_all
  have "s_status s \<noteq> StepRunning" using s(1) by simp
  from start_resolved [OF wf t mem this s(2) u(5,6) r] obtain d1 where
      d1: "start_step (tn_step tn) lease (s_id s) d = (d1, Inr ?a)" "find_task ?i d1 = Some t"
        "steps_of ?i d1 = set_step (s_id s) (start_step_row (clk (tn_step tn) 1) v) (steps_of ?i d)"
        "find_step ?i (s_id s) d1 = Some (start_step_row (clk (tn_step tn) 1) v s)" by blast
  let ?s1 = "start_step_row (clk (tn_step tn) 1) v s"
  have wf1: "wf_db d1" using perform_wf_simps(1) [OF wf, of "tn_step tn" lease "s_id s"] d1(1) by simp
  have run: "running_step ?e lease ?a d1 t ?s1"
    using d1 t mem(2) held_live [OF t(2) u(10)] by (auto simp: running_step_def held_def start_step_row_def attempt_of_def)
  have o': "json_valid out" "cp = raw_nil" using execute_output [OF x(1)] by simp_all
  then have len: "0 < raw_len out" by (auto simp: json_valid_def)
  let ?out = "\<lparr>so_output = out, so_checkpoint = raw_nil, so_error = [], so_failure_class = NoClass\<rparr>"
  have lim: "limit_outcome ?out = ?out" using x(2) by (simp add: small_outcome)
  obtain d' where f: "finish_step ?e lease ?a ?out d1 = (d', Inr ())"
    using finish_with_output [OF wf1 run u(9), of ?out w None] x(2,3) len by auto
  have ok: "finish_succeeded ?e lease (?a\<lparr>at_max_attempts := s_max_attempts ?s1\<rparr>) ?out (s_index ?s1) d1 = Commit d' (Inr ())"
    using f running_finish [OF run, of ?out] lim u(9) x(3) o'
    by (auto simp: finish_step_def Let_def finish_succeeded_def json_valid_def)
  have at: "at_step_id ?a = s_id s" "s_index ?s1 = k" using mem(2) k(1) by (simp_all add: attempt_of_def start_step_row_def)
  have n: "length (steps_of ?i d1) = length (steps_of ?i d)" by (simp add: d1(3) set_step_def)
  note rows = finish_succeeded_rows(2,3) [OF ok d1(2), of w, simplified, OF x(3)]
  let ?g = "\<lambda>x. succeed_step (clk ?e 1) w (start_step_row (clk (tn_step tn) 1) v x)"
  have "steps_of ?i d' = set_step (s_id s) (succeed_step (clk ?e 1) w) (steps_of ?i d1)"
    using rows(1) at(1) by simp
  also have "\<dots> = set_step (s_id s) ?g (steps_of ?i d)"
    unfolding d1(3) by (rule set_step_twice) (simp add: start_step_row_def)
  also have "\<dots> = (steps_of ?i d)[k := succeed_step (clk ?e 1) w ?s1]"
    unfolding k(3) by (rule set_step_update [OF own_ids [OF wf] k(2)])
  finally have "steps_of ?i d' = (steps_of ?i d)[k := succeed_step (clk ?e 1) w ?s1]" .
  moreover have "execute_turn url lease tn d = (d', Continue)"
    unfolding turn using d1(1) u x(1) f o' by (simp add: step_turn_def finish_turn_def outcome_of_def)
  moreover have "s_output (succeed_step (clk ?e 1) w ?s1) = Some w" by (simp add: succeed_step_def)
  moreover have "coalesce_checkpoint raw_nil (t_checkpoint t) = t_checkpoint t" by (simp add: coalesce_checkpoint_def)
  ultimately show ?thesis
    using rows(2) wf' t(2) n at(2) by (intro exI [of _ d']) (auto simp: held_def)
qed

section \<open>The whole task\<close>

lemma finished_turn:
  assumes "find_task (lt_task_id lease) d = Some t" "t_status t = StatusSucceeded" "healthy X tn"
  shows "execute_turn url lease tn d = (d, Stop NothingToDo)"
  using assms by (simp add: execute_turn_def load_claimed_def load_task_def healthy_def undisturbed_def)

lemma pipeline_loop:
  assumes "wf_db d" "find_task (lt_task_id lease) d = Some t" "held X lease t" "t_current_step t = k"
    and "k < length (steps_of (lt_task_id lease) d)"
    and "list_all (\<lambda>s. s_status s = StepPending \<and> s_type s \<noteq> step_type_approval) (drop k (steps_of (lt_task_id lease) d))"
    and "pipeline url (t_checkpoint t) (if k = 0 then None else s_output (steps_of (lt_task_id lease) d ! (k - 1)))
      (drop k (steps_of (lt_task_id lease) d)) (map tn_exec tns) = Some ws"
    and "list_all (healthy X) tns" "length (steps_of (lt_task_id lease) d) - k < length tns"
  shows "\<exists>d' t'. execute_claim url lease tns d = (d', NothingToDo) \<and> find_task (lt_task_id lease) d' = Some t' \<and>
    t_status t' = StatusSucceeded \<and> take k (steps_of (lt_task_id lease) d') = take k (steps_of (lt_task_id lease) d) \<and>
    map s_output (drop k (steps_of (lt_task_id lease) d')) = map Some ws"
  using assms
proof (induction tns arbitrary: d t k ws)
  case (Cons tn tns)
  let ?i = "lt_task_id lease" and ?ss = "steps_of (lt_task_id lease) d"
  let ?p = "if k = 0 then None else s_output (?ss ! (k - 1))"
  have dk: "drop k ?ss = ?ss ! k # drop (Suc k) ?ss" using Cons.prems(5) by (simp add: Cons_nth_drop_Suc)
  note inv = wf_row [OF Cons.prems(1,2), THEN conjunct1]
  from Cons.prems(7) obtain r v out cp w ws' where p: "resolve_input (raw_of (s_input (?ss ! k))) (raw_column ?p) (raw_of (t_checkpoint t)) = Inr r"
      "raw_val r = Some v" "execute_step (tn_exec tn) (attempt_of (?ss ! k) v) \<lparr>eo_fake_tool_url = url\<rparr> = Inr (out, cp)"
      "raw_len out \<le> max_json_bytes" "raw_val out = Some w"
      "pipeline url (t_checkpoint t) (Some w) (drop (Suc k) ?ss) (map tn_exec tns) = Some ws'" "ws = w # ws'"
    unfolding dk list.map pipeline_step by blast
  have s: "s_status (?ss ! k) = StepPending" "s_type (?ss ! k) \<noteq> step_type_approval" using Cons.prems(6) unfolding dk by simp_all
  have h: "healthy X tn" "list_all (healthy X) tns" using Cons.prems(8) by simp_all
  note r = pending_resolves [OF inv Cons.prems(5) Cons.prems(4) [symmetric] refl s(1) p(1,2)]
  from pipeline_turn [OF Cons.prems(1-3) Cons.prems(4) [symmetric] Cons.prems(5) refl s r p(3-5) h(1)] obtain d1 t1 s1 where
      e: "execute_turn url lease tn d = (d1, Continue)" "wf_db d1" "find_task ?i d1 = Some t1" "t_checkpoint t1 = t_checkpoint t"
        "steps_of ?i d1 = ?ss[k := s1]" "s_output s1 = Some w"
        "if Suc k = length ?ss then t_status t1 = StatusSucceeded else held X lease t1 \<and> t_current_step t1 = Suc k" by blast
  have n: "length (steps_of ?i d1) = length ?ss" by (simp add: e(5))
  show ?case
  proof (cases "Suc k = length ?ss")
    case True
    with p(6) have "ws' = []" by (cases tns) simp_all
    obtain tn2 rest where tns: "tns = tn2 # rest" using Cons.prems(9) True by (cases tns) simp_all
    with finished_turn [OF e(3) _, of X tn2 url] e(7) True h(2) have "execute_claim url lease tns d1 = (d1, NothingToDo)" by simp
    moreover have "drop k (steps_of ?i d1) = [s1]"
      using True by (simp add: e(5) drop_update_swap Cons_nth_drop_Suc [symmetric])
    ultimately show ?thesis using e True p(7) \<open>ws' = []\<close> by simp
  next
    case False
    with e(7) have t1: "held X lease t1" "t_current_step t1 = Suc k" by simp_all
    have k1: "Suc k < length (steps_of ?i d1)" using False Cons.prems(5) n by simp
    have rest: "drop (Suc k) (steps_of ?i d1) = drop (Suc k) ?ss" by (simp add: e(5))
    have p1: "pipeline url (t_checkpoint t1) (if Suc k = 0 then None else s_output (steps_of ?i d1 ! (Suc k - 1)))
        (drop (Suc k) (steps_of ?i d1)) (map tn_exec tns) = Some ws'"
      using p(6) Cons.prems(5) by (simp add: rest e(4) e(5,6))
    have "list_all (\<lambda>s. s_status s = StepPending \<and> s_type s \<noteq> step_type_approval) (drop (Suc k) (steps_of ?i d1))"
      using Cons.prems(6) unfolding rest dk by simp
    moreover have "length (steps_of ?i d1) - Suc k < length tns" using Cons.prems(9) k1 n by simp
    ultimately obtain d' t' where f: "execute_claim url lease tns d1 = (d', NothingToDo)" "find_task ?i d' = Some t'"
        "t_status t' = StatusSucceeded" "take (Suc k) (steps_of ?i d') = take (Suc k) (steps_of ?i d1)"
        "map s_output (drop (Suc k) (steps_of ?i d')) = map Some ws'"
      using Cons.IH [OF e(2,3) t1 k1 _ p1 h(2)] by blast
    have len: "Suc k \<le> length (steps_of ?i d')"
      using arg_cong [OF f(4), of length] k1 by (simp split: if_splits) 
    have "steps_of ?i d' ! k = steps_of ?i d1 ! k" using arg_cong [OF f(4), of "\<lambda>xs. xs ! k"] by simp
    then have "drop k (steps_of ?i d') = s1 # drop (Suc k) (steps_of ?i d')"
      using len Cons.prems(5) by (simp add: Cons_nth_drop_Suc [symmetric] e(5))
    moreover have "take k (steps_of ?i d') = take k (steps_of ?i d1)" using arg_cong [OF f(4), of "take k"] by (simp add: min_def)
    ultimately show ?thesis using e(1,5,6) f p(7) by simp
  qed
qed simp

text \<open>A claim of a task that is not running hands it out as it is.\<close>

lemma claim_keeps_rows:
  assumes wf: "wf_db d" and c: "claim_task st e w d = (d', Inr c)"
    and t: "find_task (lt_task_id (cl_token c)) d = Some t" "t_status t \<noteq> StatusRunning"
  shows "find_task (lt_task_id (cl_token c)) d' = Some (assign_lease st e w t) \<and>
    steps_of (lt_task_id (cl_token c)) d' = steps_of (lt_task_id (cl_token c)) d"
proof -
  from c have "run_tx e d (claim_body st e w d) = (d', Inr c)" by (auto simp: claim_task_def split: if_splits)
  from run_tx_Inr [OF this] have body: "claim_body st e w d = Commit d' (Inr c)"
    by (auto simp: claim_body_def finish_claim_def Let_def split: option.splits if_splits recovery.splits)
  then obtain t0 where cand: "claim_candidate e d = Some t0" by (auto simp: claim_body_def split: option.splits)
  from claim_candidate_Some [OF cand] wf have t0: "find_task (t_id t0) d = Some t0"
    by (auto simp: wf_db_def intro: find_task_distinct)
  have id: "lt_task_id (cl_token c) = t_id t0"
    using body cand by (auto simp: claim_body_def finish_claim_def Let_def claim_of_def assign_lease_def split: if_splits recovery.splits)
  with t t0 have "t = t0" by simp
  with t(2) body cand have fin: "finish_claim st e w t d = Commit d' (Inr c)" by (simp add: claim_body_def)
  then have "steps_of (t_id t) d' = steps_of (t_id t) d" by (auto simp: finish_claim_def Let_def view_simps)
  with finish_claim_row [OF fin] t0 id \<open>t = t0\<close> show ?thesis by simp
qed

text \<open>An undisturbed worker computes what the reference definition says.\<close>

lemma worker_computes:
  assumes "wf_db d" "claim_task st e w d = (d', Inr c)" "X \<le> cl_lease_expires_at c" "X \<le> cl_deadline_at c"
    and t: "find_task (lt_task_id (cl_token c)) d' = Some t"
    and pending: "list_all (\<lambda>s. s_status s = StepPending \<and> s_type s \<noteq> step_type_approval) (steps_of (lt_task_id (cl_token c)) d')"
    and "pipeline url (t_checkpoint t) None (steps_of (lt_task_id (cl_token c)) d') (map tn_exec tns) = Some ws"
    and "list_all (healthy X) tns" "length (steps_of (lt_task_id (cl_token c)) d') < length tns"
  shows "\<exists>d'' t'. execute_claim url (cl_token c) tns d' = (d'', NothingToDo) \<and> wf_db d'' \<and>
    find_task (lt_task_id (cl_token c)) d'' = Some t' \<and> t_status t' = StatusSucceeded \<and>
    map s_output (steps_of (lt_task_id (cl_token c)) d'') = map Some ws"
proof -
  let ?i = "lt_task_id (cl_token c)"
  have wf: "wf_db d'" using perform_wf_simps(6) [OF assms(1), of st e w] assms(2) by simp
  from claim_ready [OF assms(1-4)] t obtain s where s: "held X (cl_token c) t" "s \<in> set (steps_of ?i d')"
      "s_index s = t_current_step t" by (auto simp: ready_def)
  note inv = wf_row [OF wf t, THEN conjunct1]
  have cur: "t_current_step t < length (steps_of ?i d')" using steps_invD [OF inv s(2,3)] by simp
  have ix: "map s_index (steps_of ?i d') = [0..<length (steps_of ?i d')]" using inv by (simp add: steps_inv_def)
  have zero: "t_current_step t = 0"
  proof (rule ccontr)
    assume "t_current_step t \<noteq> 0"
    moreover have pos: "0 < length (steps_of ?i d')" by (rule le_less_trans [OF le0 cur])
    ultimately have "s_status (steps_of ?i d' ! 0) = StepSucceeded"
      using inv row_at_index [OF ix, of 0] by (auto simp: steps_inv_def step_inv_def position_ok_def)
    moreover have "s_status (steps_of ?i d' ! 0) = StepPending" using pending pos unfolding list_all_length by blast
    ultimately show False by simp
  qed
  have "list_all (others_ok) tns" using assms(8) by (auto simp: list_all_iff healthy_def undisturbed_def others_ok_def)
  then have "wf_db (fst (execute_claim url (cl_token c) tns d'))" using claim_wf [OF wf] by simp
  with pipeline_loop [OF wf t s(1) zero, of url tns ws] assms(7-9) pending cur zero show ?thesis by auto
qed

end
