(* ===== verification/Fake_Tool.thy ===== *)
theory Fake_Tool
  imports Executor
begin

text \<open>
  \<open>internal/faketool/handler.go\<close>: the tool the step type \<open>fake_tool\<close> calls. It applies the effect
  of an idempotency key once and answers every repetition with the first result.
\<close>

section \<open>The table of effects\<close>

record effect =
  ef_key :: string
  ef_payload :: json
  ef_result :: json
  ef_effect_count :: nat
  ef_request_count :: nat

interpretation effect_rows: keyed_table "row_at ef_key" "update_at ef_key" "insert_row ef_key" ef_key
  by (rule keyed_rows)

datatype tool_error = PayloadConflict | EffectDatabase

section \<open>record\<close>

text \<open>
  \<open>INSERT ... ON CONFLICT DO NOTHING\<close>, the count of a repeated request, the row as it then is and
  the comparison of its payload with the request's. A conflict leaves without COMMIT.
\<close>

definition record_body ::
  "string \<Rightarrow> json \<Rightarrow> json \<Rightarrow> effect list \<Rightarrow> tool_error + effect list \<times> effect \<times> bool" where
  "record_body key request_payload result rows =
     (let inserted = insert_row ef_key \<lparr>ef_key = key, ef_payload = request_payload, ef_result = result,
            ef_effect_count = 1, ef_request_count = 1\<rparr> rows;
          created = (inserted \<noteq> None);
          rows1 = (case inserted of
              Some rs \<Rightarrow> rs
            | None \<Rightarrow> update_at ef_key key (\<lambda>e. e\<lparr>ef_request_count := ef_request_count e + 1\<rparr>) rows)
      in case row_at ef_key key rows1 of
           None \<Rightarrow> Inl EffectDatabase
         | Some e \<Rightarrow>
             (if \<not> jsonb_eq (ef_payload e) request_payload then Inl PayloadConflict
              else Inr (rows1, e, created)))"

definition record_effect ::
  "fault \<Rightarrow> string \<Rightarrow> json \<Rightarrow> json \<Rightarrow> effect list \<Rightarrow> effect list \<times> (tool_error + effect \<times> bool)" where
  "record_effect f key request_payload result rows =
     (if f = StatementFails then (rows, Inl EffectDatabase)
      else case record_body key request_payload result rows of
        Inl x \<Rightarrow> (rows, Inl x)
      | Inr (rows1, e, created) \<Rightarrow>
          (case f of
             CommitRejected \<Rightarrow> (rows, Inl EffectDatabase)
           | CommitLost \<Rightarrow> (rows1, Inl EffectDatabase)
           | _ \<Rightarrow> (rows1, Inr (e, created))))"

section \<open>The handlers\<close>

definition max_payload_bytes :: nat where
  "max_payload_bytes = 1048576"

definition max_body_bytes :: nat where
  "max_body_bytes = max_payload_bytes + 4096"

text \<open>
  The body of a request is the length and the value of its first document; a payload is sent in
  its compact encoding. \<open>NoReply\<close> is a handler that waits until the client is gone.
\<close>

datatype tool_reply = ToolReply nat "json option" | NoReply

text \<open>The part of \<open>invoke\<close> before \<open>record\<close>: the status of a refused request, or its key, payload, value
  and whether the first response is to be held back.\<close>

definition parse_call :: "raw \<Rightarrow> nat + string \<times> json \<times> json \<times> bool" where
  "parse_call body =
     (case (if raw_len body > max_body_bytes then None else Option.bind (raw_val body) object_fields) of
        None \<Rightarrow> Inl 400
      | Some kvs \<Rightarrow>
     (case (string_field ''idempotency_key'' kvs, raw_field ''payload'' kvs) of
        (Some key, Some p) \<Rightarrow>
          (if \<not> known_fields [''idempotency_key'', ''payload''] kvs \<or> key = [] then Inl 400
           else if length (marshal p) > max_payload_bytes then Inl 413
           else (case object_fields p of
               None \<Rightarrow> Inl 400
             | Some ps \<Rightarrow>
                 (case (raw_field ''value'' ps, bool_field ''block_first_response'' ps) of
                    (Some v, Some b) \<Rightarrow> Inr (key, p, v, b)
                  | _ \<Rightarrow> Inl 400)))
      | _ \<Rightarrow> Inl 400))"

definition invoke :: "fault \<Rightarrow> raw \<Rightarrow> effect list \<Rightarrow> effect list \<times> tool_reply" where
  "invoke f body rows =
     (case parse_call body of
        Inl status \<Rightarrow> (rows, ToolReply status None)
      | Inr (key, p, v, block_first) \<Rightarrow>
          (case record_effect f key p (JObj [(''value'', v)]) rows of
             (rows1, Inl PayloadConflict) \<Rightarrow> (rows1, ToolReply 409 None)
           | (rows1, Inl EffectDatabase) \<Rightarrow> (rows1, ToolReply 500 None)
           | (rows1, Inr (e, created)) \<Rightarrow>
               (if created \<and> block_first then (rows1, NoReply)
                else (rows1, ToolReply 200 (Some (ef_result e))))))"

text \<open>The requests the tool serves, one after the other, and its replies.\<close>

fun invoke_all :: "(fault \<times> raw) list \<Rightarrow> effect list \<Rightarrow> effect list \<times> tool_reply list" where
  "invoke_all [] rows = (rows, [])"
| "invoke_all ((f, body) # calls) rows =
     (let (rows1, reply) = invoke f body rows; (rows2, replies) = invoke_all calls rows1
      in (rows2, reply # replies))"

definition get_effect :: "fault \<Rightarrow> string \<Rightarrow> effect list \<Rightarrow> nat \<times> effect option" where
  "get_effect f path_key rows =
     (if f = StatementFails then (500, None)
      else case row_at ef_key (trim_space path_key) rows of
        None \<Rightarrow> (404, None)
      | Some e \<Rightarrow> (200, Some e))"

text \<open>The routes \<open>New\<close> registers.\<close>

datatype tool_request = PostInvoke raw | GetEffect string | GetToolHealth

datatype tool_response = InvokeReply tool_reply | EffectReply nat "effect option" | HealthReply nat

fun serve_tool :: "fault \<Rightarrow> tool_request \<Rightarrow> effect list \<Rightarrow> effect list \<times> tool_response" where
  "serve_tool f (PostInvoke body) rows = (case invoke f body rows of (rows', r) \<Rightarrow> (rows', InvokeReply r))"
| "serve_tool f (GetEffect key) rows = (rows, case get_effect f key rows of (status, e) \<Rightarrow> EffectReply status e)"
| "serve_tool f GetToolHealth rows = (rows, HealthReply 204)"

section \<open>The contract of the ledger\<close>

text \<open>
  What a client that retries relies on: the first recorded request of a key fixes its payload and
  result, repetitions only count, another payload is refused.
\<close>

locale effect_ledger =
  fixes recordf :: "fault \<Rightarrow> string \<Rightarrow> json \<Rightarrow> json \<Rightarrow> 't \<Rightarrow> 't \<times> (tool_error + effect \<times> bool)"
    and look :: "string \<Rightarrow> 't \<Rightarrow> effect option"
  assumes first_fixes: "look k t = None \<Longrightarrow> look k (fst (recordf f k p r t)) = None \<or>
      look k (fst (recordf f k p r t)) =
        Some \<lparr>ef_key = k, ef_payload = p, ef_result = r, ef_effect_count = 1, ef_request_count = 1\<rparr>"
    and repeat_counts: "look k t = Some e \<Longrightarrow> \<exists>n \<ge> ef_request_count e.
      look k (fst (recordf f k p r t)) = Some (e\<lparr>ef_request_count := n\<rparr>)"
    and others_kept: "j \<noteq> k \<Longrightarrow> look j (fst (recordf f k p r t)) = look j t"
    and answer_is_row: "snd (recordf f k p r t) = Inr (e, c) \<Longrightarrow>
      look k (fst (recordf f k p r t)) = Some e \<and> jsonb_eq (ef_payload e) p"
begin

fun after :: "(fault \<times> string \<times> json \<times> json) list \<Rightarrow> 't \<Rightarrow> 't" where
  "after [] t = t"
| "after ((f, k, p, r) # cs) t = after cs (fst (recordf f k p r t))"

lemma effect_kept: "look k t = Some e \<Longrightarrow> \<exists>n. look k (after cs t) = Some (e\<lparr>ef_request_count := n\<rparr>)"
proof (induction cs arbitrary: t e)
  case (Cons call cs)
  obtain f k' p r where call: "call = (f, k', p, r)" by (cases call)
  have "\<exists>n. look k (fst (recordf f k' p r t)) = Some (e\<lparr>ef_request_count := n\<rparr>)"
    using repeat_counts [of k t e f p r] others_kept [of k k' f p r t] Cons.prems by (cases "k = k'") (auto intro: exI [of _ "ef_request_count e"])
  then obtain n where "look k (fst (recordf f k' p r t)) = Some (e\<lparr>ef_request_count := n\<rparr>)" by blast
  from Cons.IH [OF this] show ?case by (simp add: call)
next
  case Nil
  then have "look k (after [] t) = Some (e\<lparr>ef_request_count := ef_request_count e\<rparr>)" by simp
  then show ?case by blast
qed

lemma same_answers:
  assumes "snd (recordf f k p r t) = Inr (e, c)"
    and "snd (recordf f' k p' r' (after cs (fst (recordf f k p r t)))) = Inr (e', c')"
  shows "ef_result e' = ef_result e \<and> ef_payload e' = ef_payload e \<and> jsonb_eq p p' \<and>
    ef_effect_count e' = ef_effect_count e"
proof -
  from answer_is_row [OF assms(1)] have e: "look k (fst (recordf f k p r t)) = Some e" "jsonb_eq (ef_payload e) p"
    by auto
  from effect_kept [OF e(1)] obtain n where
      "look k (after cs (fst (recordf f k p r t))) = Some (e\<lparr>ef_request_count := n\<rparr>)" by blast
  from repeat_counts [OF this, of f' p' r'] answer_is_row [OF assms(2)] obtain m where
      "e' = e\<lparr>ef_request_count := n\<rparr>\<lparr>ef_request_count := m\<rparr>" "jsonb_eq (ef_payload e') p'" by auto
  moreover from this e(2) have "jsonb_eq p p'" using jsonb_eq_trans [OF jsonb_eq_sym [OF e(2)], of p'] by simp
  ultimately show ?thesis by simp
qed

lemma once: "look k t = None \<Longrightarrow> look k (after cs t) = Some e \<Longrightarrow> ef_effect_count e = 1"
proof (induction cs arbitrary: t)
  case (Cons call cs)
  obtain f k' p r where call: "call = (f, k', p, r)" by (cases call)
  show ?case
  proof (cases "look k (fst (recordf f k' p r t))")
    case None
    with Cons.IH [OF None] Cons.prems show ?thesis by (simp add: call)
  next
    case (Some e0)
    then have "k' = k" using others_kept [of k k' f p r t] Cons.prems(1) by auto
    with Some first_fixes [OF Cons.prems(1), of f p r] have "ef_effect_count e0 = 1" by auto
    with effect_kept [OF Some, of cs] Cons.prems(2) show ?thesis by (auto simp: call)
  qed
qed simp

end

lemma record_body_new: "row_at ef_key k rows = None \<Longrightarrow> record_body k p r rows =
    Inr (rows @ [\<lparr>ef_key = k, ef_payload = p, ef_result = r, ef_effect_count = 1, ef_request_count = 1\<rparr>],
      \<lparr>ef_key = k, ef_payload = p, ef_result = r, ef_effect_count = 1, ef_request_count = 1\<rparr>, True)"
  by (simp add: record_body_def insert_row_def row_at_append row_at_single Let_def)

lemma record_body_old: "row_at ef_key k rows = Some e \<Longrightarrow> record_body k p r rows =
    (if jsonb_eq (ef_payload e) p
     then Inr (update_at ef_key k (\<lambda>e. e\<lparr>ef_request_count := ef_request_count e + 1\<rparr>) rows,
       e\<lparr>ef_request_count := ef_request_count e + 1\<rparr>, False)
     else Inl PayloadConflict)"
  by (simp add: record_body_def insert_row_def row_at_update Let_def)

interpretation tool: effect_ledger record_effect "row_at ef_key"
proof
  fix k f p r and t :: "effect list"
  assume "row_at ef_key k t = None"
  then show "row_at ef_key k (fst (record_effect f k p r t)) = None \<or> row_at ef_key k (fst (record_effect f k p r t)) =
      Some \<lparr>ef_key = k, ef_payload = p, ef_result = r, ef_effect_count = 1, ef_request_count = 1\<rparr>"
    by (cases f) (auto simp: record_effect_def record_body_new row_at_append row_at_single)
next
  fix k e f p r and t :: "effect list"
  assume e: "row_at ef_key k t = Some e"
  have "\<exists>n \<ge> ef_request_count e. e = e\<lparr>ef_request_count := n\<rparr>" by (intro exI [of _ "ef_request_count e"]) simp
  moreover have "\<exists>n \<ge> ef_request_count e. e\<lparr>ef_request_count := Suc (ef_request_count e)\<rparr> = e\<lparr>ef_request_count := n\<rparr>"
    by (intro exI [of _ "Suc (ef_request_count e)"]) simp
  ultimately show "\<exists>n \<ge> ef_request_count e. row_at ef_key k (fst (record_effect f k p r t)) = Some (e\<lparr>ef_request_count := n\<rparr>)"
    using e by (cases f) (auto simp: record_effect_def record_body_old row_at_update)
next
  fix j k :: string and f p r and t :: "effect list"
  assume "j \<noteq> k"
  then show "row_at ef_key j (fst (record_effect f k p r t)) = row_at ef_key j t"
    by (cases f; cases "row_at ef_key k t")
      (auto simp: record_effect_def record_body_new record_body_old row_at_append row_at_single row_at_update
        split: option.splits)
next
  fix f k p r e c and t :: "effect list"
  assume a: "snd (record_effect f k p r t) = Inr (e, c)"
  show "row_at ef_key k (fst (record_effect f k p r t)) = Some e \<and> jsonb_eq (ef_payload e) p"
  proof (cases "row_at ef_key k t")
    case None
    with a show ?thesis
      by (cases f) (auto simp: record_effect_def record_body_new row_at_append row_at_single)
  next
    case (Some e0)
    with a show ?thesis
      by (cases f) (auto simp: record_effect_def record_body_old row_at_update split: if_splits)
  qed
qed


section \<open>What a client that repeats its requests sees\<close>

definition call_key :: "raw \<Rightarrow> string option" where
  "call_key body = (case parse_call body of Inl status \<Rightarrow> None | Inr (k, p, v, b) \<Rightarrow> Some k)"

fun recorded :: "(fault \<times> raw) list \<Rightarrow> (fault \<times> string \<times> json \<times> json) list" where
  "recorded [] = []"
| "recorded ((f, body) # calls) =
     (case parse_call body of
        Inl status \<Rightarrow> recorded calls
      | Inr (k, p, v, b) \<Rightarrow> (f, k, p, JObj [(''value'', v)]) # recorded calls)"

lemma invoke_rows: "fst (invoke f body rows) =
    (case parse_call body of
       Inl status \<Rightarrow> rows
     | Inr (k, p, v, b) \<Rightarrow> fst (record_effect f k p (JObj [(''value'', v)]) rows))"
  by (auto simp: invoke_def split: sum.splits prod.splits tool_error.splits)

lemma invoke_all_rows: "fst (invoke_all calls rows) = tool.after (recorded calls) rows"
proof (induction calls arbitrary: rows)
  case (Cons c calls)
  obtain f body where c: "c = (f, body)" by (cases c)
  from Cons.IH show ?case using invoke_rows [of f body rows]
    by (auto simp: c split: prod.splits sum.splits) (metis fst_conv)+
qed simp

lemma invoke_200: "snd (invoke f body rows) = ToolReply 200 (Some x) \<Longrightarrow> call_key body = Some k \<Longrightarrow>
    \<exists>e. row_at ef_key k (fst (invoke f body rows)) = Some e \<and> ef_result e = x"
proof -
  assume r: "snd (invoke f body rows) = ToolReply 200 (Some x)" and k: "call_key body = Some k"
  then obtain p v b where p: "parse_call body = Inr (k, p, v, b)"
    by (auto simp: call_key_def split: sum.splits prod.splits)
  with r obtain e c where e: "snd (record_effect f k p (JObj [(''value'', v)]) rows) = Inr (e, c)" "ef_result e = x"
    by (auto simp: invoke_def split: sum.splits prod.splits tool_error.splits if_splits)
  from tool.answer_is_row [OF e(1)] e(2) p show ?thesis by (auto simp: invoke_rows)
qed

lemma reply_is_final: "invoke_all calls rows = (rows', replies) \<Longrightarrow> i < length calls \<Longrightarrow>
    call_key (snd (calls ! i)) = Some k \<Longrightarrow> replies ! i = ToolReply 200 (Some x) \<Longrightarrow>
    \<exists>e. row_at ef_key k rows' = Some e \<and> ef_result e = x"
proof (induction calls arbitrary: rows rows' replies i)
  case (Cons c calls)
  obtain f body where c: "c = (f, body)" by (cases c)
  obtain rows1 reply where one: "invoke f body rows = (rows1, reply)" by (cases "invoke f body rows")
  obtain rs where rest: "invoke_all calls rows1 = (rows', rs)" "replies = reply # rs"
    using Cons.prems(1) by (auto simp: c one split: prod.splits)
  show ?case
  proof (cases i)
    case 0
    with Cons.prems c one rest invoke_200 [of f body rows x k]
    obtain e where e: "row_at ef_key k rows1 = Some e" "ef_result e = x" by auto
    from tool.effect_kept [OF e(1), of "recorded calls"] invoke_all_rows [of calls rows1] rest(1) e(2)
    show ?thesis by auto
  next
    case (Suc j)
    with Cons.prems rest Cons.IH [OF rest(1), of j] show ?thesis by simp
  qed
qed simp

text \<open>C24: However often, in whatever order and with whatever failures a key is invoked, its effect is
  applied once, and every request that is answered with a result is answered with the same one.\<close>

theorem effect_applied_once:
  assumes "row_at ef_key k rows = None" "invoke_all calls rows = (rows', replies)"
    and "i < length calls" "call_key (snd (calls ! i)) = Some k" "replies ! i = ToolReply 200 (Some x)"
    and "j < length calls" "call_key (snd (calls ! j)) = Some k" "replies ! j = ToolReply 200 (Some y)"
  shows "x = y \<and> (\<exists>e. row_at ef_key k rows' = Some e \<and> ef_effect_count e = 1 \<and> ef_result e = x)"
proof -
  from reply_is_final [OF assms(2-5)] obtain e where e: "row_at ef_key k rows' = Some e" "ef_result e = x" by blast
  moreover have "ef_effect_count e = 1"
    using tool.once [OF assms(1), of "recorded calls" e] invoke_all_rows [of calls rows] assms(2) e(1) by simp
  ultimately show ?thesis using reply_is_final [OF assms(2) assms(6-8)] by auto
qed

text \<open>The request the executor sends, when it is within the limits.\<close>

lemma call_fields: "fold_name ''payload'' \<noteq> fold_name ''idempotency_key''"
  by code_simp

lemma parse_small_call:
  assumes "raw_val body = Some (JObj [(''idempotency_key'', JStr key), (''payload'', JObj ps)])"
    and "raw_len body \<le> max_body_bytes" "key \<noteq> []" "length (marshal (JObj ps)) \<le> max_payload_bytes"
  shows "parse_call body =
    (case (raw_field ''value'' ps, bool_field ''block_first_response'' ps) of
       (Some v, Some b) \<Rightarrow> Inr (key, JObj ps, v, b)
     | _ \<Rightarrow> Inl 400)"
proof -
  let ?kvs = "[(''idempotency_key'', JStr key), (''payload'', JObj ps)]"
  have "string_field ''idempotency_key'' ?kvs = Some key" "raw_field ''payload'' ?kvs = Some (JObj ps)"
    "known_fields [''idempotency_key'', ''payload''] ?kvs"
    using call_fields by (simp_all add: string_field_def raw_field_def matching_def known_fields_def)
  then show ?thesis using assms unfolding parse_call_def by simp
qed

definition tool_call :: "string \<Rightarrow> int \<Rightarrow> raw" where
  "tool_call key n = raw_of (JObj [(''idempotency_key'', JStr key), (''payload'', JObj [(''value'', JNum n 0)])])"

lemma call_lengths: "length (marshal (JObj [(''value'', JNum 7 0)])) = 11" "length (marshal (JObj [(''value'', JNum 8 0)])) = 11"
    "raw_len (tool_call ''t:a'' 7) = 47" "raw_len (tool_call ''t:a'' 8) = 47"
  by code_simp+

lemma value_fields: "raw_field ''value'' [(''value'', JNum n 0)] = Some (JNum n 0)"
    "bool_field ''block_first_response'' [(''value'', JNum n 0)] = Some False"
proof -
  have "fold_name ''value'' \<noteq> fold_name ''block_first_response''" by code_simp
  then show "raw_field ''value'' [(''value'', JNum n 0)] = Some (JNum n 0)"
      "bool_field ''block_first_response'' [(''value'', JNum n 0)] = Some False"
    by (simp_all add: raw_field_def bool_field_def matching_def)
qed

lemma call_parses:
  "parse_call (tool_call ''t:a'' 7) = Inr (''t:a'', JObj [(''value'', JNum 7 0)], JNum 7 0, False)"
  "parse_call (tool_call ''t:a'' 8) = Inr (''t:a'', JObj [(''value'', JNum 8 0)], JNum 8 0, False)"
proof -
  have v: "raw_val (tool_call k n) = Some (JObj [(''idempotency_key'', JStr k), (''payload'', JObj [(''value'', JNum n 0)])])"
    for k n by (simp add: tool_call_def)
  show "parse_call (tool_call ''t:a'' 7) = Inr (''t:a'', JObj [(''value'', JNum 7 0)], JNum 7 0, False)"
    using parse_small_call [OF v [of "''t:a''" 7]] by (simp del: marshal.simps add: call_lengths max_body_bytes_def max_payload_bytes_def value_fields)
  show "parse_call (tool_call ''t:a'' 8) = Inr (''t:a'', JObj [(''value'', JNum 8 0)], JNum 8 0, False)"
    using parse_small_call [OF v [of "''t:a''" 8]] by (simp del: marshal.simps add: call_lengths max_body_bytes_def max_payload_bytes_def value_fields)
qed

lemma payloads_differ: "\<not> jsonb_eq (JObj [(''value'', JNum 7 0)]) (JObj [(''value'', JNum 8 0)])"
  by code_simp

lemma tool_replies: "snd (invoke_all [(CommitLost, tool_call ''t:a'' 7), (NoFault, tool_call ''t:a'' 7),
      (NoFault, tool_call ''t:a'' 8), (NoFault, tool_call ''t:a'' 7)] []) =
    [ToolReply 500 None, ToolReply 200 (Some (JObj [(''value'', JNum 7 0)])), ToolReply 409 None,
     ToolReply 200 (Some (JObj [(''value'', JNum 7 0)]))]"
  by (simp add: invoke_def call_parses record_effect_def record_body_def insert_row_def row_at_def update_at_def
      payloads_differ Let_def)

lemma effect_applied_once_witness:
  "\<exists>e. row_at ef_key ''t:a'' (fst (invoke_all [(CommitLost, tool_call ''t:a'' 7), (NoFault, tool_call ''t:a'' 7),
      (NoFault, tool_call ''t:a'' 8), (NoFault, tool_call ''t:a'' 7)] [])) = Some e \<and> ef_effect_count e = 1"
proof -
  let ?cs = "[(CommitLost, tool_call ''t:a'' 7), (NoFault, tool_call ''t:a'' 7),
      (NoFault, tool_call ''t:a'' 8), (NoFault, tool_call ''t:a'' 7)]"
  obtain rows' replies where run: "invoke_all ?cs [] = (rows', replies)" by fastforce
  with tool_replies have "replies = [ToolReply 500 None, ToolReply 200 (Some (JObj [(''value'', JNum 7 0)])),
      ToolReply 409 None, ToolReply 200 (Some (JObj [(''value'', JNum 7 0)]))]" by (metis snd_conv)
  with effect_applied_once [of "''t:a''" "[]", OF _ run, of 1 _ 3]
  have "\<exists>e. row_at ef_key ''t:a'' rows' = Some e \<and> ef_effect_count e = 1" by (auto simp: row_at_def call_key_def call_parses)
  then show ?thesis by (simp only: run fst_conv)
qed

text \<open>A repeated request with the payload of the first one answers the first result and only counts
  the request; with another payload it is refused and leaves no trace.\<close>

theorem repeated_invocation:
  assumes "parse_call body = Inr (k, p, v, block_first)" "row_at ef_key k rows = Some e"
  shows "invoke NoFault body rows =
    (if jsonb_eq (ef_payload e) p
     then (update_at ef_key k (\<lambda>e. e\<lparr>ef_request_count := ef_request_count e + 1\<rparr>) rows,
           ToolReply 200 (Some (ef_result e)))
     else (rows, ToolReply 409 None))"
  using assms by (simp add: invoke_def record_effect_def record_body_old)

lemma repeated_invocation_witness:
  "snd (invoke NoFault (tool_call ''t:a'' 8)
      [\<lparr>ef_key = ''t:a'', ef_payload = JObj [(''value'', JNum 7 0)], ef_result = JObj [(''value'', JNum 7 0)],
        ef_effect_count = 1, ef_request_count = 1\<rparr>]) = ToolReply 409 None"
proof -
  from payloads_differ repeated_invocation [OF call_parses(2), of "[\<lparr>ef_key = ''t:a'', ef_payload = JObj [(''value'', JNum 7 0)],
        ef_result = JObj [(''value'', JNum 7 0)], ef_effect_count = 1, ef_request_count = 1\<rparr>]"]
  show ?thesis by (simp add: row_at_def)
qed

end
