(* ===== verification/Migrations.thy ===== *)
theory Migrations
  imports Prelude "HOL-Library.Multiset"
begin

text \<open>
  \<open>internal/migrations/migrations.go\<close>: the scripts embedded in the program are applied in the order
  of their names, up to the first that fails. The embedded files and the execution of a script by
  the database are parameters: \<open>glob\<close> lists the names, \<open>read\<close> gives a script, \<open>exec\<close> the database after
  it and whether it succeeded.
\<close>

datatype migration_error = ListFailed | ReadFailed string | ApplyFailed string

fun apply_migrations ::
  "(string \<Rightarrow> string option) \<Rightarrow> (string \<Rightarrow> 's \<Rightarrow> 's \<times> bool) \<Rightarrow> string list \<Rightarrow> 's \<Rightarrow> 's \<times> (migration_error + unit)" where
  "apply_migrations read exec [] s = (s, Inr ())"
| "apply_migrations read exec (name # names) s =
     (case read name of
        None \<Rightarrow> (s, Inl (ReadFailed name))
      | Some script \<Rightarrow>
          (case exec script s of
             (s', False) \<Rightarrow> (s', Inl (ApplyFailed name))
           | (s', True) \<Rightarrow> apply_migrations read exec names s'))"

definition run_migrations ::
  "string list option \<Rightarrow> (string \<Rightarrow> string option) \<Rightarrow> (string \<Rightarrow> 's \<Rightarrow> 's \<times> bool) \<Rightarrow> 's \<Rightarrow> 's \<times> (migration_error + unit)" where
  "run_migrations glob read exec s =
     (case glob of
        None \<Rightarrow> (s, Inl ListFailed)
      | Some entries \<Rightarrow> apply_migrations read exec (sort entries) s)"

text \<open>The order in which the file system lists the scripts does not matter.\<close>

lemma listing_order: "mset xs = mset ys \<Longrightarrow> run_migrations (Some xs) read exec s = run_migrations (Some ys) read exec s"
proof -
  assume "mset xs = mset ys"
  then have "sort xs = sort ys" by (intro properties_for_sort) simp_all
  then show ?thesis by (simp add: run_migrations_def)
qed

text \<open>A successful run has applied every script, each to the result of the ones before it.\<close>

lemma apply_migrations_Inr: "apply_migrations read exec names s = (s', Inr ()) \<Longrightarrow>
    list_all (\<lambda>n. read n \<noteq> None) names \<and> s' = fold (\<lambda>n x. fst (exec (the (read n)) x)) names s"
  by (induction names arbitrary: s) (auto split: option.splits prod.splits bool.splits)

text \<open>A failed run has applied the scripts before the one it names, and none after it.\<close>

lemma apply_migrations_Inl: "apply_migrations read exec names s = (s', Inl (ApplyFailed n)) \<Longrightarrow>
    \<exists>before rest. names = before @ n # rest \<and> (\<exists>script x. read n = Some script \<and>
      apply_migrations read exec before s = (x, Inr ()) \<and> exec script x = (s', False))"
proof (induction names arbitrary: s)
  case (Cons m names)
  then obtain script x ok where r: "read m = Some script" "exec script s = (x, ok)"
    by (cases "read m"; cases "exec (the (read m)) s") auto
  show ?case
  proof (cases ok)
    case True
    with r Cons.prems Cons.IH [of x] obtain before rest where "names = before @ n # rest"
        "\<exists>script y. read n = Some script \<and> apply_migrations read exec before x = (y, Inr ()) \<and> exec script y = (s', False)"
      by auto
    with r True show ?thesis by (intro exI [of _ "m # before"] exI [of _ rest]) simp
  next
    case False
    with r Cons.prems show ?thesis by (intro exI [of _ "[]"] exI [of _ names]) simp
  qed
qed simp

text \<open>Run a second time over scripts that change nothing once they are applied, nothing changes.\<close>

lemma settled_run: "list_all (\<lambda>n. \<exists>script. read n = Some script \<and> exec script s = (s, True)) names \<Longrightarrow>
    apply_migrations read exec names s = (s, Inr ())"
  by (induction names) auto

end
