(* ===== verification/Commands.thy ===== *)
theory Commands
  imports Config Worker Scheduler Api Fake_Tool Migrations
begin

text \<open>
  The programs under \<open>cmd/\<close>: each reads its settings, opens the database, runs its component until
  its context ends or it fails, and exits with 2 for an invalid setting, 1 for a failure, 0
  otherwise. What the operating system decides is a parameter: whether a database opens and
  answers under its URL, whether a server listens on its address and how it ends.
\<close>

section \<open>The surroundings of a process\<close>

record host =
  ho_opens :: "string \<Rightarrow> bool"
  ho_pings :: "string \<Rightarrow> bool"
  ho_serves :: "string \<Rightarrow> bool"

text \<open>
  \<open>pgxpool.New\<close> refuses a URL it cannot read, \<open>Ping\<close> fails when no server answers. Nothing is done to
  the database before.
\<close>

definition reaches :: "host \<Rightarrow> string \<Rightarrow> bool" where
  "reaches h url \<longleftrightarrow> ho_opens h url \<and> ho_pings h url"

section \<open>The worker\<close>

definition worker_options_of :: "worker_settings \<Rightarrow> worker_options" where
  "worker_options_of ws =
     \<lparr>wo_worker_id = ws_worker_id ws, wo_concurrency = ws_concurrency ws,
      wo_poll_interval = ws_poll_interval ws, wo_heartbeat_interval = ws_heartbeat_interval ws,
      wo_cancellation_interval = ws_cancellation_interval ws, wo_fake_tool_url = ws_fake_tool_url ws\<rparr>"

definition worker_main :: "environment \<Rightarrow> worker_flags \<Rightarrow> host \<Rightarrow> slot_round list \<Rightarrow> db \<Rightarrow> db \<times> nat" where
  "worker_main getenv flags h rds d =
     (case worker_settings_of getenv flags of
        Inl x \<Rightarrow> (d, 2)
      | Inr ws \<Rightarrow>
          (if \<not> reaches h (ws_database_url ws) then (d, 1)
           else case run_worker (new_store (ws_lease_duration ws)) (new_worker (worker_options_of ws)) rds d of
             Inl x \<Rightarrow> (d, 1)
           | Inr d' \<Rightarrow> (d', 0)))"

section \<open>The scheduler\<close>

definition scheduler_main ::
  "environment \<Rightarrow> host \<Rightarrow> (env list \<times> (db \<Rightarrow> db)) list \<Rightarrow> db \<Rightarrow> db \<times> nat" where
  "scheduler_main getenv h polls d =
     (case scheduler_poll_interval_of getenv of
        Inl x \<Rightarrow> (d, 2)
      | Inr poll_interval \<Rightarrow>
          (if \<not> reaches h (database_url_of getenv) then (d, 1)
           else (run_scheduler polls d, 0)))"

section \<open>The servers\<close>

text \<open>
  \<open>ListenAndServe\<close> fails at once when the address cannot be listened on, and returns
  \<open>ErrServerClosed\<close> after \<open>Shutdown\<close>. Between two requests others act.
\<close>

fun serve_all ::
  "(env \<times> (nat \<Rightarrow> err + string) \<times> request \<times> (db \<Rightarrow> db)) list \<Rightarrow> db \<Rightarrow> db \<times> response list" where
  "serve_all [] d = (d, [])"
| "serve_all ((e, new_id, rq, others) # rqs) d =
     (let (d1, r) = serve (database_store e new_id) rq (others d); (d2, rs) = serve_all rqs d1 in (d2, r # rs))"

definition api_main ::
  "environment \<Rightarrow> host \<Rightarrow> (env \<times> (nat \<Rightarrow> err + string) \<times> request \<times> (db \<Rightarrow> db)) list \<Rightarrow> db \<Rightarrow> db \<times> nat" where
  "api_main getenv h rqs d =
     (if \<not> reaches h (database_url_of getenv) then (d, 1)
      else if \<not> ho_serves h (api_address_of getenv) then (d, 1)
      else (fst (serve_all rqs d), 0))"

fun serve_tools :: "(fault \<times> tool_request) list \<Rightarrow> effect list \<Rightarrow> effect list \<times> tool_response list" where
  "serve_tools [] rows = (rows, [])"
| "serve_tools ((f, rq) # rqs) rows =
     (let (rows1, r) = serve_tool f rq rows; (rows2, rs) = serve_tools rqs rows1 in (rows2, r # rs))"

definition fake_tool_main :: "environment \<Rightarrow> host \<Rightarrow> (fault \<times> tool_request) list \<Rightarrow> effect list \<Rightarrow> effect list \<times> nat" where
  "fake_tool_main getenv h rqs rows =
     (if \<not> reaches h (database_url_of getenv) then (rows, 1)
      else if \<not> ho_serves h (fake_tool_address_of getenv) then (rows, 1)
      else (fst (serve_tools rqs rows), 0))"

section \<open>The migration\<close>

text \<open>It does not ping: an unreachable database shows when the first script is applied.\<close>

definition migrate_main ::
  "environment \<Rightarrow> host \<Rightarrow> string list option \<Rightarrow> (string \<Rightarrow> string option) \<Rightarrow> (string \<Rightarrow> 's \<Rightarrow> 's \<times> bool) \<Rightarrow> 's \<Rightarrow> 's \<times> nat" where
  "migrate_main getenv h glob read exec s =
     (if \<not> ho_opens h (database_url_of getenv) then (s, 1)
      else case run_migrations glob read exec s of
        (s', Inl x) \<Rightarrow> (s', 1)
      | (s', Inr _) \<Rightarrow> (s', 0))"

section \<open>Starting\<close>

lemma settings_valid: "worker_settings_of getenv flags = Inr ws \<Longrightarrow>
    ws_worker_id ws \<noteq> [] \<and> 0 < ws_concurrency ws \<and> 0 < ws_heartbeat_interval ws \<and>
    ws_heartbeat_interval ws < ws_lease_duration ws \<and> 0 < ws_poll_interval ws \<and> 0 < ws_cancellation_interval ws"
  using settings_range by blast

text \<open>The options \<open>main\<close> passes are the ones the worker runs with: no default of \<open>New\<close> replaces them.\<close>

lemma options_kept: "worker_settings_of getenv flags = Inr ws \<Longrightarrow>
    new_worker (worker_options_of ws) = worker_options_of ws \<and>
    st_lease_duration (new_store (ws_lease_duration ws)) = ws_lease_duration ws"
  using settings_valid [of getenv flags ws]
  by (auto simp: new_worker_def worker_options_of_def positive_or_def new_store_def)

text \<open>
  The exit codes of the worker: 2 exactly for settings it refuses, 1 exactly for a database it
  cannot reach, in both cases without a step; otherwise its slots have run.
\<close>

lemma worker_exit: "worker_main getenv flags h rds d =
    (case worker_settings_of getenv flags of
       Inl x \<Rightarrow> (d, 2)
     | Inr ws \<Rightarrow>
         (if reaches h (ws_database_url ws)
          then (run_slot (new_store (ws_lease_duration ws)) (worker_options_of ws) rds d, 0) else (d, 1)))"
  using options_kept settings_valid
  by (auto simp: worker_main_def run_worker_def worker_options_of_def split: sum.splits)

text \<open>C39: The exit code of a worker process says what it did: 2 when a setting is missing, unreadable or
  out of range, 1 when its database cannot be reached, both without a change of the database, and 0
  after its slots ran with the configured lease and options; then it has an id, at least one
  slot, positive intervals and a heartbeat shorter than its lease.\<close>

theorem worker_process_exits:
  assumes "worker_main getenv flags h rds d = (d', code)"
  shows "code \<in> {0, 1, 2} \<and> (code \<noteq> 0 \<longrightarrow> d' = d) \<and>
    (code = 2 \<longleftrightarrow> (\<forall>ws. worker_settings_of getenv flags \<noteq> Inr ws)) \<and>
    (code = 0 \<longrightarrow> (\<exists>ws. worker_settings_of getenv flags = Inr ws \<and> reaches h (ws_database_url ws) \<and>
       ws_worker_id ws \<noteq> [] \<and> 0 < ws_concurrency ws \<and> 0 < ws_heartbeat_interval ws \<and>
       ws_heartbeat_interval ws < ws_lease_duration ws \<and> 0 < ws_poll_interval ws \<and> 0 < ws_cancellation_interval ws \<and>
       d' = run_slot (new_store (ws_lease_duration ws)) (worker_options_of ws) rds d))"
proof (cases "worker_settings_of getenv flags")
  case (Inr ws)
  with assms worker_exit [of getenv flags h rds d] settings_valid [OF Inr] show ?thesis
    by (auto split: if_splits)
qed (use assms worker_exit [of getenv flags h rds d] in auto)

definition plain_host :: "bool \<Rightarrow> host" where
  "plain_host up = \<lparr>ho_opens = (\<lambda>_. True), ho_pings = (\<lambda>_. up), ho_serves = (\<lambda>_. True)\<rparr>"

lemma worker_process_exits_witness:
  "\<exists>d' code. worker_main (\<lambda>name. if name = ''RUNSTATE_LEASE_DURATION'' then ''5s'' else [])
      \<lparr>wf_id = Some ''w'', wf_concurrency = None\<rparr> (plain_host True) [] empty_db = (d', code) \<and> code = 2 \<and> d' = empty_db"
proof -
  let ?g = "\<lambda>name. if name = ''RUNSTATE_LEASE_DURATION'' then ''5s'' else ([] :: string)"
  let ?f = "\<lparr>wf_id = Some ''w'', wf_concurrency = None\<rparr>"
  obtain d' code where m: "worker_main ?g ?f (plain_host True) [] empty_db = (d', code)" by fastforce
  have "(case worker_settings_of ?g ?f of Inl x \<Rightarrow> True | Inr ws \<Rightarrow> False)" by code_simp
  then have "\<forall>ws. worker_settings_of ?g ?f \<noteq> Inr ws" by (auto split: sum.splits)
  with worker_process_exits [OF m] m show ?thesis by auto
qed

text \<open>A server or the scheduler that does not start leaves the database alone, too.\<close>

lemma other_exits:
  "api_main getenv h rqs d = (d', code) \<Longrightarrow> code \<noteq> 0 \<Longrightarrow> d' = d"
  "scheduler_main getenv h polls d = (d', code) \<Longrightarrow> code \<noteq> 0 \<Longrightarrow> d' = d"
  "fake_tool_main getenv h calls rows = (rows', code) \<Longrightarrow> code \<noteq> 0 \<Longrightarrow> rows' = rows"
  by (auto simp: api_main_def scheduler_main_def fake_tool_main_def split: if_splits sum.splits)

lemma migrate_exit: "migrate_main getenv h (Some names) read exec s = (s', 0) \<Longrightarrow>
    s' = fold (\<lambda>n x. fst (exec (the (read n)) x)) (sort names) s"
  by (auto simp: migrate_main_def run_migrations_def dest: apply_migrations_Inr split: if_splits prod.splits sum.splits)

end
