(* ===== verification/Worker_Monitor.thy ===== *)
theory Worker_Monitor
  imports Worker_Theorems
begin

text \<open>
  The monitor beside the executing loop: it delivers a requested cancellation and keeps the lease.
\<close>

section \<open>The monitor\<close>

lemma cancelled_by_owner:
  assumes "find_task (lt_task_id lease) d = Some t" "t_cancel_requested t" "live_lease (clk e 0) t lease" "fault e = NoFault"
  shows "find_task (lt_task_id lease) (cancel_claim e lease d) = Some (leave_running StatusCancelled None (clk e 4) t)"
proof -
  obtain lk where lk: "lock_task (clk e 0) d (lt_task_id lease) = Inr lk" "lk_status lk = t_status t"
      "lk_cancel_requested lk = t_cancel_requested t" "lk_current_step lk = t_current_step t"
    using assms(1) by (auto simp: lock_task_def)
  moreover have "owns_active_lease lk lease" using owns_active_lease_row [OF lk(1) assms(1)] assms(3) by simp
  moreover have "t_status t \<noteq> StatusCancelled" using assms(3) by (auto simp: live_lease_def)
  ultimately show ?thesis
    using assms by (simp add: cancel_claim_def cancel_owned_task_def cancel_owned_body_def finish_controlled_task_def
        finish_controlled_step_def cancelled_outcome_def Let_def view_simps leave_running_def split: option.splits)
qed

text \<open>C19: A requested cancellation reaches the task: at its next tick, of either ticker, the monitor of
  the worker that holds the lease ends the task as CANCELLED and stops.\<close>

theorem cancellation_delivered:
  assumes "find_task (lt_task_id lease) d = Some t" "t_cancel_requested t"
    and "tick \<in> {HeartbeatTick e control, CancellationTick e control}"
    and "live_lease (clk e 0) t lease" "live_lease (clk control 0) t lease" "fault e = NoFault" "fault control = NoFault"
  shows "\<exists>d' why. monitor_tick st lease tick d = (d', Some why) \<and> why \<in> {HeartbeatStopped ErrCancelled, CancellationSeen} \<and>
    find_task (lt_task_id lease) d' = Some (leave_running StatusCancelled None (clk control 4) t)"
proof -
  obtain lk where lk: "lock_task (clk e 0) d (lt_task_id lease) = Inr lk" "lk_cancel_requested lk"
    using assms(1,2) by (auto simp: lock_task_def)
  have own: "owns_active_lease lk lease" using owns_active_lease_row [OF lk(1) assms(1)] assms(4) by simp
  have "renew_lease st e lease d = (d, Inl ErrCancelled)" "cancellation_requested e lease d = Inr True"
    using lk own assms(6)
    by (simp_all add: renew_lease_def renew_body_def lock_owned_task_def validate_ownership_def cancellation_requested_def)
  with cancelled_by_owner [OF assms(1,2,5,7)] assms(3) show ?thesis by auto
qed

lemma requested_task: "map_option (\<lambda>t. (t_cancel_requested t, t_status t, t_worker_id t, t_lease_version t, t_lease_expires_at t))
    (find_task ''t'' db_requested) = Some (True, StatusRunning, Some ''w'', 1, Some 30000107)"
  by code_simp

lemma cancellation_delivered_witness:
  "\<exists>d' why. monitor_tick st0 tok (CancellationTick (env_at 500) (env_at 520)) db_requested = (d', Some why) \<and>
    map_option t_status (find_task ''t'' d') = Some StatusCancelled"
proof -
  obtain t where t: "find_task ''t'' db_requested = Some t" "t_cancel_requested t" "t_status t = StatusRunning"
      "t_worker_id t = Some ''w''" "t_lease_version t = 1" "t_lease_expires_at t = Some 30000107"
    using requested_task by auto
  then have "live_lease 500 t tok" "live_lease 520 t tok" by (simp_all add: live_lease_def tok_def)
  moreover have "fault (env_at n) = NoFault" for n by (simp add: env_at_def)
  moreover have "lt_task_id tok = ''t''" by (simp add: tok_def)
  ultimately obtain d' why where "monitor_tick st0 tok (CancellationTick (env_at 500) (env_at 520)) db_requested = (d', Some why)"
      "find_task ''t'' d' = Some (leave_running StatusCancelled None (clk (env_at 520) 4) t)"
    using cancellation_delivered [of tok db_requested t "CancellationTick (env_at 500) (env_at 520)" "env_at 500" "env_at 520" st0] t(1,2)
    by (auto simp del: monitor_tick.simps)
  then show ?thesis by (auto simp: leave_running_def)
qed

text \<open>
  Ticks that come in time: each, of either ticker, before the lease the heartbeat before it left
  ends, and none refused by a failure of the database. \<open>lease_end\<close> is what the last one leaves.
\<close>

fun in_time :: "store \<Rightarrow> time \<Rightarrow> (tick \<times> (db \<Rightarrow> db)) list \<Rightarrow> bool" where
  "in_time st x [] = True"
| "in_time st x ((HeartbeatTick e control, others) # ts) =
     (fault e = NoFault \<and> clk e 0 < x \<and> in_time st (clk e 1 + lease_microseconds st) ts)"
| "in_time st x ((CancellationTick e control, others) # ts) = (fault e = NoFault \<and> clk e 0 < x \<and> in_time st x ts)"
| "in_time st x ((ContextDone, others) # ts) = False"

fun lease_end :: "store \<Rightarrow> time \<Rightarrow> (tick \<times> (db \<Rightarrow> db)) list \<Rightarrow> time" where
  "lease_end st x [] = x"
| "lease_end st x ((HeartbeatTick e control, others) # ts) = lease_end st (clk e 1 + lease_microseconds st) ts"
| "lease_end st x (t # ts) = lease_end st x ts"

text \<open>The heartbeats that begin before \<open>y\<close>, the deadline of the task.\<close>

fun beats_before :: "time \<Rightarrow> (tick \<times> (db \<Rightarrow> db)) list \<Rightarrow> bool" where
  "beats_before y [] = True"
| "beats_before y ((HeartbeatTick e control, others) # ts) = (clk e 0 < y \<and> beats_before y ts)"
| "beats_before y (t # ts) = beats_before y ts"

text \<open>
  What the monitor needs of a task: that it is RUNNING for this lease and nobody asked to cancel
  it. Between two ticks others commit what they like, the loop its steps, as long as they leave
  these columns alone.
\<close>

definition claim_part :: "string \<Rightarrow> db \<Rightarrow> (task_status \<times> string option \<times> nat \<times> time option \<times> bool \<times> time option) option" where
  "claim_part i d = map_option (\<lambda>t. (t_status t, t_worker_id t, t_lease_version t, t_lease_expires_at t,
     t_cancel_requested t, t_deadline_at t)) (find_task i d)"

fun left_alone :: "store \<Rightarrow> lease_token \<Rightarrow> (tick \<times> (db \<Rightarrow> db)) list \<Rightarrow> db \<Rightarrow> bool" where
  "left_alone st lease [] d = True"
| "left_alone st lease ((tick, others) # ts) d =
     (claim_part (lt_task_id lease) (others d) = claim_part (lt_task_id lease) d \<and>
      left_alone st lease ts (fst (monitor_tick st lease tick (others d))))"

text \<open>One tick on a task that is this worker's: the heartbeat moves the end of the lease, the poll nothing.\<close>

abbreviation held_until :: "lease_token \<Rightarrow> time \<Rightarrow> time option \<Rightarrow> db \<Rightarrow> bool" where
  "held_until lease x dl d \<equiv> claim_part (lt_task_id lease) d =
     Some (StatusRunning, Some (lt_worker_id lease), lt_lease_version lease, Some x, False, dl)"

lemma held_until_row: "held_until lease x dl d \<Longrightarrow> \<exists>t. find_task (lt_task_id lease) d = Some t \<and> t_status t = StatusRunning \<and>
    t_worker_id t = Some (lt_worker_id lease) \<and> t_lease_version t = lt_lease_version lease \<and>
    t_lease_expires_at t = Some x \<and> \<not> t_cancel_requested t \<and> t_deadline_at t = dl"
  by (auto simp: claim_part_def)

lemma beat_keeps:
  assumes "held_until lease x dl d" "fault e = NoFault" "clk e 0 < x" "\<And>y. dl = Some y \<Longrightarrow> clk e 0 < y"
  shows "\<exists>d'. monitor_tick st lease (HeartbeatTick e control) d = (d', None) \<and>
    held_until lease (clk e 1 + lease_microseconds st) dl d'"
proof -
  let ?f = "\<lambda>t. t\<lparr>t_lease_expires_at := Some (clk e 1 + lease_microseconds st), t_updated_at := clk e 2\<rparr>"
  from held_until_row [OF assms(1)] obtain t where t: "find_task (lt_task_id lease) d = Some t" "t_status t = StatusRunning"
      "t_worker_id t = Some (lt_worker_id lease)" "t_lease_version t = lt_lease_version lease"
      "t_lease_expires_at t = Some x" "\<not> t_cancel_requested t" "t_deadline_at t = dl"
    by blast
  then have "live_lease (clk e 0) t lease" "\<not> overdue (clk e 0) t"
    using assms(3,4) by (auto simp: live_lease_def overdue_def)
  with t obtain lk where "lock_owned_task (clk e 0) d lease = Inr lk"
    by (auto simp: lock_owned_Inr lock_task_Inr)
  then have "renew_lease st e lease d = (update_task (lt_task_id lease) ?f d, Inr ())"
    using assms(2) by (simp add: renew_lease_def renew_body_def)
  with t show ?thesis by (simp add: claim_part_def view_simps)
qed

lemma poll_keeps:
  assumes "held_until lease x dl d" "fault e = NoFault" "clk e 0 < x"
  shows "monitor_tick st lease (CancellationTick e control) d = (d, None)"
proof -
  from held_until_row [OF assms(1)] obtain t where t: "find_task (lt_task_id lease) d = Some t" "t_status t = StatusRunning"
      "t_worker_id t = Some (lt_worker_id lease)" "t_lease_version t = lt_lease_version lease"
      "t_lease_expires_at t = Some x" "\<not> t_cancel_requested t" by blast
  obtain lk where lk: "lock_task (clk e 0) d (lt_task_id lease) = Inr lk" "lk_cancel_requested lk = t_cancel_requested t"
    using t(1) by (auto simp: lock_task_def)
  have "live_lease (clk e 0) t lease" using t assms(3) by (auto simp: live_lease_def)
  then have "owns_active_lease lk lease" using owns_active_lease_row [OF lk(1) t(1)] by simp
  with lk t(6) assms(2) show ?thesis by (simp add: cancellation_requested_def)
qed

text \<open>
  The heartbeat keeps the lease: as long as each tick comes before the lease ends and each
  heartbeat before the deadline, the monitor goes on, the task keeps its owner and its version, and
  the lease ends one duration after the last heartbeat.
\<close>

lemma heartbeats_keep_lease:
  assumes "held_until lease x dl d" "in_time st x ts" "\<And>y. dl = Some y \<Longrightarrow> beats_before y ts" "left_alone st lease ts d"
  shows "\<exists>d'. monitor_control st lease ts d = (d', MonitorDone) \<and> held_until lease (lease_end st x ts) dl d'"
  using assms
proof (induction ts arbitrary: d x)
  case (Cons tk ts)
  obtain tick others where tk: "tk = (tick, others)" by (cases tk)
  from Cons.prems(1,4) tk have own: "held_until lease x dl (others d)" by simp
  show ?case
  proof (cases tick)
    case (HeartbeatTick e control)
    with Cons.prems(2,3) tk have "fault e = NoFault" "clk e 0 < x" "\<And>y. dl = Some y \<Longrightarrow> clk e 0 < y" by auto
    from beat_keeps [OF own this, of st control] obtain d' where
        d': "monitor_tick st lease (HeartbeatTick e control) (others d) = (d', None)"
        "held_until lease (clk e 1 + lease_microseconds st) dl d'" by blast
    with Cons.IH [OF d'(2)] Cons.prems tk HeartbeatTick show ?thesis by (simp del: monitor_tick.simps)
  next
    case (CancellationTick e control)
    with Cons.prems(2) tk have "fault e = NoFault" "clk e 0 < x" by auto
    from poll_keeps [OF own this, of st control] Cons.IH [OF own] Cons.prems tk CancellationTick
    show ?thesis by (simp del: monitor_tick.simps)
  qed (use Cons.prems(2) tk in simp)
qed simp

end
