(* ===== verification/Worker_Process.thy ===== *)
theory Worker_Process
  imports Commands Worker_Progress Worker_Monitor
begin

text \<open>
  A worker as it is configured: the lease of the store, the heartbeat of the monitor and the check
  of the settings together keep a claimed task in its hands.
\<close>

text \<open>
  The tickers of the monitor. Times are nanoseconds on the database's clock, which the timers of the
  process follow and whose readings are in whole microseconds, rounded down. The heartbeat ticker
  fires at \<open>T\<close>, \<open>T + h\<close>, \<open>T + 2 * h\<close>, ...; the monitor handles each tick in turn: it renews the
  lease after the tick and reads the clock for it at most \<open>D\<close> after the tick. Polls for a
  cancellation come between, none later than the heartbeat that is due next may come. Every call
  gets its answer.
\<close>

fun on_ticks :: "int \<Rightarrow> int \<Rightarrow> int \<Rightarrow> (tick \<times> (db \<Rightarrow> db)) list \<Rightarrow> bool" where
  "on_ticks h D T [] = True"
| "on_ticks h D T ((HeartbeatTick e control, others) # ts) =
     (fault e = NoFault \<and> T < 1000 * (clk e 1 + 1) \<and> 1000 * clk e 0 \<le> T + D \<and> on_ticks h D (T + h) ts)"
| "on_ticks h D T ((CancellationTick e control, others) # ts) =
     (fault e = NoFault \<and> 1000 * clk e 0 \<le> T + D \<and> on_ticks h D T ts)"
| "on_ticks h D T ((tick.ContextDone, others) # ts) = False"

text \<open>When the heartbeat after these ticks fires.\<close>

fun next_beat :: "int \<Rightarrow> int \<Rightarrow> (tick \<times> (db \<Rightarrow> db)) list \<Rightarrow> int" where
  "next_beat h T [] = T"
| "next_beat h T ((HeartbeatTick e control, others) # ts) = next_beat h (T + h) ts"
| "next_beat h T (t # ts) = next_beat h T ts"

lemma ticks_in_time: "on_ticks h D T ts \<Longrightarrow> T + D < 1000 * x \<Longrightarrow> h + D + 2000 \<le> 1000 * lease_microseconds st + 999 \<Longrightarrow>
    in_time st x ts \<and> next_beat h T ts + D < 1000 * lease_end st x ts"
proof (induction h D T ts arbitrary: x rule: on_ticks.induct)
  case (2 h D T e control others ts)
  have now: "clk e 0 < x" using 2(2,3) by simp
  have slack: "T + h + D < 1000 * (clk e 1 + lease_microseconds st)" using 2(2,4) by simp
  from 2(1) [OF _ slack 2(4)] 2(2) now show ?case by simp
next
  case (3 h D T e control others ts)
  have now: "clk e 0 < x" using 3(2,3) by simp
  from 3(1) [OF _ 3(3,4)] 3(2) now show ?case by simp
qed simp_all

text \<open>C25: With settings that leave the heartbeat enough slack a worker keeps the tasks it claims. The
  condition on the settings: the heartbeat interval, the time from the claim to the start of the
  ticker (\<open>C\<close>), the delay of the monitor behind its ticker (\<open>D\<close>) and two microseconds for the
  rounding fit in the lease. Then, as long as the database answers the monitor, each heartbeat comes
  before the task's deadline, and what the loop and other clients commit between the ticks leaves
  the task to this worker and is no request to cancel it, no tick comes too late: the monitor runs
  to the end of its context, the task stays RUNNING with this worker and this lease version, and
  its lease is live at every moment until the next heartbeat has been handled.\<close>

theorem configured_heartbeat_keeps_lease:
  assumes "worker_settings_of getenv flags = Inr ws" "st = new_store (ws_lease_duration ws)"
    and "ws_heartbeat_interval ws + C + D + 2000 \<le> ws_lease_duration ws" "0 \<le> C"
    and "wf_db d" "claim_task st e (ws_worker_id ws) d = (d', Inr c)"
    and "start \<le> 1000 * clk e 7 + C"
    and "on_ticks (ws_heartbeat_interval ws) D (start + ws_heartbeat_interval ws) ts"
    and "beats_before (cl_deadline_at c) ts" "left_alone st (cl_token c) ts d'"
  shows "\<exists>d'' t. monitor_control st (cl_token c) ts d' = (d'', MonitorDone) \<and>
    find_task (lt_task_id (cl_token c)) d'' = Some t \<and> \<not> t_cancel_requested t \<and>
    (\<forall>now. 1000 * now \<le> next_beat (ws_heartbeat_interval ws) (start + ws_heartbeat_interval ws) ts + D \<longrightarrow>
      live_lease now t (cl_token c))"
proof -
  let ?i = "lt_task_id (cl_token c)" and ?h = "ws_heartbeat_interval ws"
  have "st_lease_duration st = ws_lease_duration ws" using options_kept [OF assms(1)] assms(2) by simp
  then have L: "ws_lease_duration ws \<le> 1000 * lease_microseconds st + 999"
    by (simp add: lease_microseconds_def)
  from claim_current [OF assms(5,6)] obtain t where t: "find_task ?i d' = Some (assign_lease st e (ws_worker_id ws) t)"
      "c = claim_of (ws_worker_id ws) (assign_lease st e (ws_worker_id ws) t)" "\<not> t_cancel_requested t" by blast
  let ?t = "assign_lease st e (ws_worker_id ws) t" and ?x = "clk e 7 + lease_microseconds st"
  have own: "held_until (cl_token c) ?x (t_deadline_at ?t) d'"
    using t(2,3) t(1) by (simp add: claim_part_def assign_lease_def claim_of_def)
  have dl: "\<And>y. t_deadline_at ?t = Some y \<Longrightarrow> beats_before y ts"
    using assms(9) t(2) by (auto simp: assign_lease_def claim_of_def)
  have "start + ?h + D < 1000 * ?x" "?h + D + 2000 \<le> 1000 * lease_microseconds st + 999"
    using assms(3,4,7) L by simp_all
  from ticks_in_time [OF assms(8) this] have ticks: "in_time st ?x ts"
      "next_beat ?h (start + ?h) ts + D < 1000 * lease_end st ?x ts" by simp_all
  from heartbeats_keep_lease [OF own ticks(1) dl assms(10)] obtain d'' where
      d'': "monitor_control st (cl_token c) ts d' = (d'', MonitorDone)"
      "held_until (cl_token c) (lease_end st ?x ts) (t_deadline_at ?t) d''" by blast
  from held_until_row [OF d''(2)] obtain t' where t': "find_task ?i d'' = Some t'" "t_status t' = StatusRunning" "\<not> t_cancel_requested t'"
      "t_worker_id t' = Some (lt_worker_id (cl_token c))" "t_lease_version t' = lt_lease_version (cl_token c)"
      "t_lease_expires_at t' = Some (lease_end st ?x ts)" by blast
  have "live_lease now t' (cl_token c)" if "1000 * now \<le> next_beat ?h (start + ?h) ts + D" for now
    using that ticks(2) t' by (auto simp: live_lease_def)
  with d''(1) t' show ?thesis by blast
qed

text \<open>With the defaults of the settings, a 30 second lease and a 10 second heartbeat; the loop starts
  the step before the first beat.\<close>

definition default_flags :: worker_flags where
  "default_flags = \<lparr>wf_id = Some ''w'', wf_concurrency = None\<rparr>"

lemma default_settings: "case worker_settings_of (\<lambda>_. []) default_flags of Inl x \<Rightarrow> False
    | Inr ws \<Rightarrow> ws_worker_id ws = ''w'' \<and> ws_lease_duration ws = 30000000000 \<and> ws_heartbeat_interval ws = 10000000000"
  by code_simp

text \<open>The ticker starts 50 ms after the claim; the loop starts the step before the first heartbeat.\<close>

definition two_beats :: "(tick \<times> (db \<Rightarrow> db)) list" where
  "two_beats =
     [(CancellationTick (env_at 5050000) (env_at 5050000), \<lambda>_. db_started),
      (HeartbeatTick (env_at 10050110) (env_at 10050110), \<lambda>x. x),
      (HeartbeatTick (env_at 20050120) (env_at 20050120), \<lambda>x. x)]"

lemma two_beats_alone: "left_alone st0 tok two_beats (db_claimed ''echo'')"
  by code_simp

lemma configured_heartbeat_keeps_lease_witness:
  "\<exists>d t. monitor_control st0 tok two_beats (db_claimed ''echo'') = (d, MonitorDone) \<and>
    find_task ''t'' d = Some t \<and> live_lease 30050000 t tok"
proof -
  obtain ws where ws: "worker_settings_of (\<lambda>_. []) default_flags = Inr ws" "ws_worker_id ws = ''w''"
      "ws_lease_duration ws = 30000000000" "ws_heartbeat_interval ws = 10000000000"
    using default_settings by (auto split: sum.splits)
  have st: "st0 = new_store (ws_lease_duration ws)" unfolding ws st0_def by (simp add: new_store_def)
  have claim: "claim_task st0 (env_at 100) (ws_worker_id ws) (db_new ''echo'') = (db_claimed ''echo'', Inr claim0)"
    unfolding ws by (rule run_claim)
  have c: "cl_token claim0 = tok" "cl_deadline_at claim0 = 60000106" "lt_task_id tok = ''t''"
    by (simp_all add: claim0_def tok_def)
  note wf = wf_scenario(1)
  have slack: "ws_heartbeat_interval ws + 50000000 + 1000000 + 2000 \<le> ws_lease_duration ws" unfolding ws by simp
  have start: "50100000 \<le> 1000 * clk (env_at 100) 7 + (50000000::int)" by (simp add: env_at_def)
  have on: "on_ticks (ws_heartbeat_interval ws) 1000000 (50100000 + ws_heartbeat_interval ws) two_beats"
    unfolding ws two_beats_def by (simp add: env_at_def)
  have dl: "beats_before (cl_deadline_at claim0) two_beats" unfolding c two_beats_def by (simp add: env_at_def)
  have alone: "left_alone st0 (cl_token claim0) two_beats (db_claimed ''echo'')" unfolding c by (rule two_beats_alone)
  from configured_heartbeat_keeps_lease [OF ws(1) st slack _ wf claim start on dl alone] obtain d t where
      "monitor_control st0 (cl_token claim0) two_beats (db_claimed ''echo'') = (d, MonitorDone)"
      "find_task (lt_task_id (cl_token claim0)) d = Some t"
      "\<forall>now. 1000 * now \<le> next_beat (ws_heartbeat_interval ws) (50100000 + ws_heartbeat_interval ws) two_beats + 1000000 \<longrightarrow>
        live_lease now t (cl_token claim0)"
    by auto
  then show ?thesis unfolding c ws by (auto simp: two_beats_def)
qed

text \<open>The slack is not checked: the settings need a heartbeat below the lease only, and a lease below a
  microsecond is accepted and becomes a lease of no time, which ends when it is given.\<close>

definition tiny_lease :: environment where
  "tiny_lease name = (if name = ''RUNSTATE_LEASE_DURATION'' then ''500ns''
     else if name = ''RUNSTATE_HEARTBEAT_INTERVAL'' then ''100ns'' else [])"

lemma tiny_lease_accepted:
  "case worker_settings_of tiny_lease default_flags of Inl x \<Rightarrow> False
    | Inr ws \<Rightarrow> lease_microseconds (new_store (ws_lease_duration ws)) = 0"
  by code_simp

end
