(* ===== verification/Worker_Race.thy ===== *)
theory Worker_Race
  imports Worker_Theorems
begin

text \<open>
  The two goroutines of a claimed task, \<open>executeClaim\<close> and \<open>monitorControl\<close>, side by side: a small-step
  relation on the database, the state of the context they share, and the place each of them is at. The
  theory shows that once the context is over both end, and that what the loop does in any
  interleaving is what \<open>execute_claim\<close> of theory Worker does with the other's steps in between.
\<close>

section \<open>Places\<close>

text \<open>Where the loop stands: before a call or before it looks at the context. \<open>Leaving\<close> is the deferred
  function before \<open>cancelTask\<close>, \<open>Joining\<close> its wait for \<open>heartbeatDone\<close>.\<close>

datatype loop_at =
    AtHead
  | Loading
  | AskingApproval string
  | Asked "err + unit"
  | Starting string
  | Executing step_attempt
  | Executed step_attempt "exec_error + raw \<times> raw"
  | Finishing step_attempt "exec_error + raw \<times> raw"
  | TimingOut stop
  | Cancelling stop
  | Leaving stop
  | Joining stop
  | Returned stop

text \<open>The monitor: in its \<open>select\<close>, before \<open>cancelClaim\<close>, before \<open>cancel()\<close>, after its send to \<open>done\<close>.\<close>

datatype monitor_at =
    Selecting
  | CancellingFor monitor_end
  | Closing monitor_end
  | Closed monitor_end

record race =
  rc_db :: db
  rc_context :: context_state
  rc_loop :: loop_at
  rc_monitor :: monitor_at

record call =
  ca_env :: env
  ca_exec :: exec_env
  ca_transport :: string

text \<open>A call with a context that is over fails; \<open>FinishStep\<close> and the control calls have their own.\<close>

definition under :: "context_state \<Rightarrow> env \<Rightarrow> env" where
  "under ctx e = (if ctx = Live then e else e\<lparr>fault := StatementFails\<rparr>)"

definition cancel_context :: "context_state \<Rightarrow> context_state" where
  "cancel_context ctx = (if ctx = Live then Canceled else ctx)"

section \<open>The loop\<close>

definition loaded_place :: "loaded_task \<Rightarrow> loop_at" where
  "loaded_place ld =
     (if t_status (ld_task ld) \<noteq> StatusRunning \<or> t_current_step (ld_task ld) \<ge> length (ld_steps ld)
      then Leaving NothingToDo
      else let s = ld_steps ld ! t_current_step (ld_task ld)
           in if s_type s = step_type_approval then AskingApproval (s_id s) else Starting (s_id s))"

fun loop_act :: "string \<Rightarrow> lease_token \<Rightarrow> call \<Rightarrow> context_state \<Rightarrow> loop_at \<Rightarrow> db \<Rightarrow> (db \<times> loop_at) option" where
  "loop_act url lease c ctx AtHead d = Some (d, if ctx = Live then Loading else Leaving ContextOver)"
| "loop_act url lease c ctx Loading d =
     Some (d, case load_claimed (under ctx (ca_env c)) (lt_task_id lease) d of
         Inl x \<Rightarrow> Leaving (LoadFailed x)
       | Inr ld \<Rightarrow> loaded_place ld)"
| "loop_act url lease c ctx (AskingApproval sid) d =
     (let (d', r) = wait_for_approval (under ctx (ca_env c)) lease sid d in Some (d', Asked r))"
| "loop_act url lease c ctx (Asked r) d =
     Some (d,
       if r = Inl ErrCancelled then Cancelling (WaitingForApproval r)
       else if r = Inl ErrDeadlineExceeded \<or> ctx = DeadlineExceeded then TimingOut (WaitingForApproval r)
       else Leaving (WaitingForApproval r))"
| "loop_act url lease c ctx (Starting sid) d =
     (case start_step (under ctx (ca_env c)) lease sid d of
        (d', Inl x) \<Rightarrow> Some (d', Leaving (StartRejected x))
      | (d', Inr attempt) \<Rightarrow> Some (d', Executing attempt))"
| "loop_act url lease c ctx (Executing attempt) d =
     Some (d, Executed attempt (execute_step (ca_exec c) attempt \<lparr>eo_fake_tool_url = url\<rparr>))"
| "loop_act url lease c ctx (Executed attempt result) d =
     Some (d,
       if ctx = DeadlineExceeded then TimingOut TimedOut
       else if ctx \<noteq> Live then Leaving Interrupted
       else Finishing attempt result)"
| "loop_act url lease c ctx (Finishing attempt result) d =
     (case finish_step (ca_env c) lease attempt (outcome_of (ca_transport c) result) d of
        (d', Inl x) \<Rightarrow> Some (d', if x = ErrDeadlineExceeded then TimingOut TimedOut else Leaving (FinishRejected x))
      | (d', Inr _) \<Rightarrow> Some (d', case result of Inl x \<Rightarrow> Leaving AttemptFailed | Inr _ \<Rightarrow> AtHead))"
| "loop_act url lease c ctx (TimingOut why) d =
     (let (d', r) = timeout_owned_task (ca_env c) lease d
      in Some (d', if r = Inl ErrCancelled then Cancelling why else Leaving why))"
| "loop_act url lease c ctx (Cancelling why) d = Some (cancel_claim (ca_env c) lease d, Leaving why)"
| "loop_act url lease c ctx l d = None"

section \<open>The monitor\<close>

text \<open>\<open>select\<close> takes any case that is ready: the end of the context or one of the tickers.\<close>

datatype monitor_choice = SeeContext | Beat env | Poll env | Control env

fun monitor_act ::
  "store \<Rightarrow> lease_token \<Rightarrow> monitor_choice \<Rightarrow> context_state \<Rightarrow> monitor_at \<Rightarrow> db \<Rightarrow> (db \<times> monitor_at) option" where
  "monitor_act st lease SeeContext ctx Selecting d = (if ctx = Live then None else Some (d, Closed MonitorDone))"
| "monitor_act st lease (Beat e) ctx Selecting d =
     (case renew_lease st (under ctx e) lease d of
        (d', Inr _) \<Rightarrow> Some (d', Selecting)
      | (d', Inl x) \<Rightarrow>
          Some (d', (if x = ErrCancelled then CancellingFor else Closing) (HeartbeatStopped x)))"
| "monitor_act st lease (Poll e) ctx Selecting d =
     (case cancellation_requested (under ctx e) lease d of
        Inl x \<Rightarrow> Some (d, Closing (PollingStopped x))
      | Inr requested \<Rightarrow> Some (d, if requested then CancellingFor CancellationSeen else Selecting))"
| "monitor_act st lease (Control e) ctx (CancellingFor why) d = Some (cancel_claim e lease d, Closing why)"
| "monitor_act st lease ch ctx m d = None"

section \<open>Steps\<close>

datatype race_move =
    LoopDoes call
  | LoopCancels
  | LoopJoins
  | MonitorDoes monitor_choice
  | MonitorCloses
  | ContextEnds context_state
  | Others "db \<Rightarrow> db"

inductive race_step :: "store \<Rightarrow> string \<Rightarrow> lease_token \<Rightarrow> race_move \<Rightarrow> race \<Rightarrow> race \<Rightarrow> bool"
  for st url lease where
  loop_does: "loop_act url lease c (rc_context s) (rc_loop s) (rc_db s) = Some (d, l) \<Longrightarrow>
    race_step st url lease (LoopDoes c) s (s\<lparr>rc_db := d, rc_loop := l\<rparr>)"
| loop_cancels: "rc_loop s = Leaving why \<Longrightarrow>
    race_step st url lease LoopCancels s (s\<lparr>rc_context := cancel_context (rc_context s), rc_loop := Joining why\<rparr>)"
| loop_joins: "rc_loop s = Joining why \<Longrightarrow> rc_monitor s = Closed m \<Longrightarrow>
    race_step st url lease LoopJoins s (s\<lparr>rc_loop := Returned why\<rparr>)"
| monitor_does: "monitor_act st lease ch (rc_context s) (rc_monitor s) (rc_db s) = Some (d, m) \<Longrightarrow>
    race_step st url lease (MonitorDoes ch) s (s\<lparr>rc_db := d, rc_monitor := m\<rparr>)"
| monitor_closes: "rc_monitor s = Closing why \<Longrightarrow>
    race_step st url lease MonitorCloses s (s\<lparr>rc_context := cancel_context (rc_context s), rc_monitor := Closed why\<rparr>)"
| context_ends: "rc_context s = Live \<Longrightarrow> ctx \<noteq> Live \<Longrightarrow>
    race_step st url lease (ContextEnds ctx) s (s\<lparr>rc_context := ctx\<rparr>)"
| others_act: "race_step st url lease (Others f) s (s\<lparr>rc_db := f (rc_db s)\<rparr>)"

inductive_cases race_stepE: "race_step st url lease mv s t"

definition race_start :: "db \<Rightarrow> race" where
  "race_start d = \<lparr>rc_db = d, rc_context = Live, rc_loop = AtHead, rc_monitor = Selecting\<rparr>"

fun own :: "race_move \<Rightarrow> bool" where
  "own (ContextEnds ctx) = False"
| "own (Others f) = False"
| "own mv = True"

section \<open>The end of the context\<close>

text \<open>What is left to do at a place when the context is over.\<close>

fun loop_left :: "loop_at \<Rightarrow> nat" where
  "loop_left (AskingApproval sid) = 6"
| "loop_left (Executing attempt) = 6"
| "loop_left (Asked r) = 5"
| "loop_left (Executed attempt result) = 5"
| "loop_left (Finishing attempt result) = 5"
| "loop_left (TimingOut why) = 4"
| "loop_left (Leaving why) = 2"
| "loop_left (Joining why) = 1"
| "loop_left (Returned why) = 0"
| "loop_left l = 3"

fun monitor_left :: "monitor_at \<Rightarrow> nat" where
  "monitor_left Selecting = 3"
| "monitor_left (CancellingFor why) = 2"
| "monitor_left (Closing why) = 1"
| "monitor_left (Closed why) = 0"

definition race_left :: "race \<Rightarrow> nat" where
  "race_left s = loop_left (rc_loop s) + monitor_left (rc_monitor s)"

lemma race_left_bound: "race_left s \<le> 9"
  by (cases "rc_loop s"; cases "rc_monitor s") (simp_all add: race_left_def)

lemma under_over: "ctx \<noteq> Live \<Longrightarrow> fault (under ctx e) = StatementFails"
  by (simp add: under_def)

lemma calls_fail:
  assumes "fault e = StatementFails"
  shows "load_claimed e i d = Inl ErrDatabase" "start_step e lease sid d = (d, Inl ErrDatabase)"
    "wait_for_approval e lease sid d = (d, Inl ErrDatabase)" "renew_lease st e lease d = (d, Inl ErrDatabase)"
    "cancellation_requested e lease d = Inl ErrDatabase"
proof -
  have "commit_with_fact_check e d q b = (d, Inl ErrDatabase)" "run_tx e d b' = (d, Inl ErrDatabase)"
    for q and b :: "'a txn" and b' :: "'b txn"
    using assms by (cases b, simp_all) (cases b', simp_all)
  then show "start_step e lease sid d = (d, Inl ErrDatabase)" "wait_for_approval e lease sid d = (d, Inl ErrDatabase)"
      "renew_lease st e lease d = (d, Inl ErrDatabase)"
    using assms by (simp_all add: start_step_def wait_for_approval_def renew_lease_def Let_def)
qed (use assms in \<open>simp_all add: load_claimed_def cancellation_requested_def\<close>)

text \<open>The calls the two may still make, and what they do to the database.\<close>

definition control_effect :: "lease_token \<Rightarrow> db \<Rightarrow> db \<Rightarrow> bool" where
  "control_effect lease d d' \<longleftrightarrow>
     d' = d \<or> (\<exists>e. d' = cancel_claim e lease d) \<or> (\<exists>e. d' = fst (timeout_owned_task e lease d))"

lemma loop_step_over:
  assumes "loop_act url lease c ctx l d = Some (d', l')" "ctx \<noteq> Live"
  shows "loop_left l' < loop_left l \<and>
    (control_effect lease d d' \<or> (\<exists>a r e out. l = Finishing a r \<and> d' = fst (finish_step e lease a out d)))"
proof -
  note fails = calls_fail [OF under_over [OF assms(2)]]
  show ?thesis
  proof (cases l)
    case (Finishing a r)
    let ?f = "finish_step (ca_env c) lease a (outcome_of (ca_transport c) r) d"
    have "d' = fst ?f" "loop_left l' < loop_left l"
      using Finishing assms(1) by (cases ?f; auto split: sum.splits if_splits)+
    with Finishing show ?thesis by blast
  next
    case (TimingOut why)
    have "d' = fst (timeout_owned_task (ca_env c) lease d)" "loop_left l' < loop_left l"
      using TimingOut assms(1) by (cases "timeout_owned_task (ca_env c) lease d"; auto split: if_splits)+
    then show ?thesis unfolding control_effect_def by blast
  next
    case (Cancelling why)
    then show ?thesis using assms by (auto simp: control_effect_def)
  qed (use assms fails in \<open>auto simp: control_effect_def split: if_splits\<close>)
qed

lemma monitor_step_over:
  assumes "monitor_act st lease ch ctx m d = Some (d', m')" "ctx \<noteq> Live"
  shows "monitor_left m' < monitor_left m \<and> control_effect lease d d'"
  using assms calls_fail [OF under_over [OF assms(2)]]
  by (cases m; cases ch) (auto simp: control_effect_def split: if_splits)

lemma step_over:
  assumes "race_step st url lease mv s t" "rc_context s \<noteq> Live"
  shows "rc_context t \<noteq> Live \<and> race_left t + (if own mv then 1 else 0) \<le> race_left s \<and>
    (own mv \<longrightarrow> control_effect lease (rc_db s) (rc_db t) \<or>
      (\<exists>a r e out. rc_loop s = Finishing a r \<and> rc_db t = fst (finish_step e lease a out (rc_db s))))"
  using assms
proof (cases rule: race_step.cases)
  case (loop_does c d l)
  from loop_step_over [OF loop_does(3) assms(2)] loop_does assms(2) show ?thesis by (auto simp: race_left_def)
next
  case (monitor_does ch d m)
  from monitor_step_over [OF monitor_does(3) assms(2)] monitor_does assms(2) show ?thesis by (auto simp: race_left_def)
qed (auto simp: race_left_def cancel_context_def control_effect_def)

lemma run_over:
  assumes "run (race_step st url lease) s ms t" "rc_context s \<noteq> Live"
  shows "rc_context t \<noteq> Live \<and> length (filter own ms) + race_left t \<le> race_left s"
  using assms
proof (induction rule: run.induct)
  case (run_cons mv s u ms t)
  from step_over [OF run_cons.hyps(1) run_cons.prems] run_cons.IH show ?case by (auto split: if_splits)
qed simp

lemma loop_enabled: "(\<And>why. l \<noteq> Leaving why \<and> l \<noteq> Joining why \<and> l \<noteq> Returned why) \<Longrightarrow>
    \<exists>d' l'. loop_act url lease c ctx l d = Some (d', l')"
  by (cases l) (auto split: prod.splits sum.splits)

lemma can_go_on:
  assumes "rc_context s \<noteq> Live" "\<not> ((\<exists>why. rc_loop s = Returned why) \<and> (\<exists>m. rc_monitor s = Closed m))"
  shows "\<exists>mv \<in> {LoopDoes c, LoopCancels, LoopJoins, MonitorDoes SeeContext, MonitorDoes (Control e), MonitorCloses}.
    \<exists>t. race_step st url lease mv s t"
proof (cases "rc_monitor s")
  case Selecting
  with assms(1) have "monitor_act st lease SeeContext (rc_context s) (rc_monitor s) (rc_db s) = Some (rc_db s, Closed MonitorDone)"
    by simp
  then show ?thesis by (blast intro: monitor_does)
next
  case (CancellingFor why)
  then have "monitor_act st lease (Control e) (rc_context s) (rc_monitor s) (rc_db s)
      = Some (cancel_claim e lease (rc_db s), Closing why)" by simp
  then show ?thesis by (blast intro: monitor_does)
next
  case (Closing why)
  then show ?thesis by (blast intro: monitor_closes)
next
  case (Closed m)
  with assms(2) have "\<And>why. rc_loop s \<noteq> Returned why" by blast
  then consider why where "rc_loop s = Leaving why" | why where "rc_loop s = Joining why"
    | d l where "loop_act url lease c (rc_context s) (rc_loop s) (rc_db s) = Some (d, l)"
    using loop_enabled [of "rc_loop s"] by metis
  then show ?thesis using Closed by cases (blast intro: race_step.intros)+
qed

text \<open>C11: When the context of a claimed task is over (its deadline, a shutdown of the worker, a lost lease or
  a cancellation), both goroutines end, whatever the database answers and whatever others do: they
  make at most nine more steps together, one of them can go on until both have ended, and no step
  of theirs changes the database other than by the timeout and the cancellation of the lease's
  owner and by finishing an attempt that was already executed.\<close>

theorem context_end_stops_claim:
  assumes "run (race_step st url lease) s ms t" "rc_context s \<noteq> Live"
  shows "length (filter own ms) \<le> 9 \<and>
    (((\<exists>why. rc_loop t = Returned why) \<and> (\<exists>m. rc_monitor t = Closed m)) \<or>
     (\<forall>c e. \<exists>mv \<in> {LoopDoes c, LoopCancels, LoopJoins, MonitorDoes SeeContext, MonitorDoes (Control e), MonitorCloses}.
       \<exists>u. race_step st url lease mv t u)) \<and>
    (\<forall>mv u. own mv \<and> race_step st url lease mv t u \<longrightarrow>
       rc_db u = rc_db t \<or> (\<exists>e. rc_db u = cancel_claim e lease (rc_db t)) \<or>
       (\<exists>e. rc_db u = fst (timeout_owned_task e lease (rc_db t))) \<or>
       (\<exists>a r e out. rc_loop t = Finishing a r \<and> rc_db u = fst (finish_step e lease a out (rc_db t))))"
proof (intro conjI)
  from run_over [OF assms] race_left_bound [of s] show "length (filter own ms) \<le> 9" by linarith
  have over: "rc_context t \<noteq> Live" using run_over [OF assms] by blast
  from can_go_on [OF over] show "((\<exists>why. rc_loop t = Returned why) \<and> (\<exists>m. rc_monitor t = Closed m)) \<or>
     (\<forall>c e. \<exists>mv \<in> {LoopDoes c, LoopCancels, LoopJoins, MonitorDoes SeeContext, MonitorDoes (Control e), MonitorCloses}.
       \<exists>u. race_step st url lease mv t u)" by metis
  show "\<forall>mv u. own mv \<and> race_step st url lease mv t u \<longrightarrow>
       rc_db u = rc_db t \<or> (\<exists>e. rc_db u = cancel_claim e lease (rc_db t)) \<or>
       (\<exists>e. rc_db u = fst (timeout_owned_task e lease (rc_db t))) \<or>
       (\<exists>a r e out. rc_loop t = Finishing a r \<and> rc_db u = fst (finish_step e lease a out (rc_db t)))"
    using step_over [OF _ over] unfolding control_effect_def by blast
qed

section \<open>An interleaving as a run of the loop\<close>

text \<open>What happens beside the loop: the monitor's calls with its lease, and what others do.\<close>

inductive beside :: "store \<Rightarrow> lease_token \<Rightarrow> (db \<Rightarrow> db) set \<Rightarrow> (db \<Rightarrow> db) \<Rightarrow> bool" for st lease F where
  beside_idle: "beside st lease F (\<lambda>d. d)"
| beside_other: "f \<in> F \<Longrightarrow> beside st lease F f"
| beside_beat: "beside st lease F (\<lambda>d. fst (renew_lease st e lease d))"
| beside_control: "beside st lease F (cancel_claim e lease)"
| beside_seq: "beside st lease F f \<Longrightarrow> beside st lease F g \<Longrightarrow> beside st lease F (\<lambda>d. g (f d))"

lemma beside_mono: "beside st lease F f \<Longrightarrow> F \<subseteq> G \<Longrightarrow> beside st lease G f"
  by (induction rule: beside.induct) (auto intro: beside.intros)

lemma beside_wf: "beside st lease F f \<Longrightarrow> (\<forall>g \<in> F. \<forall>d. wf_db d \<longrightarrow> wf_db (g d)) \<Longrightarrow> wf_db d \<Longrightarrow> wf_db (f d)"
proof (induction arbitrary: d rule: beside.induct)
  case (beside_beat e)
  then show ?case using perform_wf [of d "RenewLease e lease" st] by simp
next
  case (beside_control e)
  then show ?case by (simp add: control_wf)
qed blast+

fun loop_result :: "loop_at \<Rightarrow> stop option" where
  "loop_result (Leaving why) = Some why"
| "loop_result (Joining why) = Some why"
| "loop_result (Returned why) = Some why"
| "loop_result l = None"

definition timed_out :: "lease_token \<Rightarrow> turn \<Rightarrow> db \<Rightarrow> db" where
  "timed_out lease tn d = timeout_claim (tn_control tn 0) (tn_others tn 4) (tn_control tn 1) lease d"

text \<open>What is left of a turn at a place of the loop.\<close>

fun rest_of_turn :: "string \<Rightarrow> lease_token \<Rightarrow> turn \<Rightarrow> loop_at \<Rightarrow> db \<Rightarrow> db \<times> turn_end" where
  "rest_of_turn url lease tn AtHead d = execute_turn url lease tn d"
| "rest_of_turn url lease tn Loading d =
     (case load_claimed (tn_load tn) (lt_task_id lease) d of
        Inl x \<Rightarrow> (d, Stop (LoadFailed x))
      | Inr ld \<Rightarrow>
          (case loaded_place ld of
             AskingApproval sid \<Rightarrow> approval_turn lease tn sid (tn_others tn 1 d)
           | Starting sid \<Rightarrow> step_turn url lease tn sid (tn_others tn 1 d)
           | _ \<Rightarrow> (d, Stop NothingToDo)))"
| "rest_of_turn url lease tn (AskingApproval sid) d = approval_turn lease tn sid d"
| "rest_of_turn url lease tn (Asked r) d =
     (if r = Inl ErrCancelled then (cancel_claim (tn_control tn 0) lease d, Stop (WaitingForApproval r))
      else if r = Inl ErrDeadlineExceeded \<or> tn_after tn = DeadlineExceeded
        then (timed_out lease tn d, Stop (WaitingForApproval r))
      else (d, Stop (WaitingForApproval r)))"
| "rest_of_turn url lease tn (Starting sid) d = step_turn url lease tn sid d"
| "rest_of_turn url lease tn (Executing attempt) d =
     (if tn_after tn = DeadlineExceeded then (timed_out lease tn d, Stop TimedOut)
      else if tn_after tn \<noteq> Live then (d, Stop Interrupted)
      else finish_turn lease tn attempt (execute_step (tn_exec tn) attempt \<lparr>eo_fake_tool_url = url\<rparr>) d)"
| "rest_of_turn url lease tn (Executed attempt result) d =
     (if tn_after tn = DeadlineExceeded then (timed_out lease tn d, Stop TimedOut)
      else if tn_after tn \<noteq> Live then (d, Stop Interrupted)
      else finish_turn lease tn attempt result d)"
| "rest_of_turn url lease tn (Finishing attempt result) d = finish_turn lease tn attempt result d"
| "rest_of_turn url lease tn (TimingOut why) d = (timed_out lease tn d, Stop why)"
| "rest_of_turn url lease tn (Cancelling why) d = (cancel_claim (tn_control tn 1) lease d, Stop why)"
| "rest_of_turn url lease tn (Leaving why) d = (d, Stop why)"
| "rest_of_turn url lease tn (Joining why) d = (d, Stop why)"
| "rest_of_turn url lease tn (Returned why) d = (d, Stop why)"

definition rest_of_claim :: "string \<Rightarrow> lease_token \<Rightarrow> turn \<Rightarrow> turn list \<Rightarrow> loop_at \<Rightarrow> db \<Rightarrow> db \<times> stop" where
  "rest_of_claim url lease tn tns l d =
     (case rest_of_turn url lease tn l d of
        (d', Continue) \<Rightarrow> execute_claim url lease tns d'
      | (d', Stop why) \<Rightarrow> (d', why))"

text \<open>
  \<open>B\<close> holds of what may happen beside the loop. A place leads to a result when there are turns
  that, after something beside the loop, give the result up to something beside it.
\<close>

definition leads_to ::
  "((db \<Rightarrow> db) \<Rightarrow> bool) \<Rightarrow> string \<Rightarrow> lease_token \<Rightarrow> loop_at \<Rightarrow> db \<Rightarrow> stop \<Rightarrow> db \<Rightarrow> bool" where
  "leads_to B url lease l d why d' \<longleftrightarrow>
     (\<exists>g tn tns x f. B g \<and> B f \<and> (\<forall>k. B (tn_others tn k)) \<and> (\<forall>u \<in> set tns. \<forall>k. B (tn_others u k)) \<and>
        rest_of_claim url lease tn tns l (g d) = (x, why) \<and> d' = f x)"

lemma leads_toI: "B g \<Longrightarrow> B f \<Longrightarrow> (\<And>k. B (tn_others tn k)) \<Longrightarrow> (\<And>u k. u \<in> set tns \<Longrightarrow> B (tn_others u k)) \<Longrightarrow>
    rest_of_claim url lease tn tns l (g d) = (x, why) \<Longrightarrow> leads_to B url lease l d why (f x)"
  unfolding leads_to_def by blast

lemma leads_toE:
  assumes "leads_to B url lease l d why d'"
  obtains g tn tns x f where "B g" "B f" "\<And>k. B (tn_others tn k)" "\<And>u k. u \<in> set tns \<Longrightarrow> B (tn_others u k)"
    "rest_of_claim url lease tn tns l (g d) = (x, why)" "d' = f x"
  using assms unfolding leads_to_def by blast

lemmas turn_defs = approval_turn_def step_turn_def finish_turn_def timed_out_def Let_def

lemma turn_from_head: "tn_head tn = Live \<Longrightarrow>
    execute_turn url lease tn d = rest_of_turn url lease tn Loading (tn_others tn 0 d)"
  by (auto simp: execute_turn_def loaded_place_def Let_def split: sum.splits)

lemma same_turn:
  assumes "tn_step u = tn_step tn" "tn_exec u = tn_exec tn" "tn_after u = tn_after tn" "tn_finish u = tn_finish tn"
    and "tn_transport u = tn_transport tn" "tn_control u = tn_control tn"
    and "tn_others u 2 = tn_others tn 2" "tn_others u 3 = tn_others tn 3" "tn_others u 4 = tn_others tn 4"
  shows "approval_turn lease u = approval_turn lease tn" "step_turn url lease u = step_turn url lease tn"
  unfolding fun_eq_iff approval_turn_def step_turn_def finish_turn_def assms by simp_all

lemma same_finish:
  assumes "tn_finish u = tn_finish tn" "tn_transport u = tn_transport tn" "tn_control u = tn_control tn"
    and "tn_others u 3 = tn_others tn 3" "tn_others u 4 = tn_others tn 4"
  shows "finish_turn lease u = finish_turn lease tn"
  unfolding fun_eq_iff finish_turn_def assms by simp

text \<open>At the head of the loop what happened beside it belongs to the next turn.\<close>

lemma absorb_at_head:
  assumes "B f" "B (\<lambda>d. f (g d))" "\<And>k. B (tn_others tn k)" "B (\<lambda>d. tn_others tn 0 (g d))"
    and "rest_of_claim url lease tn tns AtHead (g d) = (x, why)"
  shows "\<exists>tn' x' f'. rest_of_claim url lease tn' tns AtHead d = (x', why) \<and> f' x' = f x \<and> B f' \<and> (\<forall>k. B (tn_others tn' k))"
proof (cases "tn_head tn = Live")
  case True
  let ?tn = "tn\<lparr>tn_others := (tn_others tn)(0 := \<lambda>d. tn_others tn 0 (g d))\<rparr>"
  have "rest_of_turn url lease ?tn Loading y = rest_of_turn url lease tn Loading y" for y
    by (simp add: same_turn [of ?tn tn] split: sum.split loop_at.split)
  with True have "execute_turn url lease ?tn d = execute_turn url lease tn (g d)"
    by (simp add: turn_from_head del: rest_of_turn.simps(2))
  with assms show ?thesis by (intro exI [of _ ?tn] exI [of _ x] exI [of _ f]) (simp add: rest_of_claim_def)
next
  case False
  with assms(5) have "x = g d" "why = ContextOver" by (simp_all add: rest_of_claim_def execute_turn_def)
  with False assms show ?thesis
    by (intro exI [of _ tn] exI [of _ d] exI [of _ "\<lambda>d. f (g d)"]) (simp add: rest_of_claim_def execute_turn_def)
qed

locale interference =
  fixes B :: "(db \<Rightarrow> db) \<Rightarrow> bool"
  assumes idle: "B (\<lambda>d. d)"
    and seq: "B f \<Longrightarrow> B g \<Longrightarrow> B (\<lambda>d. g (f d))"
begin

lemma head_leads:
  assumes act: "loop_act url lease c ctx AtHead d = Some (d', l')" and to: "leads_to B url lease l' d' why z"
  shows "leads_to B url lease AtHead d why z"
proof -
  from to obtain g tn tns x f where r: "B g" "B f" "\<And>k. B (tn_others tn k)" "\<And>u k. u \<in> set tns \<Longrightarrow> B (tn_others u k)"
      "rest_of_claim url lease tn tns l' (g d') = (x, why)" "z = f x" by (rule leads_toE) blast
  note fg = seq [OF r(1,2)] and I = leads_toI [of B _ _ _ tns, OF _ _ _ r(4)]
  show ?thesis
  proof (cases "ctx = Live")
    case True
    let ?tn = "tn\<lparr>tn_head := Live, tn_others := (tn_others tn)(0 := g)\<rparr>"
    have "rest_of_turn url lease ?tn Loading y = rest_of_turn url lease tn Loading y" for y
      by (simp add: same_turn [of ?tn tn] split: sum.split loop_at.split)
    then have "rest_of_claim url lease ?tn tns AtHead d = (x, why)"
      using r(5) True act by (simp add: rest_of_claim_def turn_from_head del: rest_of_turn.simps(2))
    with r show ?thesis by (auto intro!: I [OF idle r(2), of ?tn])
  next
    case False
    let ?tn = "tn\<lparr>tn_head := ctx\<rparr>"
    have "rest_of_claim url lease ?tn tns AtHead d = (d, why)" "x = g d"
      using r(5) False act by (auto simp: rest_of_claim_def execute_turn_def)
    with r show ?thesis by (auto intro!: I [OF idle fg, of ?tn])
  qed
qed

lemma loading_leads:
  assumes act: "loop_act url lease c ctx Loading d = Some (d', l')" and to: "leads_to B url lease l' d' why z"
  shows "leads_to B url lease Loading d why z"
proof -
  from to obtain g tn tns x f where r: "B g" "B f" "\<And>k. B (tn_others tn k)" "\<And>u k. u \<in> set tns \<Longrightarrow> B (tn_others u k)"
      "rest_of_claim url lease tn tns l' (g d') = (x, why)" "z = f x" by (rule leads_toE) blast
  note fg = seq [OF r(1,2)] and I = leads_toI [of B _ _ _ tns, OF _ _ _ r(4)]
  let ?tn = "tn\<lparr>tn_load := under ctx (ca_env c), tn_others := (tn_others tn)(Suc 0 := g)\<rparr>"
  show ?thesis
  proof (cases "loop_result l'")
    case None
    then have "rest_of_claim url lease ?tn tns Loading d = (x, why)"
      using r(5) act by (auto simp: rest_of_claim_def same_turn [of ?tn tn] loaded_place_def Let_def split: sum.splits if_splits)
    with r show ?thesis by (auto intro!: I [OF idle r(2), of ?tn])
  next
    case (Some w)
    then have "rest_of_claim url lease ?tn tns Loading d = (d, why)" "x = g d"
      using r(5) act by (auto simp: rest_of_claim_def loaded_place_def Let_def split: sum.splits if_splits)
    with r show ?thesis by (auto intro!: I [OF idle fg, of ?tn])
  qed
qed

lemma asking_leads:
  assumes act: "loop_act url lease c ctx (AskingApproval sid) d = Some (d', l')" and to: "leads_to B url lease l' d' why z"
  shows "leads_to B url lease (AskingApproval sid) d why z"
proof -
  from to obtain g tn tns x f where r: "B g" "B f" "\<And>k. B (tn_others tn k)" "\<And>u k. u \<in> set tns \<Longrightarrow> B (tn_others u k)"
      "rest_of_claim url lease tn tns l' (g d') = (x, why)" "z = f x" by (rule leads_toE) blast
  note fg = seq [OF r(1,2)] and I = leads_toI [of B _ _ _ tns, OF _ _ _ r(4)]
  let ?tn = "tn\<lparr>tn_step := under ctx (ca_env c), tn_others := (tn_others tn)(2 := g)\<rparr>"
  from act obtain w where w: "wait_for_approval (under ctx (ca_env c)) lease sid d = (d', w)" "l' = Asked w"
    by (auto simp: Let_def split: prod.splits)
  show ?thesis
  proof (cases "w = Inl ErrCancelled \<or> w = Inl ErrDeadlineExceeded \<or> tn_after tn = DeadlineExceeded")
    case True
    with w r(5) have "rest_of_claim url lease ?tn tns (AskingApproval sid) d = (x, why)"
      by (auto simp: rest_of_claim_def turn_defs)
    with r show ?thesis by (auto intro!: I [OF idle r(2), of ?tn])
  next
    case False
    with w r(5) have "rest_of_claim url lease ?tn tns (AskingApproval sid) d = (d', why)" "x = g d'"
      by (auto simp: rest_of_claim_def turn_defs)
    with r show ?thesis by (auto intro!: I [OF idle fg, of ?tn])
  qed
qed

lemma asked_leads:
  assumes act: "loop_act url lease c ctx (Asked w) d = Some (d', l')" and to: "leads_to B url lease l' d' why z"
  shows "leads_to B url lease (Asked w) d why z"
proof -
  from to obtain g tn tns x f where r: "B g" "B f" "\<And>k. B (tn_others tn k)" "\<And>u k. u \<in> set tns \<Longrightarrow> B (tn_others u k)"
      "rest_of_claim url lease tn tns l' (g d') = (x, why)" "z = f x" by (rule leads_toE) blast
  note fg = seq [OF r(1,2)] and I = leads_toI [of B _ _ _ tns, OF _ _ _ r(4)]
  let ?tn = "tn\<lparr>tn_after := ctx, tn_control := (if w = Inl ErrCancelled then (\<lambda>_. tn_control tn 1) else tn_control tn)\<rparr>"
  have "rest_of_claim url lease ?tn tns (Asked w) (g d) = (x, why)"
    using act r(5) by (auto simp: rest_of_claim_def timed_out_def split: if_splits)
  with r show ?thesis by (auto intro!: I [OF r(1,2), of ?tn])
qed

lemma starting_leads:
  assumes act: "loop_act url lease c ctx (Starting sid) d = Some (d', l')" and to: "leads_to B url lease l' d' why z"
  shows "leads_to B url lease (Starting sid) d why z"
proof -
  from to obtain g tn tns x f where r: "B g" "B f" "\<And>k. B (tn_others tn k)" "\<And>u k. u \<in> set tns \<Longrightarrow> B (tn_others u k)"
      "rest_of_claim url lease tn tns l' (g d') = (x, why)" "z = f x" by (rule leads_toE) blast
  note fg = seq [OF r(1,2)] and I = leads_toI [of B _ _ _ tns, OF _ _ _ r(4)]
  let ?tn = "tn\<lparr>tn_step := under ctx (ca_env c), tn_others := (tn_others tn)(2 := g)\<rparr>"
  show ?thesis
  proof (cases "snd (start_step (under ctx (ca_env c)) lease sid d)")
    case (Inl y)
    then have "rest_of_claim url lease ?tn tns (Starting sid) d = (d', why)" "x = g d'"
      using act r(5)
      by (cases "start_step (under ctx (ca_env c)) lease sid d";
        auto simp: rest_of_claim_def step_turn_def Let_def timed_out_def same_finish [of ?tn tn])+
    with r show ?thesis by (auto intro!: I [OF idle fg, of ?tn])
  next
    case (Inr a)
    then have "rest_of_claim url lease ?tn tns (Starting sid) d = (x, why)"
      using act r(5)
      by (cases "start_step (under ctx (ca_env c)) lease sid d";
        auto simp: rest_of_claim_def step_turn_def Let_def timed_out_def same_finish [of ?tn tn])+
    with r show ?thesis by (auto intro!: I [OF idle r(2), of ?tn])
  qed
qed

lemma executing_leads:
  assumes act: "loop_act url lease c ctx (Executing a) d = Some (d', l')" and to: "leads_to B url lease l' d' why z"
  shows "leads_to B url lease (Executing a) d why z"
proof -
  from to obtain g tn tns x f where r: "B g" "B f" "\<And>k. B (tn_others tn k)" "\<And>u k. u \<in> set tns \<Longrightarrow> B (tn_others u k)"
      "rest_of_claim url lease tn tns l' (g d') = (x, why)" "z = f x" by (rule leads_toE) blast
  note fg = seq [OF r(1,2)] and I = leads_toI [of B _ _ _ tns, OF _ _ _ r(4)]
  let ?tn = "tn\<lparr>tn_exec := ca_exec c\<rparr>"
  have "rest_of_claim url lease ?tn tns (Executing a) (g d) = (x, why)"
    using act r(5) by (auto simp: rest_of_claim_def timed_out_def same_finish [of ?tn tn])
  with r show ?thesis by (auto intro!: I [OF r(1,2), of ?tn])
qed

lemma executed_leads:
  assumes act: "loop_act url lease c ctx (Executed a w) d = Some (d', l')" and to: "leads_to B url lease l' d' why z"
  shows "leads_to B url lease (Executed a w) d why z"
proof -
  from to obtain g tn tns x f where r: "B g" "B f" "\<And>k. B (tn_others tn k)" "\<And>u k. u \<in> set tns \<Longrightarrow> B (tn_others u k)"
      "rest_of_claim url lease tn tns l' (g d') = (x, why)" "z = f x" by (rule leads_toE) blast
  note fg = seq [OF r(1,2)] and I = leads_toI [of B _ _ _ tns, OF _ _ _ r(4)]
  let ?tn = "tn\<lparr>tn_after := ctx\<rparr>"
  have "rest_of_claim url lease ?tn tns (Executed a w) (g d) = (x, why)"
    using act r(5)
    by (auto simp: rest_of_claim_def timed_out_def same_finish [of "tn\<lparr>tn_after := y\<rparr>" tn for y] split: if_splits)
  with r show ?thesis by (auto intro!: I [OF r(1,2), of ?tn])
qed

lemma cancelling_leads:
  assumes act: "loop_act url lease c ctx (Cancelling w) d = Some (d', l')" and to: "leads_to B url lease l' d' why z"
  shows "leads_to B url lease (Cancelling w) d why z"
proof -
  from to obtain g tn tns x f where r: "B g" "B f" "\<And>k. B (tn_others tn k)" "\<And>u k. u \<in> set tns \<Longrightarrow> B (tn_others u k)"
      "rest_of_claim url lease tn tns l' (g d') = (x, why)" "z = f x" by (rule leads_toE) blast
  note fg = seq [OF r(1,2)] and I = leads_toI [of B _ _ _ tns, OF _ _ _ r(4)]
  let ?tn = "tn\<lparr>tn_control := \<lambda>_. ca_env c\<rparr>"
  have "rest_of_claim url lease ?tn tns (Cancelling w) d = (d', why)" "x = g d'"
    using act r(5) by (auto simp: rest_of_claim_def)
  with r show ?thesis by (auto intro!: I [OF idle fg, of ?tn])
qed

lemma timing_out_leads:
  assumes act: "loop_act url lease c ctx (TimingOut w) d = Some (d', l')" and to: "leads_to B url lease l' d' why z"
  shows "leads_to B url lease (TimingOut w) d why z"
proof -
  from to obtain g tn tns x f where r: "B g" "B f" "\<And>k. B (tn_others tn k)" "\<And>u k. u \<in> set tns \<Longrightarrow> B (tn_others u k)"
      "rest_of_claim url lease tn tns l' (g d') = (x, why)" "z = f x" by (rule leads_toE) blast
  note fg = seq [OF r(1,2)] and I = leads_toI [of B _ _ _ tns, OF _ _ _ r(4)]
  let ?tn = "tn\<lparr>tn_control := (tn_control tn)(0 := ca_env c), tn_others := (tn_others tn)(4 := g)\<rparr>"
  show ?thesis
  proof (cases "snd (timeout_owned_task (ca_env c) lease d) = Inl ErrCancelled")
    case True
    then have "rest_of_claim url lease ?tn tns (TimingOut w) d = (x, why)"
      using act r(5) by (auto simp: rest_of_claim_def turn_defs timeout_claim_def split: prod.splits)
    with r show ?thesis by (auto intro!: I [OF idle r(2), of ?tn])
  next
    case False
    then have "rest_of_claim url lease ?tn tns (TimingOut w) d = (d', why)" "x = g d'"
      using act r(5) by (auto simp: rest_of_claim_def turn_defs timeout_claim_def split: prod.splits sum.splits)
    with r show ?thesis by (auto intro!: I [OF idle fg, of ?tn])
  qed
qed

lemma finishing_leads:
  assumes act: "loop_act url lease c ctx (Finishing a w) d = Some (d', l')" and to: "leads_to B url lease l' d' why z"
  shows "leads_to B url lease (Finishing a w) d why z"
proof -
  from to obtain g tn tns x f where r: "B g" "B f" "\<And>k. B (tn_others tn k)" "\<And>u k. u \<in> set tns \<Longrightarrow> B (tn_others u k)"
      "rest_of_claim url lease tn tns l' (g d') = (x, why)" "z = f x" by (rule leads_toE) blast
  note fg = seq [OF r(1,2)] and I = leads_toI [of B _ _ _ tns, OF _ _ _ r(4)]
  let ?fin = "finish_step (ca_env c) lease a (outcome_of (ca_transport c) w) d"
  let ?tn = "tn\<lparr>tn_finish := ca_env c, tn_transport := ca_transport c, tn_others := (tn_others tn)(3 := g)\<rparr>"
  consider "snd ?fin = Inl ErrDeadlineExceeded" | "l' = AtHead" | "snd ?fin \<noteq> Inl ErrDeadlineExceeded" "loop_result l' \<noteq> None"
    using act by (cases ?fin) (auto split: sum.splits if_splits)
  then show ?thesis
  proof cases
    case 1
    then have "rest_of_claim url lease ?tn tns (Finishing a w) d = (x, why)"
      using act r(5) by (cases ?fin) (auto simp: rest_of_claim_def turn_defs)
    with r show ?thesis by (auto intro!: I [OF idle r(2), of ?tn])
  next
    case 2
    with r(5) have "rest_of_claim url lease tn tns AtHead (g d') = (x, why)" by simp
    from absorb_at_head [OF r(2) fg r(3) seq [OF r(1) r(3)] this] obtain tn' x' f' where h: "rest_of_claim url lease tn' tns AtHead d' = (x', why)"
        "f' x' = f x" "B f'" "\<And>k. B (tn_others tn' k)" by blast
    let ?tn' = "tn'\<lparr>tn_finish := ca_env c, tn_transport := ca_transport c\<rparr>"
    have "rest_of_claim url lease ?tn' (tn' # tns) (Finishing a w) d = (x', why)"
      using act 2 h(1) by (cases ?fin) (auto simp: rest_of_claim_def turn_defs split: sum.splits if_splits)
    then have "leads_to B url lease (Finishing a w) d why (f' x')"
      by (intro leads_toI [OF idle h(3), of ?tn' "tn' # tns"]) (use h(4) r(4) in auto)
    with h(2) r(6) show ?thesis by simp
  next
    case 3
    then have "rest_of_claim url lease ?tn tns (Finishing a w) d = (d', why)" "x = g d'"
      using act r(5) by (cases ?fin; auto simp: rest_of_claim_def turn_defs split: sum.splits if_splits)+
    with r show ?thesis by (auto intro!: I [OF idle fg, of ?tn])
  qed
qed

lemma loop_act_leads:
  assumes "loop_act url lease c ctx l d = Some (d', l')" "leads_to B url lease l' d' why z"
  shows "leads_to B url lease l d why z"
  using assms
  by (cases l; (blast intro: head_leads loading_leads asking_leads asked_leads starting_leads executing_leads
        executed_leads finishing_leads timing_out_leads cancelling_leads | simp))

lemma others_lead: "B h \<Longrightarrow> leads_to B url lease l (h d) why z \<Longrightarrow> leads_to B url lease l d why z"
proof (erule leads_toE)
  fix g tn tns x f
  assume "B h" "B g" "B f" "\<And>k. B (tn_others tn k)" "\<And>u k. u \<in> set tns \<Longrightarrow> B (tn_others u k)"
    "rest_of_claim url lease tn tns l (g (h d)) = (x, why)" "z = f x"
  with leads_toI [of B "\<lambda>y. g (h y)" f tn tns, OF seq [of h g]] show ?thesis by blast
qed

lemma result_leads: "loop_result l = Some why \<Longrightarrow> leads_to B url lease l d why d"
  using leads_toI [of B "\<lambda>y. y" "\<lambda>y. y" "undefined\<lparr>tn_others := \<lambda>_ y. y\<rparr>" "[]" url lease l d d why] idle
  by (cases l) (simp_all add: rest_of_claim_def)

lemma ended_leads: "loop_result l = Some w \<Longrightarrow> loop_result l' = Some w \<Longrightarrow> leads_to B url lease l' d why z \<Longrightarrow>
    leads_to B url lease l d why z"
  unfolding leads_to_def rest_of_claim_def by (cases l; cases l') simp_all

end

interpretation beside: interference "beside st lease F" for st lease F
  by unfold_locales (auto intro: beside.intros)

lemma beat_effect: "monitor_act st lease (Beat e) ctx m d = Some (d', m') \<Longrightarrow> d' = fst (renew_lease st (under ctx e) lease d)"
  by (cases m) (auto split: prod.splits sum.splits)

lemma monitor_beside:
  assumes "monitor_act st lease ch ctx m d = Some (d', m')"
  shows "\<exists>h. beside st lease F h \<and> d' = h d"
proof (cases ch)
  case (Beat e)
  with beat_effect assms show ?thesis by (metis beside_beat)
next
  case (Control e)
  with assms have "d' = cancel_claim e lease d" by (cases m) auto
  with beside_control show ?thesis by metis
next
  case SeeContext
  with assms have "d' = d" by (cases m) (auto split: if_splits)
  with beside_idle show ?thesis by metis
next
  case (Poll e)
  with assms have "d' = d" by (cases m) (auto split: sum.splits)
  with beside_idle show ?thesis by metis
qed

lemma step_leads:
  assumes "race_step st url lease mv s t" "\<And>f. mv = Others f \<Longrightarrow> f \<in> F"
    and "leads_to (beside st lease F) url lease (rc_loop t) (rc_db t) why z"
  shows "leads_to (beside st lease F) url lease (rc_loop s) (rc_db s) why z"
  using assms(1)
proof (cases rule: race_step.cases)
  case (loop_does c d l)
  with assms(3) show ?thesis by (auto intro: beside.loop_act_leads)
next
  case (loop_cancels w)
  with assms(3) beside.ended_leads [of "Leaving w" w "Joining w"] show ?thesis by simp
next
  case (loop_joins w m)
  with assms(3) beside.ended_leads [of "Joining w" w "Returned w"] show ?thesis by simp
next
  case (monitor_does ch d m)
  from monitor_beside [OF monitor_does(3)] obtain h where "beside st lease F h" "d = h (rc_db s)" by blast
  with monitor_does assms(3) show ?thesis by (auto intro: beside.others_lead)
next
  case (others_act f)
  with assms(2,3) beside_other show ?thesis by (auto intro: beside.others_lead [of st lease F f])
qed (use assms(3) in simp_all)

lemma run_leads:
  assumes "run (race_step st url lease) s ms t" "loop_result (rc_loop t) = Some why" "\<forall>f. Others f \<in> set ms \<longrightarrow> f \<in> F"
  shows "leads_to (beside st lease F) url lease (rc_loop s) (rc_db s) why (rc_db t)"
  using assms
proof (induction rule: run.induct)
  case (run_nil s)
  then show ?case by (blast intro: beside.result_leads)
next
  case (run_cons mv s u ms t)
  then have "leads_to (beside st lease F) url lease (rc_loop u) (rc_db u) why (rc_db t)" by simp
  with step_leads [OF run_cons.hyps(1)] run_cons.prems(2) show ?case by simp
qed

text \<open>At every moment of an interleaving the database is well formed.\<close>

lemma loop_act_wf: "loop_act url lease c ctx l d = Some (d', l') \<Longrightarrow> wf_db d \<Longrightarrow> wf_db d'"
proof -
  assume a: "loop_act url lease c ctx l d = Some (d', l')" and wf: "wf_db d"
  note w = perform_wf_simps [OF wf] control_wf(1) [OF wf]
  from a have "d' = d \<or> (\<exists>e sid. d' = fst (start_step e lease sid d)) \<or> (\<exists>e at out. d' = fst (finish_step e lease at out d)) \<or>
      (\<exists>e sid. d' = fst (wait_for_approval e lease sid d)) \<or> (\<exists>e. d' = fst (timeout_owned_task e lease d)) \<or>
      (\<exists>e. d' = cancel_claim e lease d)"
    by (cases l) (auto simp: Let_def split: prod.splits sum.splits, (metis fst_conv)+)
  with w wf show "wf_db d'" by auto
qed

lemma race_keeps_invariant:
  assumes "run (race_step st url lease) s ms t" "wf_db (rc_db s)" "\<And>f d. Others f \<in> set ms \<Longrightarrow> wf_db d \<Longrightarrow> wf_db (f d)"
  shows "wf_db (rc_db t)"
  using assms
proof (induction rule: run.induct)
  case (run_cons mv s u ms t)
  have "wf_db (rc_db u)"
    using run_cons.hyps(1) run_cons.prems
  proof (cases rule: race_step.cases)
    case (monitor_does ch d m)
    from monitor_beside [OF monitor_does(3), where F = "{}"] monitor_does(2) run_cons.prems(1) show ?thesis
      by (auto intro: beside_wf)
  qed (auto intro: loop_act_wf)
  with run_cons show ?case by simp
qed

text \<open>C10: Whatever the order in which the executing loop, its monitor and other clients take their steps,
  the loop does what \<open>execute_claim\<close> does with suitable turns: it ends for the same reason, and the
  database is the one \<open>execute_claim\<close> leaves, but for what happens beside the loop after its last call.
  What \<open>execute_claim\<close> lets others do between its calls is in each place only the monitor's renewals and
  cancellations with this lease and the steps of other clients in this interleaving.\<close>

theorem interleaving_is_a_claim_run:
  assumes "run (race_step st url lease) (race_start d) ms s" "loop_result (rc_loop s) = Some why"
    and "F = {f. Others f \<in> set ms}"
  shows "\<exists>tns d' f. execute_claim url lease tns d = (d', why) \<and> rc_db s = f d' \<and> beside st lease F f \<and>
    (\<forall>tn \<in> set tns. \<forall>k. beside st lease F (tn_others tn k))"
proof -
  have "leads_to (beside st lease F) url lease AtHead d why (rc_db s)"
    using run_leads [OF assms(1,2), of F] assms(3) by (simp add: race_start_def)
  then obtain g tn tns x f where r: "beside st lease F g" "beside st lease F f" "\<And>k. beside st lease F (tn_others tn k)"
      "\<And>u k. u \<in> set tns \<Longrightarrow> beside st lease F (tn_others u k)"
      "rest_of_claim url lease tn tns AtHead (g d) = (x, why)" "rc_db s = f x" by (rule leads_toE) blast
  from absorb_at_head [of "beside st lease F", OF r(2) beside.seq [OF r(1,2)] r(3) beside.seq [OF r(1) r(3)] r(5)]
  obtain tn' x' f' where "rest_of_claim url lease tn' tns AtHead d = (x', why)" "f' x' = f x"
      "beside st lease F f'" "\<And>k. beside st lease F (tn_others tn' k)" by blast
  with r(4,6) show ?thesis
    by (intro exI [of _ "tn' # tns"] exI [of _ x'] exI [of _ f']) (simp add: rest_of_claim_def)
qed

text \<open>The worker is shut down while it executes a step whose lease was just renewed.\<close>

definition call_at :: "time \<Rightarrow> call" where
  "call_at n = \<lparr>ca_env = env_at n, ca_exec = tn_exec (turn_at n), ca_transport = ''eof''\<rparr>"

definition shutdown :: "race_move list" where
  "shutdown = [LoopDoes (call_at 200), LoopDoes (call_at 200), LoopDoes (call_at 200), MonitorDoes (Beat (env_at 250)),
     ContextEnds Canceled, LoopDoes (call_at 300), LoopDoes (call_at 300)]"

definition attempt_result :: "exec_error + raw \<times> raw" where
  "attempt_result = execute_step (tn_exec (turn_at 300)) attempt_a \<lparr>eo_fake_tool_url = []\<rparr>"

definition shut_down :: race where
  "shut_down = \<lparr>rc_db = fst (renew_lease st0 (env_at 250) tok db_started), rc_context = Canceled,
     rc_loop = Executed attempt_a attempt_result, rc_monitor = Selecting\<rparr>"

lemma run_load: "loop_act [] tok (call_at 200) Live Loading (db_claimed ''echo'') = Some (db_claimed ''echo'', Starting ''a'')"
proof -
  have "case load_claimed (env_at 200) ''t'' (db_claimed ''echo'') of Inl x \<Rightarrow> False
      | Inr ld \<Rightarrow> (case loaded_place ld of Starting sid \<Rightarrow> sid = ''a'' | _ \<Rightarrow> False)" by code_simp
  then show ?thesis by (auto simp: under_def call_at_def tok_def split: sum.splits loop_at.splits)
qed

lemma run_beat: "monitor_act st0 tok (Beat (env_at 250)) Live Selecting db_started
    = Some (fst (renew_lease st0 (env_at 250) tok db_started), Selecting)"
proof -
  have "case snd (renew_lease st0 (env_at 250) tok db_started) of Inl x \<Rightarrow> False | Inr _ \<Rightarrow> True" by code_simp
  then show ?thesis by (auto simp: under_def split: sum.splits prod.splits)
qed

lemma run_steps:
  "loop_act url lease c (rc_context s) (rc_loop s) (rc_db s) = Some (d, l) \<Longrightarrow>
    run (race_step st url lease) (s\<lparr>rc_db := d, rc_loop := l\<rparr>) ms t \<Longrightarrow> run (race_step st url lease) s (LoopDoes c # ms) t"
  "monitor_act st lease ch (rc_context s) (rc_monitor s) (rc_db s) = Some (d, m) \<Longrightarrow>
    run (race_step st url lease) (s\<lparr>rc_db := d, rc_monitor := m\<rparr>) ms t \<Longrightarrow> run (race_step st url lease) s (MonitorDoes ch # ms) t"
  "rc_context s = Live \<Longrightarrow> ctx \<noteq> Live \<Longrightarrow>
    run (race_step st url lease) (s\<lparr>rc_context := ctx\<rparr>) ms t \<Longrightarrow> run (race_step st url lease) s (ContextEnds ctx # ms) t"
  by (blast intro: run_cons race_step.intros)+

lemma shutdown_run: "run (race_step st0 [] tok) (race_start (db_claimed ''echo'')) shutdown
    (shut_down\<lparr>rc_loop := Leaving Interrupted\<rparr>)"
  unfolding shutdown_def
  apply (rule run_steps(1) [where d = "db_claimed ''echo''" and l = Loading], simp add: race_start_def)
  apply (rule run_steps(1) [where d = "db_claimed ''echo''" and l = "Starting ''a''"],
      simp add: race_start_def run_load del: loop_act.simps)
  apply (rule run_steps(1) [where d = db_started and l = "Executing attempt_a"],
      simp add: race_start_def under_def call_at_def run_start)
  apply (rule run_steps(2) [where d = "fst (renew_lease st0 (env_at 250) tok db_started)" and m = Selecting],
      simp add: race_start_def run_beat del: monitor_act.simps)
  apply (rule run_steps(3), simp add: race_start_def, simp)
  apply (rule run_steps(1) [where d = "fst (renew_lease st0 (env_at 250) tok db_started)"
          and l = "Executed attempt_a attempt_result"], simp add: call_at_def attempt_result_def)
  apply (rule run_steps(1) [where d = "fst (renew_lease st0 (env_at 250) tok db_started)"
          and l = "Leaving Interrupted"], simp)
  apply (simp add: race_start_def shut_down_def run_nil)
  done

lemma interleaving_is_a_claim_run_witness:
  "\<exists>tns d' f. execute_claim [] tok tns (db_claimed ''echo'') = (d', Interrupted) \<and>
    fst (renew_lease st0 (env_at 250) tok db_started) = f d' \<and> beside st0 tok {} f"
  using interleaving_is_a_claim_run [OF shutdown_run, of Interrupted "{}"]
  by (auto simp: shutdown_def shut_down_def)

lemma context_end_stops_claim_witness:
  "\<exists>mv \<in> {LoopDoes (call_at 300), LoopCancels, LoopJoins, MonitorDoes SeeContext, MonitorDoes (Control (env_at 300)), MonitorCloses}.
     \<exists>u. race_step st0 [] tok mv shut_down u"
proof -
  have over: "rc_context shut_down \<noteq> Live" "\<And>why. rc_loop shut_down \<noteq> Returned why" by (simp_all add: shut_down_def)
  from conjunct1 [OF conjunct2 [OF context_end_stops_claim [OF run_nil over(1), of st0 "[]" tok]]] over(2)
  show ?thesis by blast
qed

end
