(* ===== verification/Worker_Fenced.thy ===== *)
theory Worker_Fenced
  imports Worker_Race Deployment
begin

text \<open>
  A worker that lost its lease while it was paused, cut off or slow, and wakes up at any place of its
  two goroutines: for the database it is as if it were not there.
\<close>

fun others_part :: "race_move \<Rightarrow> db \<Rightarrow> db" where
  "others_part (Others f) d = f d"
| "others_part mv d = d"

lemma own_part: "own mv \<Longrightarrow> others_part mv d = d"
  by (cases mv) simp_all

lemma superseded_loop: "superseded lease d \<Longrightarrow> loop_act url lease c ctx l d = Some (d', l') \<Longrightarrow> d' = d"
  using superseded_ops [of lease d] superseded_control [of lease d]
  by (cases l) (auto simp: Let_def split: prod.splits sum.splits, (metis fst_conv)+)

lemma superseded_monitor_act: "superseded lease d \<Longrightarrow> monitor_act st lease ch ctx m d = Some (d', m') \<Longrightarrow> d' = d"
  using superseded_ops(6) [of lease d] superseded_control(1) [of lease d] beat_effect [of st lease _ ctx m d d' m']
  by (cases ch; cases m) (auto split: if_splits sum.splits)

lemma superseded_step: "race_step st url lease mv s t \<Longrightarrow> superseded lease (rc_db s) \<Longrightarrow> rc_db t = others_part mv (rc_db s)"
  by (cases rule: race_step.cases) (auto dest: superseded_loop superseded_monitor_act)

lemma client_keeps_superseded:
  assumes "store_client st a b f" "wf_db d" "superseded lease d"
  shows "wf_db (f d) \<and> superseded lease (f d)"
proof -
  from assms(3) obtain t where t: "find_task (lt_task_id lease) d = Some t" "lt_lease_version lease < t_lease_version t"
    by (auto simp: superseded_def)
  then have "version_from (Suc (lt_lease_version lease)) a (t, steps_of (lt_task_id lease) d, log_of (lt_task_id lease) d)"
    by (simp add: version_from_def)
  from client_lasts [OF version_from.lasting_axioms assms(1,2) view_of_find [OF t(1)] this] show ?thesis
    by (auto simp: superseded_def version_from_def dest!: view_of_parts)
qed

text \<open>C14: A worker that lost its task to another one is harmless: wherever its two goroutines stand when the
  lease is superseded, and in whatever order they and other clients go on, the database is at every
  moment the one the other clients alone would have made.\<close>

theorem stale_goroutines_harmless:
  assumes "wf_db (rc_db s)" "find_task (lt_task_id lease) (rc_db s) = Some t" "lt_lease_version lease < t_lease_version t"
    and "run (race_step st url lease) s ms u" "\<forall>f. Others f \<in> set ms \<longrightarrow> (\<exists>a b. store_client st a b f)"
  shows "rc_db u = fold others_part ms (rc_db s)"
proof -
  have "superseded lease (rc_db s)" using assms(2,3) by (auto simp: superseded_def)
  with assms(4,1,5) show ?thesis
  proof (induction rule: run.induct)
    case (run_cons mv s v ms u)
    note db = superseded_step [OF run_cons.hyps(1) run_cons.prems(3)]
    have "wf_db (rc_db v) \<and> superseded lease (rc_db v)"
    proof (cases mv)
      case (Others f)
      with run_cons.prems(2) obtain a b where "store_client st a b f" by auto
      from client_keeps_superseded [OF this run_cons.prems(1,3)] Others db show ?thesis by simp
    qed (use db run_cons.prems in simp_all)
    with run_cons.IH run_cons.prems(2) db show ?case by simp
  qed simp
qed

definition late_finish :: race where
  "late_finish = \<lparr>rc_db = db_taken, rc_context = Live, rc_loop = Finishing attempt_a attempt_result, rc_monitor = Selecting\<rparr>"

lemma stale_goroutines_harmless_witness:
  "\<exists>u. run (race_step st0 [] tok) late_finish [LoopDoes (call_at 31000300), Others (\<lambda>d. d)] u \<and> rc_db u = db_taken"
proof -
  let ?ms = "[LoopDoes (call_at 31000300), Others (\<lambda>d. d)]"
  have "\<And>why. rc_loop late_finish \<noteq> Leaving why \<and> rc_loop late_finish \<noteq> Joining why \<and> rc_loop late_finish \<noteq> Returned why"
    by (simp add: late_finish_def)
  from loop_enabled [OF this] obtain d l where
      "loop_act [] tok (call_at 31000300) (rc_context late_finish) (rc_loop late_finish) (rc_db late_finish) = Some (d, l)"
    by blast
  then obtain u where u: "run (race_step st0 [] tok) late_finish ?ms u"
    by (blast intro: run_steps run_cons others_act run_nil)
  have wf: "wf_db (rc_db late_finish)" using reachable_wf_db [OF reach_taken] by (simp add: late_finish_def)
  have row: "find_task (lt_task_id tok) (rc_db late_finish) = Some taken_row" "lt_lease_version tok < t_lease_version taken_row"
    by (simp_all add: late_finish_def tok_def task_read taken_row_def)
  have "\<forall>f. Others f \<in> set ?ms \<longrightarrow> (\<exists>a b. store_client st0 a b f)"
    using client_idle [of 0 0 st0] by auto
  from stale_goroutines_harmless [OF wf row u this] u show ?thesis by (auto simp: late_finish_def)
qed

end
