(* ===== verification/Tool_Effects.thy ===== *)
theory Tool_Effects
  imports Fake_Tool Store_Theorems
begin

text \<open>
  A \<open>fake_tool\<close> step across the store, the executor and the tool: its attempts, by whatever
  workers, send one request, so the tool applies one effect and answers one result.
\<close>

section \<open>One request for all attempts\<close>

lemma start_step_saves:
  assumes "start_step e lease sid d = (d', Inr a)" "fault e = NoFault"
  shows "\<exists>s \<in> set (steps_of (lt_task_id lease) d'). s_id s = sid \<and>
    s_resolved_input s = Some (at_resolved_input a) \<and> s_idempotency_key s = at_idempotency_key a"
proof -
  have body: "start_body e lease sid d = Commit d' (Inr a)"
    using assms start_admits(2) by (cases "start_body e lease sid d") (auto simp: start_step_def Let_def)
  then obtain s r where s: "find_step (lt_task_id lease) sid d = Some s" "a = attempt_of s r"
    and rows: "steps_of (lt_task_id lease) d' =
      set_step sid (start_step_row (clk e 1) r) (steps_of (lt_task_id lease) d)"
    by (auto simp: start_body_def Let_def view_simps start_step_row_def [abs_def]
        split: sum.splits option.splits if_splits)
  from find_step_mem [OF s(1)] have "start_step_row (clk e 1) r s \<in> set (steps_of (lt_task_id lease) d')"
    unfolding rows by (force simp: set_step_def)
  with find_step_mem [OF s(1)] s(2) show ?thesis
    by (intro bexI) (auto simp: start_step_row_def attempt_of_def)
qed

lemma one_request:
  assumes "start_step e1 lease1 sid d0 = (d, Inr a1)" "fault e1 = NoFault" "reachable st (d, now)"
    and "run (sys_step st) (d, now) acts (d', now')" "start_step e2 lease2 sid d' = (d'', Inr a2)"
    and "lt_task_id lease2 = lt_task_id lease1"
  shows "invocation_body a2 = invocation_body a1"
proof -
  from start_step_saves [OF assms(1,2)] obtain s where
      s: "s \<in> set (steps_of (lt_task_id lease2) d)" "s_id s = sid" "s_resolved_input s = Some (at_resolved_input a1)"
      "s_idempotency_key s = at_idempotency_key a1"
    unfolding assms(6) by blast
  have "at_resolved_input a2 = at_resolved_input a1 \<and> at_idempotency_key a2 = lt_task_id lease2 @ '':'' @ s_id s"
    using assms(5) s(2) by (intro input_stays [OF assms(3) s(1,3) assms(4)]) simp
  moreover have "s_idempotency_key s = lt_task_id lease2 @ '':'' @ s_id s"
    using reachable_wf_db [OF assms(3)] s(1) by (auto simp: wf_db_def definition_ok_def steps_of_def)
  ultimately show ?thesis using s(4) by (simp add: invocation_body_def)
qed

section \<open>One effect\<close>

definition applied_as :: "string \<Rightarrow> json \<Rightarrow> json \<Rightarrow> effect list \<Rightarrow> bool" where
  "applied_as k p r rows \<longleftrightarrow>
     (case row_at ef_key k rows of
        None \<Rightarrow> True
      | Some e \<Rightarrow> ef_payload e = p \<and> ef_result e = r \<and> ef_effect_count e = 1)"

lemma invoke_applied:
  assumes "parse_call body = Inr (k, p, v, b)" "applied_as k p (JObj [(''value'', v)]) rows"
  shows "applied_as k p (JObj [(''value'', v)]) (fst (invoke f body rows)) \<and>
    snd (invoke f body rows) \<in> {ToolReply 200 (Some (JObj [(''value'', v)])), ToolReply 500 None, NoReply}"
proof (cases "row_at ef_key k rows")
  case None
  with assms show ?thesis
    by (cases f) (auto simp: invoke_def record_effect_def record_body_new applied_as_def row_at_append row_at_single)
next
  case (Some e)
  with assms show ?thesis
    by (cases f) (auto simp: invoke_def record_effect_def record_body_old applied_as_def row_at_update)
qed

lemma invoke_other: "call_key body \<noteq> Some k \<Longrightarrow> applied_as k p r (fst (invoke f body rows)) = applied_as k p r rows"
  by (auto simp: applied_as_def invoke_rows call_key_def tool.others_kept split: sum.splits prod.splits)

lemma invoke_all_applied:
  assumes "parse_call body = Inr (k, p, v, b)" "applied_as k p (JObj [(''value'', v)]) rows"
    and "invoke_all calls rows = (rows', replies)"
    and "\<forall>c \<in> set calls. call_key (snd c) = Some k \<longrightarrow> snd c = body"
  shows "applied_as k p (JObj [(''value'', v)]) rows' \<and>
    (\<forall>i < length calls. snd (calls ! i) = body \<longrightarrow>
      replies ! i \<in> {ToolReply 200 (Some (JObj [(''value'', v)])), ToolReply 500 None, NoReply})"
  using assms(2-4)
proof (induction calls arbitrary: rows rows' replies)
  case (Cons c calls)
  obtain f bd where c: "c = (f, bd)" by (cases c)
  obtain rows1 reply where one: "invoke f bd rows = (rows1, reply)" by (cases "invoke f bd rows")
  obtain rs where rest: "invoke_all calls rows1 = (rows', rs)" "replies = reply # rs"
    using Cons.prems(2) by (auto simp: c one split: prod.splits)
  have "applied_as k p (JObj [(''value'', v)]) rows1 \<and> (bd = body \<longrightarrow>
      reply \<in> {ToolReply 200 (Some (JObj [(''value'', v)])), ToolReply 500 None, NoReply})"
  proof (cases "bd = body")
    case True
    with invoke_applied [OF assms(1) Cons.prems(1), of f] one show ?thesis by simp
  next
    case False
    with Cons.prems(3) c have "call_key bd \<noteq> Some k" by auto
    with invoke_other [of bd k p "JObj [(''value'', v)]" f rows] Cons.prems(1) one False show ?thesis by simp
  qed
  with Cons.IH [OF _ rest(1)] Cons.prems(3) rest(2) c show ?case
    by (auto simp: nth_Cons split: nat.splits)
qed simp

text \<open>C7: Whatever happens between two attempts of a tool step (crashes, takeovers, lost responses,
  retries) they make the same request. As long as no one else uses the step's key, the tool
  answers all of them with the one result, or fails without one, but never refuses them as a
  conflict, and it applies the effect once.\<close>

theorem tool_step_applied_once:
  assumes "start_step e1 lease1 sid d0 = (d, Inr a1)" "fault e1 = NoFault" "reachable st (d, now)"
    and "run (sys_step st) (d, now) acts (d', now')" "start_step e2 lease2 sid d' = (d'', Inr a2)"
    and "lt_task_id lease2 = lt_task_id lease1"
    and "parse_call (raw_of (invocation_body a1)) = Inr (k, p, v, b)" "row_at ef_key k rows = None"
    and "invoke_all calls rows = (rows', replies)"
    and "\<forall>c \<in> set calls. call_key (snd c) = Some k \<longrightarrow> snd c \<in> {raw_of (invocation_body a1), raw_of (invocation_body a2)}"
  shows "(\<forall>i < length calls. call_key (snd (calls ! i)) = Some k \<longrightarrow>
      replies ! i \<in> {ToolReply 200 (Some (JObj [(''value'', v)])), ToolReply 500 None, NoReply}) \<and>
    (case row_at ef_key k rows' of None \<Rightarrow> True | Some e \<Rightarrow> ef_effect_count e = 1)"
proof -
  have same: "invocation_body a2 = invocation_body a1" by (rule one_request [OF assms(1-6)])
  have "applied_as k p (JObj [(''value'', v)]) rows" using assms(8) by (simp add: applied_as_def)
  from invoke_all_applied [OF assms(7) this assms(9)] assms(10) same
  have a: "applied_as k p (JObj [(''value'', v)]) rows'" "\<forall>i < length calls. snd (calls ! i) = raw_of (invocation_body a1) \<longrightarrow>
      replies ! i \<in> {ToolReply 200 (Some (JObj [(''value'', v)])), ToolReply 500 None, NoReply}" by auto
  have "\<forall>i < length calls. call_key (snd (calls ! i)) = Some k \<longrightarrow> snd (calls ! i) = raw_of (invocation_body a1)"
    using assms(10) same by auto
  with a show ?thesis by (auto simp: applied_as_def split: option.splits)
qed

lemma body_of_a: "raw_of (invocation_body attempt_a) = tool_call ''t:a'' 7"
    "raw_of (invocation_body (attempt_a\<lparr>at_attempt := 2\<rparr>)) = tool_call ''t:a'' 7"
  by (simp_all add: invocation_body_def attempt_a_def tool_call_def echo_of_def)

lemma run_retry: "run (sys_step st0) (db_started, 210)
    [FinishStep (env_at 300) tok attempt_a bad, ProcessDueControl (env_at 1000400), ClaimTask (env_at 1000500) ''v'']
    (db_again, 1000510)"
  by (rule run_cons [OF step_fail run_again])

lemma tool_step_applied_once_witness:
  "snd (invoke_all [(CommitLost, tool_call ''t:a'' 7), (NoFault, tool_call ''t:a'' 7)] []) ! 1 =
    ToolReply 200 (Some (JObj [(''value'', JNum 7 0)])) \<or>
   snd (invoke_all [(CommitLost, tool_call ''t:a'' 7), (NoFault, tool_call ''t:a'' 7)] []) ! 1 \<in> {ToolReply 500 None, NoReply}"
proof -
  let ?cs = "[(CommitLost, tool_call ''t:a'' 7), (NoFault, tool_call ''t:a'' 7)]"
  obtain d2 where again: "start_step (env_at 1000600) tok2 ''a'' db_again = (d2, Inr (attempt_a\<lparr>at_attempt := 2\<rparr>))"
    using start_again by (cases "start_step (env_at 1000600) tok2 ''a'' db_again") simp
  obtain rows' replies where run: "invoke_all ?cs [] = (rows', replies)" by fastforce
  have key: "call_key (tool_call ''t:a'' 7) = Some ''t:a''" by (simp add: call_key_def call_parses)
  have "lt_task_id tok2 = lt_task_id tok" by (simp add: tok_def tok2_def)
  from tool_step_applied_once [OF run_start _ reach_started run_retry again this, unfolded body_of_a, OF _ call_parses(1) _ run]
  have "replies ! 1 \<in> {ToolReply 200 (Some (JObj [(''value'', JNum 7 0)])), ToolReply 500 None, NoReply}"
    by (auto simp: env_at_def row_at_def key)
  then show ?thesis unfolding run by simp
qed

end
