(* ===== verification/Id.thy ===== *)
theory Id
  imports Json "HOL-Library.Word"
begin

unbundle bit_operations_syntax

text \<open>
  \<open>internal/id/id.go\<close>: identifiers of tasks and steps, sixteen random bytes printed as a UUID of
  version 4. A byte is an \<open>8 word\<close>; the random source gives the bytes or fails.
\<close>

section \<open>The identifier\<close>

definition hex_byte :: "8 word \<Rightarrow> string" where
  "hex_byte b = [hex_digit (unat b div 16), hex_digit (unat b mod 16)]"

definition hex_bytes :: "8 word list \<Rightarrow> string" where
  "hex_bytes bs = concat (map hex_byte bs)"

text \<open>The six bits the version and the variant fix.\<close>

definition set_version :: "8 word \<Rightarrow> 8 word" where
  "set_version b = (b AND 0x0f) OR 0x40"

definition set_variant :: "8 word \<Rightarrow> 8 word" where
  "set_variant b = (b AND 0x3f) OR 0x80"

definition stamp :: "8 word list \<Rightarrow> 8 word list" where
  "stamp b = b[6 := set_version (b ! 6), 8 := set_variant (b ! 8)]"

definition format_id :: "8 word list \<Rightarrow> string" where
  "format_id b =
     hex_bytes (take 4 b) @ ''-'' @ hex_bytes (take 2 (drop 4 b)) @ ''-'' @
     hex_bytes (take 2 (drop 6 b)) @ ''-'' @ hex_bytes (take 2 (drop 8 b)) @ ''-'' @
     hex_bytes (take 6 (drop 10 b))"

definition new_id :: "8 word list option \<Rightarrow> string option" where
  "new_id random = map_option (\<lambda>b. format_id (stamp b)) random"

section \<open>Hexadecimal digits\<close>

definition hex_chars :: string where
  "hex_chars = ''0123456789abcdef''"

lemma hex_digit_table: "n < 16 \<Longrightarrow> hex_digit n = hex_chars ! n"
proof -
  assume "n < 16"
  then have "n \<in> set [0..<16]" by simp
  moreover have "list_all (\<lambda>n. hex_digit n = hex_chars ! n) [0..<16]" by code_simp
  ultimately show ?thesis by (simp add: list_all_iff)
qed

lemma hex_distinct: "distinct hex_chars" "length hex_chars = 16"
  by code_simp+

lemma hex_digit_inj: "m < 16 \<Longrightarrow> n < 16 \<Longrightarrow> hex_digit m = hex_digit n \<longleftrightarrow> m = n"
  using hex_distinct by (simp add: hex_digit_table nth_eq_iff_index_eq)

lemma hex_digit_mem: "n < 16 \<Longrightarrow> hex_digit n \<in> set hex_chars"
  using hex_distinct(2) by (simp add: hex_digit_table)

lemma byte_nibbles: "unat (b :: 8 word) div 16 < 16" "unat (b :: 8 word) mod 16 < 16"
proof -
  have "unat b < 256" using unsigned_less [of b] by simp
  then show "unat b div 16 < 16" "unat b mod 16 < 16" by simp_all
qed

lemma hex_byte_inj: "hex_byte a = hex_byte b \<longleftrightarrow> a = b"
proof
  assume "hex_byte a = hex_byte b"
  then have "unat a div 16 = unat b div 16" "unat a mod 16 = unat b mod 16"
    using byte_nibbles [of a] byte_nibbles [of b] by (simp_all add: hex_byte_def hex_digit_inj)
  then have "unat a = unat b" by (metis div_mult_mod_eq)
  then show "a = b" by (simp only: word_unat_eq_iff)
qed simp

lemma hex_bytes_simps [simp]: "hex_bytes [] = []" "hex_bytes (b # bs) = hex_byte b @ hex_bytes bs"
  by (simp_all add: hex_bytes_def)

lemma length_hex_byte [simp]: "length (hex_byte b) = 2"
  by (simp add: hex_byte_def)

lemma sixteen: "length b = 16 \<Longrightarrow> \<exists>b0 b1 b2 b3 b4 b5 b6 b7 b8 b9 b10 b11 b12 b13 b14 b15.
    b = [b0, b1, b2, b3, b4, b5, b6, b7, b8, b9, b10, b11, b12, b13, b14, b15]"
proof -
  assume "length b = 16"
  then have "b = map ((!) b) [0..<16]" using map_nth [of b] by simp
  then show ?thesis by (simp add: upt_rec) blast
qed

section \<open>The fixed bits\<close>

lemma unat_nibbles: "unat (b :: 8 word) div 16 = unat (drop_bit 4 b)" "unat b mod 16 = unat (take_bit 4 b)"
  by (simp_all add: drop_bit_eq_div take_bit_eq_mod unat_div_distrib unat_mod_distrib)

lemma fixed_bits: "set_version b = take_bit 4 b OR push_bit 6 1" "set_variant b = take_bit 6 b OR push_bit 7 1"
  by (simp_all add: set_version_def set_variant_def take_bit_eq_mask mask_eq_exp_minus_1 push_bit_eq_mult)

lemma version_nibble: "unat (set_version b) div 16 = 4" "unat (set_version b) mod 16 = unat b mod 16"
proof -
  have "drop_bit 4 (set_version b) = push_bit 2 1" "take_bit 4 (set_version b) = take_bit 4 b"
    unfolding fixed_bits by (rule bit_word_eqI; auto simp: bit_simps)+
  then show "unat (set_version b) div 16 = 4" "unat (set_version b) mod 16 = unat b mod 16"
    by (simp_all add: unat_nibbles)
qed

lemma variant_nibble: "unat (set_variant b) div 16 \<in> {8..<12}"
proof -
  have "drop_bit 6 (set_variant b) = push_bit 1 1"
    unfolding fixed_bits by (rule bit_word_eqI; auto simp: bit_simps)
  then have "unat (drop_bit 6 (set_variant b)) = 2" by simp
  then have "unat (set_variant b) div 64 = 2" by (simp add: drop_bit_eq_div unat_div_distrib)
  then show ?thesis by auto
qed

lemma hex_variant: "n \<in> {8..<12} \<Longrightarrow> hex_digit n \<in> set ''89ab''"
proof -
  assume "n \<in> {8..<12}"
  then have "n \<in> set [8..<12]" by (simp only: set_upt)
  moreover have "list_all (\<lambda>n. hex_digit n \<in> set ''89ab'') [8..<12]" by code_simp
  ultimately show ?thesis unfolding list_all_iff by blast
qed

lemma fixed_inj: "set_version a = set_version b \<longleftrightarrow> take_bit 4 a = take_bit 4 b"
    "set_variant a = set_variant b \<longleftrightarrow> take_bit 6 a = take_bit 6 b"
proof -
  have "take_bit 4 (set_version c) = take_bit 4 c" "take_bit 6 (set_variant c) = take_bit 6 c" for c
    unfolding fixed_bits by (rule bit_word_eqI; auto simp: bit_simps)+
  then show "set_version a = set_version b \<longleftrightarrow> take_bit 4 a = take_bit 4 b"
      "set_variant a = set_variant b \<longleftrightarrow> take_bit 6 a = take_bit 6 b"
    unfolding fixed_bits by metis+
qed

section \<open>The properties\<close>

text \<open>C40: An identifier is 36 characters long: hexadecimal digits and a dash after the eighth, twelfth,
  sixteenth and twentieth digit; the digit of the version is 4, the one of the variant 8, 9, a or
  b. So it is never empty and holds no colon, which separates it in an idempotency key.\<close>

theorem id_format:
  assumes "length b = 16"
  shows "\<exists>s. new_id (Some b) = Some s \<and> length s = 36 \<and>
    [s ! 8, s ! 13, s ! 18, s ! 23] = ''----'' \<and> set (filter (\<lambda>c. c \<noteq> CHR ''-'') s) \<subseteq> set hex_chars \<and>
    length (filter (\<lambda>c. c = CHR ''-'') s) = 4 \<and>
    s ! 14 = CHR ''4'' \<and> s ! 19 \<in> set ''89ab'' \<and> CHR '':'' \<notin> set s"
proof -
  obtain b0 b1 b2 b3 b4 b5 b6 b7 b8 b9 b10 b11 b12 b13 b14 b15 where
      b: "b = [b0, b1, b2, b3, b4, b5, b6, b7, b8, b9, b10, b11, b12, b13, b14, b15]"
    using sixteen [OF assms] by blast
  let ?h = "\<lambda>c :: 8 word. hex_digit (unat c div 16)" and ?l = "\<lambda>c :: 8 word. hex_digit (unat c mod 16)"
  have hex: "?h c \<in> set hex_chars" "?l c \<in> set hex_chars" for c
    using byte_nibbles by (simp_all add: hex_digit_mem)
  have no: "CHR '':'' \<notin> set hex_chars" "CHR ''-'' \<notin> set hex_chars" by code_simp+
  have neq: "CHR '':'' \<noteq> ?h c" "CHR '':'' \<noteq> ?l c" "?h c \<noteq> CHR ''-''" "?l c \<noteq> CHR ''-''" for c
    using hex no by metis+
  let ?v = "set_version b6" and ?w = "set_variant b8"
  let ?s = "[?h b0, ?l b0, ?h b1, ?l b1, ?h b2, ?l b2, ?h b3, ?l b3, CHR ''-'', ?h b4, ?l b4, ?h b5, ?l b5, CHR ''-'',
    ?h ?v, ?l ?v, ?h b7, ?l b7, CHR ''-'', ?h ?w, ?l ?w, ?h b9, ?l b9, CHR ''-'',
    ?h b10, ?l b10, ?h b11, ?l b11, ?h b12, ?l b12, ?h b13, ?l b13, ?h b14, ?l b14, ?h b15, ?l b15]"
  have s: "new_id (Some b) = Some ?s"
    by (simp add: b new_id_def stamp_def format_id_def hex_byte_def)
  have "hex_digit 4 = CHR ''4''" by code_simp
  then have "?s ! 14 = CHR ''4''" by (simp add: version_nibble(1))
  moreover have "?s ! 19 \<in> set ''89ab''"
    using hex_variant [OF variant_nibble] by simp
  moreover have "set (filter (\<lambda>c. c \<noteq> CHR ''-'') ?s) \<subseteq> set hex_chars" by (simp add: hex neq)
  moreover have "length (filter (\<lambda>c. c = CHR ''-'') ?s) = 4" by (simp add: neq)
  moreover have "CHR '':'' \<notin> set ?s" by (simp add: neq)
  moreover have "[?s ! 8, ?s ! 13, ?s ! 18, ?s ! 23] = ''----''" "length ?s = 36" by simp_all
  ultimately show ?thesis using s by blast
qed

lemma id_format_witness:
  "\<exists>s. new_id (Some (replicate 16 255)) = Some s \<and> length s = 36 \<and> s ! 14 = CHR ''4''"
  using id_format [of "replicate 16 255"] by auto

text \<open>Two identifiers are equal only when their random bytes agree in all but the six fixed bits:
  the remaining 122 bits are all kept.\<close>

theorem ids_collide_iff:
  assumes "length a = 16" "length b = 16"
  shows "new_id (Some a) = new_id (Some b) \<longleftrightarrow>
    list_all (\<lambda>i. a ! i = b ! i) [0, 1, 2, 3, 4, 5, 7, 9, 10, 11, 12, 13, 14, 15] \<and>
    take_bit 4 (a ! 6) = take_bit 4 (b ! 6) \<and> take_bit 6 (a ! 8) = take_bit 6 (b ! 8)"
proof -
  obtain a0 a1 a2 a3 a4 a5 a6 a7 a8 a9 a10 a11 a12 a13 a14 a15 where
      a: "a = [a0, a1, a2, a3, a4, a5, a6, a7, a8, a9, a10, a11, a12, a13, a14, a15]"
    using sixteen [OF assms(1)] by blast
  obtain b0 b1 b2 b3 b4 b5 b6 b7 b8 b9 b10 b11 b12 b13 b14 b15 where
      b: "b = [b0, b1, b2, b3, b4, b5, b6, b7, b8, b9, b10, b11, b12, b13, b14, b15]"
    using sixteen [OF assms(2)] by blast
  show ?thesis
    by (simp add: a b new_id_def stamp_def format_id_def hex_byte_inj fixed_inj) blast
qed

lemma ids_collide_iff_witness:
  "new_id (Some (replicate 16 0)) \<noteq> new_id (Some (1 # replicate 15 0))"
  using ids_collide_iff [of "replicate 16 0" "1 # replicate 15 0"] by simp

end
