(* ===== verification/Spec2Isabelle.thy ===== *)
theory Spec2Isabelle
  imports System_Liveness Worker_Pipeline Worker_Process Worker_Fenced Tool_Effects Id
begin

text \<open>
  RunState is a durable task runner on one PostgreSQL database: clients define tasks of up to 100
  steps over HTTP, worker processes claim them under a lease and execute their steps, a scheduler
  wakes and ends tasks when their time comes, and a small tool applies the effects of one kind of
  step. This development models the Go code of these parts and proves what makes it correct.

  THE PARTS OF THE PROGRAM AND THEIR THEORIES

  The task model, \<open>internal/task/model.go\<close>: theory Task_Model (the rows of the tables \<open>tasks\<close>,
  \<open>task_steps\<close>, \<open>task_events\<close> as records, the statuses as datatypes). JSON values, their compact
  encoding and raw messages: theory Json. References in a step's input,
  \<open>internal/task/resolve.go\<close>: theory Resolve.

  The store, \<open>internal/store/store.go\<close>, through which every part reaches the database: Store_Core
  (the database, transactions, \<open>lockTask\<close>, \<open>lockOwnedTask\<close>, \<open>commitWithFactCheck\<close>), Store_Create
  (\<open>CreateTask\<close>, \<open>LoadTask\<close>, \<open>LoadEvents\<close>), Store_Claim (\<open>ClaimTask\<close>, \<open>recoverExpiredTask\<close>,
  \<open>RenewLease\<close>), Store_Steps (\<open>StartStep\<close>, \<open>FinishStep\<close>), Store_Approval (\<open>WaitForApproval\<close>,
  \<open>DecideApproval\<close>), Store_Control (\<open>CancelTask\<close>, \<open>CancelOwnedTask\<close>, \<open>TimeoutOwnedTask\<close>,
  \<open>ProcessDueControl\<close>, \<open>WakeDueRetry\<close>). A method is a function of the same name in snake case,
  from an environment and a database to a database and an error or a result; the part of a method
  between BEGIN and COMMIT is a \<open>_body\<close> that ends in a rollback or a commit.

  The step implementations, \<open>internal/executor/executor.go\<close>: theory Executor. The tool they call,
  \<open>internal/faketool/handler.go\<close>: theory Fake_Tool. The HTTP interface,
  \<open>internal/api/handler.go\<close>: theory Api. The worker, \<open>internal/worker/worker.go\<close>: theory Worker.
  The scheduler, \<open>internal/scheduler/scheduler.go\<close>: theory Scheduler. Configuration and
  identifiers, \<open>internal/config/config.go\<close>, \<open>internal/id/id.go\<close> and the settings the programs under
  \<open>cmd/\<close> read: theories Config and Id. The schema scripts, \<open>internal/migrations/migrations.go\<close>:
  theory Migrations. The five programs themselves, \<open>cmd/*/main.go\<close>: theory Commands, where a \<open>main\<close> is a
  function from the environment variables, what the host offers (record \<open>host\<close>) and the rounds,
  polls or requests until its signal, to the database and the exit code. What the code uses of the standard library (\<open>ParseDuration\<close>, \<open>Atoi\<close>,
  \<open>TrimSpace\<close>, the RFC 3339 layout, the matching of JSON keys): theory Go_Std. Tables, runs and the
  order of nullable columns: theory Prelude.

  WHAT IS PROVED, AND WHERE

  Task_Moves is the abstract specification: the state machine of one task (its row, its steps, its
  log) as an inductive relation. Task_Invariant is its invariant. Store_Refines shows that every
  transaction of the store that commits makes one such move; Store_System puts the operations
  together as a transition system in which any client calls any operation in any order, with any
  failure, and derives the invariant of every reachable database. Store_Lasting holds the facts
  that last along a run (a superseded or expired lease, a finished step, a decision, a deadline, a
  cancellation), each an interpretation of the locale \<open>lasting\<close>. Store_Owner is the contract of the
  operations with a lease token (locales \<open>owner_operation\<close> and \<open>progress_operation\<close>), Store_Confirm the
  one of the operations whose COMMIT is confirmed by a query (\<open>confirmed_operation\<close>). Scenario has
  the concrete histories the witnesses run on. Store_Theorems states the properties of all
  operations together, Store_Operations those of single operations, branch by branch.

  Scheduler: the inner loop ends, takes due tasks by priority, and a poll that nothing disturbs
  leaves nothing due. Executor: an input the API accepts does not fail at execution because of what
  it is, a sleep with two spellings of its key excepted (locale \<open>step_implementation\<close>, interpreted
  for the four step types), and which failures are retried.
  Fake_Tool: an effect is applied once per key (locale
  \<open>effect_ledger\<close>); Tool_Effects joins it with the store: the attempts of a step, across crashes
  and takeovers, apply one effect. Api_Theorems: what is accepted, what each request is answered,
  whatever fails, and that an error changes nothing unless it is a 500 for an unknown outcome. The
  locale \<open>task_service\<close> has the contract of the store the handlers rely on; the store satisfies it in
  an environment without lost responses and interference (\<open>calm\<close>). Worker_Theorems:
  a superseded token is without effect, a slot keeps the invariant, the executing loop ends.
  Worker_Progress: a worker that is left alone brings its task out of RUNNING. Worker_Pipeline: it
  computes what a reference definition without leases, attempts and database says. Worker_Monitor:
  heartbeats that come in time keep the lease, and a cancellation reaches the task. Worker_Race: \<open>executeClaim\<close> and
  \<open>monitorControl\<close> as two goroutines with a shared context, in a small-step relation; once the context
  is over both end, and any interleaving is a run of the function \<open>execute_claim\<close> (locale
  \<open>interference\<close>: what may happen beside the loop is closed under composition); Worker_Fenced: the
  goroutines of a worker that lost its task leave no trace in the database. Commands and
  Worker_Process: the exit codes, and how much slack between heartbeat and lease keeps the leases of
  a worker alive.
  Config, Id: settings are in range, identifiers have their format and keep 122 random bits.
  Deployment: what the API, the workers, their monitors and the schedulers do between each other is
  a run of Store_System, so that its properties hold of them. System_Liveness: in any deployment the
  deadline of a claimed task ends it. The root theory states that a deployment is such a run, and
  what a task goes through from its request to the answer with its result.

  HOW THE CODE IS READ

  A transaction is one atomic step: every transaction that changes a task locks its row first, so
  the transactions on a task are serial. What is not decided by the code is the
  environment of the call (record \<open>env\<close>): the readings \<open>clk e 0\<close>, \<open>clk e 1\<close>, ... of the database's
  clock in program order, the rows other transactions have locked (\<open>SKIP LOCKED\<close>), a statement that
  fails, a COMMIT that is refused or whose response is lost, what others commit before a query
  outside the transaction, and whether this query fails. A statement reads the clock once for its
  condition, however many rows it looks at: \<open>clock_timestamp()\<close> moves on within a query, the model
  takes one reading for the selection of a candidate (\<open>claim_candidate\<close>, \<open>due_candidate\<close>). In a run the
  clock does not run backwards between operations. Times are integers, in microseconds for the database and in
  nanoseconds for Go's durations.

  A JSON object is a list of pairs with distinct keys; a number is a decimal without exponent;
  a raw message is its length, its value and whether PostgreSQL reads its text, and nil has length 0.
  A request's body is its length, its first document, whether only blanks follow, and for each value
  the length of its text and whether PostgreSQL reads it; a string is what \<open>encoding/json\<close> decodes. The
  constraints of the schema (keys, positive 32-bit limits, immutable step definitions) are part of
  the inserts and updates. The lease version is a natural number where the column has 64 bits.
  A panic is the error \<open>ErrPanic\<close>.

  Goroutines are interleaved at the calls of the store: what the monitor, the other slots and the
  other processes commit before a call of \<open>executeClaim\<close> is a function on the database
  (\<open>tn_others\<close>), and the same for the monitor and for the polls of a slot and of the scheduler. The
  state of a context is given by the environment at the points where the code looks at it. That
  nothing is lost this way is the theorem \<open>interleaving_is_a_claim_run\<close>, where the goroutines share the
  context: its deadline, the end of the loop and the monitor cancel it, and a call under it then fails.

  BOUNDS AND FUEL

  A loop of the program that waits for the outside runs over the list of what the outside does: a
  list of environments (\<open>scan\<close>), of turns (\<open>execute_claim\<close>), of ticks (\<open>monitor_control\<close>), of rounds
  (\<open>run_slot\<close>). That these lists are long enough is proved: \<open>scan_terminates\<close> (two rounds per task),
  \<open>claim_loop_terminates\<close> (one turn more than there are steps left). \<open>duration_terms\<close> takes as many
  rounds as the text has characters, and every term uses at least one; the same for
  \<open>strip_prefixes\<close>. The retry delay doubles as the loop of \<open>FinishStep\<close> does and is capped at 60 seconds.

  NOT MODELLED, AND WHY

  Logging, the delivery of signals, the connection pool and the HTTP server are input and output
  only: whether a database answers, an address can be listened on, and when a program is told to
  stop are parameters, like the execution of a schema script. The text
  of HTTP replies is a datatype of what is replied. PostgreSQL refuses a text with NUL and some documents
  \<open>encoding/json\<close> accepts: this is modelled where the texts of clients become rows, in \<open>CreateTask\<close>
  (\<open>nullable_text\<close>, \<open>to_jsonb\<close>; what depends on the bytes of the document is a parameter,
  \<open>raw_clean\<close>), and left out elsewhere: a result of the tool it cannot store is stored, a path or a
  step id with NUL is one no task has (404 where the program answers 500). Of PostgreSQL, the gaps
  a rolled back insert leaves in the event numbers and the rounding of a time with more than six
  decimals are left out too. The fraction
  of a duration is computed exactly, where \<open>ParseDuration\<close> uses floating point. The HTTP client and
  the timers of a step execution are the record \<open>exec_env\<close>: what the request was answered and how
  the wait ended.

  FINDINGS

  \<open>step_after_approval_cannot_start\<close> (a reference to the output of an approval is accepted and can
  never be resolved), \<open>create_answers\<close> (a limit over 32 bits and a tenant with NUL are answered 500),
  \<open>sleep_check_differs\<close> (the check of a sleep input and its execution read different keys),
  and \<open>tiny_lease_accepted\<close> (a lease below a microsecond is accepted and lasts no time).

  LEFT FOR LATER

  The reference definition for tasks with approvals and retries; the two goroutines of Worker_Race as
  an activity of a deployment; that a task nobody has claimed yet is claimed when workers poll.
\<close>

section \<open>The components together\<close>

text \<open>C9: Whatever the programs of a deployment do (the API serving requests, the slots of workers, their
  monitors, schedulers), each between the others, is a run of the system of the store's
  operations; so what is proved of those runs holds of the deployment.\<close>

theorem deployment_is_system_run:
  assumes "deployment_between st a xs b"
  shows "\<exists>acts now'. run (sys_step st) (d, a) acts (fold (perform_activity st) xs d, now') \<and> now' \<le> b"
  using client_run [OF deployment_client [OF assms] order_refl] .

definition timed_turn :: "time \<Rightarrow> turn" where
  "timed_turn n = (turn_at n)\<lparr>tn_control := (\<lambda>k. env_at (n + 200 + 100 * int k))\<rparr>"

definition sample_deployment :: "activity list" where
  "sample_deployment =
     [Working worker0 [\<lparr>sl_claim = env_at 100, sl_turns = [timed_turn 1000, timed_turn 2000], sl_idle = (\<lambda>d. d)\<rparr>],
      Monitoring tok [(HeartbeatTick (env_at 4000) (env_at 4100), \<lambda>d. d)],
      Scheduling [([env_at 5000], \<lambda>d. d)],
      Serving (env_at 6000) ids (PostCancel ''t'')]"

lemma timed_turn_between: "a \<le> n \<Longrightarrow> n + 310 \<le> b \<Longrightarrow> turn_between st a (timed_turn n) b"
  unfolding turn_between_def timed_turn_def turn_at_def
  by (rule exI [of _ a], rule exI [of _ a], rule exI [of _ "n + 10"], rule exI [of _ "n + 110"],
      rule exI [of _ "n + 210"]) (simp add: client_idle)

lemma deployment_is_system_run_witness:
  "\<exists>acts now'. run (sys_step st0) (db_new ''echo'', 20) acts (fold (perform_activity st0) sample_deployment (db_new ''echo''), now') \<and>
    now' \<le> 7000"
proof (rule deployment_is_system_run)
  have turns: "turns_between st0 110 [timed_turn 1000, timed_turn 2000] 3000"
    using timed_turn_between [of 110 1000 1500 st0] timed_turn_between [of 1500 2000 3000 st0] by auto
  let ?rd = "\<lparr>sl_claim = env_at 100, sl_turns = [timed_turn 1000, timed_turn 2000], sl_idle = (\<lambda>d. d)\<rparr>"
  have "round_between st0 20 ?rd 3000"
    using turns by (simp add: round_between_def client_idle del: turns_between.simps)
  then have "activity_between st0 20 (Working worker0 [?rd]) 3000"
    unfolding activity_between.simps rounds_between.simps by blast
  moreover have "activity_between st0 3000 (Monitoring tok [(HeartbeatTick (env_at 4000) (env_at 4100), \<lambda>d. d)]) 4500"
    unfolding activity_between.simps ticks_between.simps
    by (intro exI [of _ 3500] exI [of _ 4400] conjI client_idle) simp_all
  moreover have "activity_between st0 4500 (Scheduling [([env_at 5000], \<lambda>d. d)]) 5500"
    unfolding activity_between.simps polls_between.simps
    by (intro exI [of _ 5100] exI [of _ 5200] conjI client_idle) simp_all
  moreover have "activity_between st0 5500 (Serving (env_at 6000) ids (PostCancel ''t'')) 7000" by simp
  ultimately show "deployment_between st0 20 sample_deployment 7000"
    unfolding sample_deployment_def deployment_between.simps by blast
qed

text \<open>C4: From the request to the answer: a posted task without approvals that a worker claims and executes
  undisturbed is then served as SUCCEEDED, and the outputs of its steps are those of the reference
  definition \<open>pipeline\<close>: each computed from the configured input, the output before it and the
  checkpoint.\<close>

theorem posted_task_is_computed:
  assumes "wf_db d" "serve (database_store (calm e) ids_of) (PostTask b) d = (d1, rs)" "rs_body rs = TaskReply ld"
    and "claim_task st e1 w d1 = (d2, Inr c)" "lt_task_id (cl_token c) = t_id (ld_task ld)"
    and "X \<le> cl_lease_expires_at c" "X \<le> cl_deadline_at c"
    and "list_all (healthy X) tns" "length (ld_steps ld) < length tns"
    and "list_all (\<lambda>s. s_type s \<noteq> step_type_approval) (ld_steps ld)"
    and "pipeline url (JObj []) None (ld_steps ld) (map tn_exec tns) = Some ws" "fault e2 = NoFault"
  shows "\<exists>d3 ld'. execute_claim url (cl_token c) tns d2 = (d3, NothingToDo) \<and>
    serve (database_store (calm e2) ids_of) (GetTask (t_id (ld_task ld))) d3 = (d3, reply 200 (TaskReply ld')) \<and>
    t_status (ld_task ld') = StatusSucceeded \<and> map s_output (ld_steps ld') = map Some ws"
proof -
  let ?i = "t_id (ld_task ld)"
  from assms(2,3) obtain td where td: "create_task (calm e) ids_of td d = (d1, Inr ld)" "valid_action (CreateTask (calm e) ids_of td)"
    by (rule served_creation)
  from created_rows [OF assms(1) td(1)] obtain tid where tid: "find_task tid d1 = Some (ld_task ld)"
      "ld_task ld = new_task (calm e) tid td" "ld_steps ld = steps_of tid d1" "\<forall>s \<in> set (ld_steps ld). s_status s = StepPending"
    by auto
  then have i: "tid = ?i" by (simp add: new_task_def)
  have wf1: "wf_db d1" using perform_wf [OF assms(1) td(2)] td(1) by simp
  have "t_status (ld_task ld) \<noteq> StatusRunning" "t_checkpoint (ld_task ld) = JObj []"
    unfolding tid(2) by (simp_all add: new_task_def split: option.splits)
  then have rows: "\<exists>t. find_task ?i d2 = Some t \<and> t_checkpoint t = JObj []" "steps_of ?i d2 = ld_steps ld"
    using claim_keeps_rows [OF wf1 assms(4)] assms(5) tid(1,3) i by (auto simp: assign_lease_def)
  then obtain t where t: "find_task ?i d2 = Some t" "t_checkpoint t = JObj []" by blast
  have "list_all (\<lambda>s. s_status s = StepPending \<and> s_type s \<noteq> step_type_approval) (ld_steps ld)"
    using tid(4) assms(10) by (simp add: list_all_iff)
  then obtain d3 t3 where d3: "execute_claim url (cl_token c) tns d2 = (d3, NothingToDo)" "wf_db d3"
      "find_task ?i d3 = Some t3" "t_status t3 = StatusSucceeded" "map s_output (steps_of ?i d3) = map Some ws"
    using worker_computes [OF wf1 assms(4,6,7), of t url tns ws] t rows(2) assms(5,8,9,11) by auto
  have "map s_index (steps_of ?i d3) = [0..<length (steps_of ?i d3)]"
    using wf_row [OF d3(2,3)] by (simp add: steps_inv_def)
  then have "sort_key s_index (steps_of ?i d3) = steps_of ?i d3" by (intro sort_key_sorted) simp
  then have "serve (database_store (calm e2) ids_of) (GetTask ?i) d3 =
      (d3, reply 200 (TaskReply \<lparr>ld_task = t3, ld_steps = steps_of ?i d3\<rparr>))"
    using d3(3) assms(12) by (simp add: handle_get_task_def database_store_def load_task_def)
  with d3 show ?thesis by (intro exI [of _ d3] exI [of _ "\<lparr>ld_task = t3, ld_steps = steps_of ?i d3\<rparr>"]) simp
qed

definition posted :: json where
  "posted = JObj [(''task_timeout_seconds'', JNum 60 0),
     (''steps'', JArr [echo_step (JNum 7 0) [(''max_attempts'', JNum 2 0)], echo_step previous [(''max_attempts'', JNum 2 0)]])]"

definition posted_request :: task_request where
  "posted_request = \<lparr>tr_tenant_id = None, tr_run_at = None, tr_task_timeout_seconds = Some 60,
     tr_steps = [\<lparr>sr_type = ''echo'', sr_input = raw_of (echo_of (JNum 7 0)), sr_timeout_seconds = None, sr_max_attempts = Some 2\<rparr>,
       \<lparr>sr_type = ''echo'', sr_input = raw_of (echo_of previous), sr_timeout_seconds = None, sr_max_attempts = Some 2\<rparr>]\<rparr>"

lemma decode_posted: "decode_task_request (body_of posted) = Some posted_request"
  by (simp add: decode_task_request_def single_document_def body_of_def posted_def max_document_bytes_def
      decode_task_fields_def known_fields_def matching_def folds raw_field_def int_pointer_field_def echo_step_def int64_def
      decode_step_fields_def empty_step_request_def posted_request_def raw_of_def del: marshal.simps fold_name.simps)

lemma validate_posted: "validate_definition posted_request = Inr (task_def ''echo'')"
  by (simp add: validate_definition_def posted_request_def task_def_def step_def_def or_default_def validate_step_def
      two_lengths two_inputs max_document_bytes_def step_type_approval_def del: marshal.simps)

lemma posted_served: "\<exists>ld. serve (database_store (calm (env_at 0)) ids) (PostTask (body_of posted)) empty_db =
    (db_new ''echo'', reply 201 (TaskReply ld)) \<and> t_id (ld_task ld) = ''t'' \<and>
    ld_steps ld = [step_row ''a'' 0 ''echo'' (JNum 7 0), row_b]"
proof -
  have calm: "calm (env_at 0) = env_at 0" by (simp add: calm_def env_at_def)
  obtain ld where ld: "create_task (env_at 0) ids (task_def ''echo'') empty_db = (db_new ''echo'', Inr ld)"
    using create_loads run_create
    by (cases "create_task (env_at 0) ids (task_def ''echo'') empty_db") (auto split: sum.splits)
  have "steps_of ''t'' (db_new ''echo'') = [step_row ''a'' 0 ''echo'' (JNum 7 0), row_b]" by code_simp
  with created_rows [OF wf_empty ld] have "t_id (ld_task ld) = ''t''" "ld_steps ld = [step_row ''a'' 0 ''echo'' (JNum 7 0), row_b]"
    by (auto simp: env_at_def new_task_def)
  with ld show ?thesis
    by (intro exI [of _ ld]) (simp add: calm handle_create_task_def decode_posted validate_posted database_store_def)
qed

lemma posted_stages:
  "resolve_input (raw_of (s_input (step_row ''a'' 0 ''echo'' (JNum 7 0)))) (raw_column None) (raw_of (JObj [])) = Inr (raw_of (echo_of (JNum 7 0)))"
  "execute_step xe (attempt_of (step_row ''a'' 0 ''echo'' (JNum 7 0)) (echo_of (JNum 7 0))) opts = Inr (raw_of (echo_of (JNum 7 0)), raw_nil)"
  "resolve_input (raw_of (s_input row_b)) (raw_column (Some (echo_of (JNum 7 0)))) (raw_of (JObj [])) = Inr (raw_of (echo_of (echo_of (JNum 7 0))))"
  "execute_step xe (attempt_of row_b (echo_of (echo_of (JNum 7 0)))) opts = Inr (raw_of (echo_of (echo_of (JNum 7 0))), raw_nil)"
  "raw_len (raw_of (echo_of (JNum 7 0))) = 11" "raw_len (raw_of (echo_of (echo_of (JNum 7 0)))) = 21"
  by code_simp+

lemma posted_pipeline:
  "pipeline [] (JObj []) None [step_row ''a'' 0 ''echo'' (JNum 7 0), row_b] [xe1, xe2, xe3] =
     Some [echo_of (JNum 7 0), echo_of (echo_of (JNum 7 0))]"
proof -
  have "raw_val (raw_of v) = Some v" "(max_json_bytes < 11) = False" "(max_json_bytes < 21) = False" for v
    by (simp_all add: max_json_bytes_def)
  then show ?thesis
    by (simp only: pipeline.simps posted_stages sum.case option.case prod.case option.map if_False)
qed

lemma posted_task_is_computed_witness:
  "\<exists>d1 rs c d3 ld'. serve (database_store (calm (env_at 0)) ids) (PostTask (body_of posted)) empty_db = (d1, rs) \<and>
    claim_task st0 (env_at 100) ''w'' d1 = (db_claimed ''echo'', Inr c) \<and>
    execute_claim [] (cl_token c) [turn_at 200, turn_at 400, turn_at 600] (db_claimed ''echo'') = (d3, NothingToDo) \<and>
    serve (database_store (calm (env_at 900)) ids) (GetTask ''t'') d3 = (d3, reply 200 (TaskReply ld')) \<and>
    map s_output (ld_steps ld') = [Some (echo_of (JNum 7 0)), Some (echo_of (echo_of (JNum 7 0)))]"
proof -
  obtain ld where ld: "serve (database_store (calm (env_at 0)) ids) (PostTask (body_of posted)) empty_db =
      (db_new ''echo'', reply 201 (TaskReply ld))" "t_id (ld_task ld) = ''t''"
      "ld_steps ld = [step_row ''a'' 0 ''echo'' (JNum 7 0), row_b]"
    using posted_served by blast
  have "fault (env_at 900) = NoFault" by (simp add: env_at_def)
  from posted_task_is_computed [OF wf_empty ld(1) _ run_claim _ _ _ turns_healthy _ _ _ this, of ld "[]"
      "[echo_of (JNum 7 0), echo_of (echo_of (JNum 7 0))]"]
  obtain d3 ld' where "execute_claim [] (cl_token claim0) [turn_at 200, turn_at 400, turn_at 600] (db_claimed ''echo'') = (d3, NothingToDo)"
      "serve (database_store (calm (env_at 900)) ids) (GetTask ''t'') d3 = (d3, reply 200 (TaskReply ld'))"
      "map s_output (ld_steps ld') = [Some (echo_of (JNum 7 0)), Some (echo_of (echo_of (JNum 7 0)))]"
    using ld(2,3) posted_pipeline
    by (auto simp: reply_def claim0_def tok_def step_row_def row_b_def step_type_approval_def
        simp del: serve.simps execute_claim.simps pipeline.simps)
  with ld(1) run_claim show ?thesis
    by (intro exI [of _ "db_new ''echo''"] exI [of _ "reply 201 (TaskReply ld)"] exI [of _ claim0] exI [of _ d3] exI [of _ ld'])
      (simp del: serve.simps execute_claim.simps)
qed

end
